(* ===== verification/Prelude.thy ===== *)
theory Prelude
  imports Complex_Main "HOL-Library.Word"
begin

text \<open>
  Shared vocabulary of the development: the fact collections the component theories
  extend, results as sums, and the small state-and-exception calculus in which the
  asynchronous TypeScript functions are written. An \<open>async\<close> function that reads and
  writes the database and may throw is an \<open>('s, 'e, 'a) op\<close>: from a state it yields
  either the thrown error or the resolved value, together with the state it leaves
  behind. The state survives a throw, as committed statements do in the program; undoing
  the effects of a failed transaction is a separate combinator (\<open>transaction\<close>).
\<close>

section \<open>Fact collections\<close>

named_theorems js_simps \<open>evaluation of the JavaScript number and string operations\<close>
named_theorems db_simps \<open>what a statement does to each table\<close>
named_theorems wf_intros \<open>operations that keep the well-formedness of the database\<close>
named_theorems frame_intros \<open>operations that leave the rows of other organizations alone\<close>

section \<open>The errors of the program\<close>

text \<open>
  What the TypeScript can throw: the error classes of \<open>domain/\<close>, \<open>rpc/\<close> and \<open>auth/\<close> with
  their messages, the errors Postgres reports (by SQLSTATE; a violated constraint carries
  its name), a \<open>RangeError\<close> of the language, and a plain \<open>Error\<close>.
\<close>

datatype pg_error =
    Pg22P02                      \<comment> \<open>invalid text representation of a uuid\<close>
  | Pg22003                      \<comment> \<open>numeric value out of range for the column\<close>
  | Pg22021                      \<comment> \<open>a text value with a zero byte\<close>
  | PgDatetime                   \<comment> \<open>a timestamp text the server does not accept (22007, 22008)\<close>
  | Pg23505 string               \<comment> \<open>unique violation of the named constraint\<close>
  | Pg23503 string               \<comment> \<open>foreign key violation of the named constraint\<close>
  | Pg42501                      \<comment> \<open>new row violates the row-level security policy\<close>

datatype code = InvalidArgument | NotFound | Unauthenticated

datatype error =
    JsError string
  | RangeError
  | PairingCodeError string
  | EnrollmentError string
  | HttpError nat string string
  | ConnectError string code
  | PgError pg_error

section \<open>Results and operations\<close>

type_synonym ('s, 'e, 'a) op = "'s \<Rightarrow> ('e + 'a) \<times> 's"

definition op_return :: "'a \<Rightarrow> ('s, 'e, 'a) op" where
  "op_return x = (\<lambda>s. (Inr x, s))"

definition op_throw :: "'e \<Rightarrow> ('s, 'e, 'a) op" where
  "op_throw e = (\<lambda>s. (Inl e, s))"

definition op_bind :: "('s, 'e, 'a) op \<Rightarrow> ('a \<Rightarrow> ('s, 'e, 'b) op) \<Rightarrow> ('s, 'e, 'b) op" where
  "op_bind m f = (\<lambda>s. case m s of (Inl e, t) \<Rightarrow> (Inl e, t) | (Inr x, t) \<Rightarrow> f x t)"

text \<open>\<open>try { m } catch (err) { h(err) }\<close>; a handler that rethrows is \<open>op_throw\<close>.\<close>

definition op_catch :: "('s, 'e, 'a) op \<Rightarrow> ('e \<Rightarrow> ('s, 'e, 'a) op) \<Rightarrow> ('s, 'e, 'a) op" where
  "op_catch m h = (\<lambda>s. case m s of (Inl e, t) \<Rightarrow> h e t | (Inr x, t) \<Rightarrow> (Inr x, t))"

text \<open>\<open>for (const x of xs) { await f(x) }\<close>: stops at the first throw.\<close>

fun op_for :: "'x list \<Rightarrow> ('x \<Rightarrow> ('s, 'e, unit) op) \<Rightarrow> ('s, 'e, unit) op" where
  "op_for [] f = op_return ()"
| "op_for (x # xs) f = op_bind (f x) (\<lambda>_. op_for xs f)"

text \<open>The state a loop leaves when every round succeeds.\<close>

lemma op_for_fold:
  assumes "op_for xs f s = (Inr u, t)"
    and "\<And>x s t. x \<in> set xs \<Longrightarrow> f x s = (Inr (), t) \<Longrightarrow> t = upd x s"
  shows "t = fold upd xs s"
  using assms
proof (induction xs arbitrary: s)
  case Nil
  then show ?case by (simp add: op_return_def)
next
  case (Cons x xs)
  then obtain s1 where 1: "f x s = (Inr (), s1)" "op_for xs f s1 = (Inr u, t)"
    by (auto simp: op_bind_def split: prod.splits sum.splits)
  then have "s1 = upd x s" using Cons.prems(2) by simp
  then show ?case using 1 Cons by simp
qed

text \<open>A transaction: the effects of \<open>m\<close> are kept only if it does not throw.\<close>

definition transaction :: "('s, 'e, 'a) op \<Rightarrow> ('s, 'e, 'a) op" where
  "transaction m = (\<lambda>s. case m s of (Inl e, t) \<Rightarrow> (Inl e, s) | (Inr x, t) \<Rightarrow> (Inr x, t))"

text \<open>Read-only access to the state.\<close>

definition op_get :: "('s \<Rightarrow> 'a) \<Rightarrow> ('s, 'e, 'a) op" where
  "op_get f = (\<lambda>s. (Inr (f s), s))"

lemmas op_defs = op_return_def op_throw_def op_bind_def op_catch_def op_get_def

lemma op_return_apply [simp]: "op_return x s = (Inr x, s)"
  by (simp add: op_return_def)

lemma op_throw_apply [simp]: "op_throw e s = (Inl e, s)"
  by (simp add: op_throw_def)

lemma op_get_apply [simp]: "op_get f s = (Inr (f s), s)"
  by (simp add: op_get_def)

lemma op_bind_Inl [simp]: "m s = (Inl e, t) \<Longrightarrow> op_bind m f s = (Inl e, t)"
  by (simp add: op_bind_def)

lemma op_bind_Inr [simp]: "m s = (Inr x, t) \<Longrightarrow> op_bind m f s = f x t"
  by (simp add: op_bind_def)

lemma op_bind_return [simp]: "op_bind (op_return x) f = f x"
  by (simp add: op_bind_def op_return_def)

lemma op_bind_get [simp]: "op_bind (op_get g) f s = f (g s) s"
  by (simp add: op_bind_def)

lemma op_bind_assoc: "op_bind (op_bind m f) g = op_bind m (\<lambda>x. op_bind (f x) g)"
  by (auto simp: op_bind_def fun_eq_iff split: sum.splits prod.splits)

lemma op_bind_cases:
  assumes "op_bind m f s = r"
  obtains (thrown) e t where "m s = (Inl e, t)" and "r = (Inl e, t)"
    | (resume) x t where "m s = (Inr x, t)" and "f x t = r"
  using assms by (cases "m s"; cases "fst (m s)") auto

lemma op_bind_success:
  assumes "op_bind m f s = (Inr y, u)"
  obtains x t where "m s = (Inr x, t)" and "f x t = (Inr y, u)"
  using assms by (auto elim: op_bind_cases)

lemma op_catch_Inr [simp]: "m s = (Inr x, t) \<Longrightarrow> op_catch m h s = (Inr x, t)"
  by (simp add: op_catch_def)

lemma op_catch_Inl [simp]: "m s = (Inl e, t) \<Longrightarrow> op_catch m h s = h e t"
  by (simp add: op_catch_def)

lemma transaction_Inr [simp]: "m s = (Inr x, t) \<Longrightarrow> transaction m s = (Inr x, t)"
  by (simp add: transaction_def)

lemma transaction_Inl [simp]: "m s = (Inl e, t) \<Longrightarrow> transaction m s = (Inl e, s)"
  by (simp add: transaction_def)

lemma transaction_success:
  "transaction m s = (Inr x, t) \<longleftrightarrow> m s = (Inr x, t)"
  by (auto simp: transaction_def split: sum.splits prod.splits)

lemma transaction_throw:
  "transaction m s = (Inl e, t) \<longleftrightarrow> (\<exists>u. m s = (Inl e, u)) \<and> t = s"
  by (auto simp: transaction_def split: sum.splits prod.splits)

lemma fst_transaction [simp]: "fst (transaction m s) = fst (m s)"
  by (simp add: transaction_def split: sum.splits prod.splits)

text \<open>\<open>xs.map(f)\<close> for a function that may throw: the first error ends it.\<close>

fun map_result :: "('a \<Rightarrow> 'e + 'b) \<Rightarrow> 'a list \<Rightarrow> 'e + 'b list" where
  "map_result f [] = Inr []"
| "map_result f (x # xs) =
     (case f x of
        Inl e \<Rightarrow> Inl e
      | Inr y \<Rightarrow> (case map_result f xs of Inl e \<Rightarrow> Inl e | Inr ys \<Rightarrow> Inr (y # ys)))"

lemma map_result_Inr: "map_result f xs = Inr ys \<longleftrightarrow> list_all2 (\<lambda>x y. f x = Inr y) xs ys"
proof (induction xs arbitrary: ys)
  case (Cons a xs)
  show ?case by (auto simp: list_all2_Cons1 Cons.IH [symmetric] split: sum.splits)
qed auto

lemma map_result_total: "(\<And>x. x \<in> set xs \<Longrightarrow> \<exists>y. f x = Inr y) \<Longrightarrow> \<exists>ys. map_result f xs = Inr ys"
  by (induction xs) (force split: sum.splits)+

text \<open>An operation that computes without touching the state.\<close>

definition op_lift :: "'e + 'a \<Rightarrow> ('s, 'e, 'a) op" where
  "op_lift r = (\<lambda>s. (r, s))"

lemma op_lift_apply [simp]: "op_lift r s = (r, s)"
  by (simp add: op_lift_def)

section \<open>State predicates an operation keeps\<close>

definition keeps :: "('s \<Rightarrow> bool) \<Rightarrow> ('s, 'e, 'a) op \<Rightarrow> bool" where
  "keeps I m \<longleftrightarrow> (\<forall>s. I s \<longrightarrow> I (snd (m s)))"

text \<open>Two states agree after the operation on what \<open>v\<close> observes of them.\<close>

definition preserves :: "('s \<Rightarrow> 'v) \<Rightarrow> ('s, 'e, 'a) op \<Rightarrow> bool" where
  "preserves v m \<longleftrightarrow> (\<forall>s. v (snd (m s)) = v s)"

lemma keepsD: "keeps I m \<Longrightarrow> I s \<Longrightarrow> m s = (r, t) \<Longrightarrow> I t"
  unfolding keeps_def by (metis snd_conv)

lemma keepsI: "(\<And>s r t. I s \<Longrightarrow> m s = (r, t) \<Longrightarrow> I t) \<Longrightarrow> keeps I m"
  unfolding keeps_def by (metis prod.collapse)

lemma keeps_return [simp, intro]: "keeps I (op_return x)"
  by (simp add: keeps_def)

lemma keeps_throw [simp, intro]: "keeps I (op_throw e)"
  by (simp add: keeps_def)

lemma keeps_get [simp, intro]: "keeps I (op_get f)"
  by (simp add: keeps_def)

lemma keeps_lift [simp, intro]: "keeps I (op_lift r)"
  by (simp add: keeps_def)

lemma keeps_bind [intro]: "keeps I m \<Longrightarrow> (\<And>x. keeps I (f x)) \<Longrightarrow> keeps I (op_bind m f)"
  by (rule keepsI) (auto elim!: op_bind_cases dest: keepsD)

lemma keeps_catch [intro]: "keeps I m \<Longrightarrow> (\<And>e. keeps I (h e)) \<Longrightarrow> keeps I (op_catch m h)"
  by (rule keepsI) (auto simp: op_catch_def split: sum.splits prod.splits dest: keepsD)

lemma keeps_for [intro]: "(\<And>x. x \<in> set xs \<Longrightarrow> keeps I (f x)) \<Longrightarrow> keeps I (op_for xs f)"
  by (induction xs) auto

lemma keeps_transaction [intro]: "keeps I m \<Longrightarrow> keeps I (transaction m)"
  by (rule keepsI) (auto simp: transaction_def split: sum.splits prod.splits dest: keepsD)

lemma preserves_keeps: "preserves v m \<longleftrightarrow> (\<forall>c. keeps (\<lambda>s. v s = c) m)"
  by (auto simp: preserves_def keeps_def)

lemma preservesD: "preserves v m \<Longrightarrow> m s = (r, t) \<Longrightarrow> v t = v s"
  unfolding preserves_def by (metis snd_conv)

lemma preserves_return [simp, intro]: "preserves v (op_return x)"
  by (simp add: preserves_def)

lemma preserves_throw [simp, intro]: "preserves v (op_throw e)"
  by (simp add: preserves_def)

lemma preserves_get [simp, intro]: "preserves v (op_get f)"
  by (simp add: preserves_def)

lemma preserves_lift [simp, intro]: "preserves v (op_lift r)"
  by (simp add: preserves_def)

lemma preserves_bind [intro]:
  "preserves v m \<Longrightarrow> (\<And>x. preserves v (f x)) \<Longrightarrow> preserves v (op_bind m f)"
  unfolding preserves_keeps by blast

lemma preserves_catch [intro]:
  "preserves v m \<Longrightarrow> (\<And>e. preserves v (h e)) \<Longrightarrow> preserves v (op_catch m h)"
  unfolding preserves_keeps by blast

lemma preserves_for [intro]:
  "(\<And>x. x \<in> set xs \<Longrightarrow> preserves v (f x)) \<Longrightarrow> preserves v (op_for xs f)"
  unfolding preserves_keeps by blast

lemma preserves_transaction [intro]: "preserves v m \<Longrightarrow> preserves v (transaction m)"
  unfolding preserves_keeps by blast

section \<open>Lists\<close>

text \<open>\<open>const [row] = await ...limit(1)\<close>: the first row, or undefined.\<close>

fun first_row :: "'a list \<Rightarrow> 'a option" where
  "first_row [] = None"
| "first_row (x # xs) = Some x"

lemma first_row_in_set: "first_row xs = Some x \<Longrightarrow> x \<in> set xs"
  by (cases xs) auto

lemma first_row_None [simp]: "first_row xs = None \<longleftrightarrow> xs = []"
  by (cases xs) auto

lemma first_row_filter_Some:
  "first_row (filter P xs) = Some x \<Longrightarrow> x \<in> set xs \<and> P x"
  by (auto dest: first_row_in_set)

lemma distinct_map_filter_unique:
  assumes "distinct (map f xs)" and "x \<in> set xs"
  shows "filter (\<lambda>y. f y = f x) xs = [x]"
  using assms
proof (induction xs)
  case (Cons a xs)
  show ?case
  proof (cases "a = x")
    case True
    with Cons.prems have "f x \<notin> f ` set xs" by simp
    then have "filter (\<lambda>y. f y = f x) xs = []"
      unfolding filter_empty_conv by (metis imageI)
    with True show ?thesis by simp
  next
    case False
    with Cons.prems have "x \<in> set xs" and "f a \<noteq> f x" by auto
    with Cons show ?thesis by simp
  qed
qed simp

lemma distinct_map_inj:
  "distinct (map f xs) \<Longrightarrow> x \<in> set xs \<Longrightarrow> y \<in> set xs \<Longrightarrow> f x = f y \<Longrightarrow> x = y"
  by (auto simp: distinct_map dest: inj_onD)

lemma map_if_same_key:
  assumes "\<And>x. x \<in> set xs \<Longrightarrow> f (g x) = f x"
  shows "map f (map (\<lambda>x. if P x then g x else x) xs) = map f xs"
  using assms by simp

lemma distinct_map_filter: "distinct (map f xs) \<Longrightarrow> distinct (map f (filter P xs))"
  by (auto simp: distinct_map inj_on_def)

section \<open>Transition systems\<close>

text \<open>The contract of a transition system with an invariant.\<close>

locale invariant_system =
  fixes start :: "'y \<Rightarrow> bool"
    and step :: "'y \<Rightarrow> 'y \<Rightarrow> bool"
    and inv :: "'y \<Rightarrow> bool"
  assumes start_inv: "start y \<Longrightarrow> inv y"
    and step_inv: "inv y \<Longrightarrow> step y y' \<Longrightarrow> inv y'"
begin

lemma reachable_inv: "step\<^sup>*\<^sup>* y y' \<Longrightarrow> start y \<Longrightarrow> inv y'"
  by (induction rule: rtranclp_induct) (blast intro: start_inv step_inv)+

end

end
