(* ===== verification/Js_Number.thy ===== *)
theory Js_Number
  imports Prelude "HOL-Library.Log_Nat"
begin

text \<open>
  JavaScript numbers. A finite IEEE 754 double is the rational number it denotes, and
  every arithmetic operation of the program is the exact operation followed by rounding
  to the nearest double, ties to even (\<open>fl\<close>). Subnormals are covered: the grid of doubles
  never gets finer than \<open>2\<^sup>-\<^sup>1\<^sup>0\<^sup>7\<^sup>4\<close>. Overflow to infinity matters only where a number is
  read from text (\<open>js_Number\<close> in \<open>Js_String\<close>): everywhere else the operands are below
  \<open>2\<^sup>6\<^sup>4\<close>. The laws proved here are the ones the components need: \<open>fl\<close> is monotone,
  it is the identity on the integers up to \<open>2\<^sup>5\<^sup>3\<close> and on their halves, and its relative
  error is at most \<open>2\<^sup>-\<^sup>5\<^sup>3\<close> away from the subnormals.
\<close>

type_synonym number = rat

section \<open>Rounding an exact value to an integer, ties to even\<close>

definition rhe :: "rat \<Rightarrow> int" where
  "rhe y = (let n = \<lfloor>y\<rfloor>; d = y - of_int n in
     if d < 1 / 2 then n else if d > 1 / 2 then n + 1 else if even n then n else n + 1)"

lemma rhe_of_int [simp]: "rhe (of_int n) = n"
  by (simp add: rhe_def)

lemma rhe_0 [simp]: "rhe 0 = 0"
  using rhe_of_int [of 0] by simp

lemma rhe_bounds: "y - 1 / 2 \<le> of_int (rhe y)" "of_int (rhe y) \<le> y + 1 / 2"
proof -
  have "of_int \<lfloor>y\<rfloor> \<le> y" and "y < of_int \<lfloor>y\<rfloor> + 1" by linarith+
  then show "y - 1 / 2 \<le> of_int (rhe y)" "of_int (rhe y) \<le> y + 1 / 2"
    unfolding rhe_def Let_def by (auto split: if_splits; linarith)+
qed

lemma rhe_floor: "rhe y = \<lfloor>y\<rfloor> \<or> rhe y = \<lfloor>y\<rfloor> + 1"
  by (simp add: rhe_def Let_def)

lemma rhe_mono: "x \<le> y \<Longrightarrow> rhe x \<le> rhe y"
proof -
  assume le: "x \<le> y"
  then have fl: "\<lfloor>x\<rfloor> \<le> \<lfloor>y\<rfloor>" by (rule floor_mono)
  show ?thesis
  proof (cases "\<lfloor>x\<rfloor> = \<lfloor>y\<rfloor>")
    case True
    with le show ?thesis by (auto simp: rhe_def Let_def)
  next
    case False
    with fl have "\<lfloor>x\<rfloor> + 1 \<le> \<lfloor>y\<rfloor>" by simp
    with rhe_floor [of x] rhe_floor [of y] show ?thesis by auto
  qed
qed

lemma rhe_ge: "of_int n \<le> y \<Longrightarrow> n \<le> rhe y"
  using rhe_mono [of "of_int n" y] by simp

lemma rhe_le: "y \<le> of_int n \<Longrightarrow> rhe y \<le> n"
  using rhe_mono [of y "of_int n"] by simp

text \<open>Rounding a fraction by integer division, for concrete values.\<close>

lemma floor_frac_numeral [js_simps]:
  "\<lfloor>numeral a / numeral b :: rat\<rfloor> = numeral a div numeral b"
  using floor_divide_of_int_eq [of "numeral a" "numeral b", where 'a = rat] by simp

section \<open>Rounding to the nearest double\<close>

text \<open>
  \<open>scale\<close> is the number of units \<open>2\<^sup>-\<^sup>1\<^sup>0\<^sup>7\<^sup>4\<close> in one. A non-negative value of \<open>y\<close> units
  whose integral part has \<open>L\<close> bits keeps its leading 53 bits: it is rounded to a multiple
  of \<open>2\<^sup>L\<^sup>-\<^sup>5\<^sup>3\<close> units.
\<close>

definition scale :: rat where
  "scale = 2 ^ 1074"

definition excess :: "rat \<Rightarrow> nat" where
  "excess y = floorlog 2 (nat \<lfloor>y\<rfloor>) - 53"

definition fl_units :: "rat \<Rightarrow> rat" where
  "fl_units y = of_int (rhe (y / 2 ^ excess y)) * 2 ^ excess y"

definition fl :: "rat \<Rightarrow> number" where
  "fl x = (if x < 0 then - (fl_units (- x * scale) / scale) else fl_units (x * scale) / scale)"

lemma scale_pos [simp]: "0 < scale"
  by (simp add: scale_def)

lemma scale_nonneg [simp]: "0 \<le> scale"
  using scale_pos by (rule less_imp_le)

lemma scale_nonzero [simp]: "scale \<noteq> 0"
  using scale_pos by linarith

lemma power2_cancel: "e \<le> t \<Longrightarrow> x * 2 ^ t / 2 ^ e = x * (2 :: rat) ^ (t - e)"
  by (simp add: power_diff)

lemma scale_cancel: "k \<le> 1074 \<Longrightarrow> x * scale / 2 ^ k = x * 2 ^ (1074 - k)"
  unfolding scale_def by (rule power2_cancel)

lemma scale_cancel2: "1074 \<le> k \<Longrightarrow> x * 2 ^ k / scale = x * 2 ^ (k - 1074)"
  unfolding scale_def by (rule power2_cancel)

lemma fl_units_exact: "y / 2 ^ excess y = of_int n \<Longrightarrow> fl_units y = y"
  by (simp add: fl_units_def) (simp add: field_simps)

lemma excess_mono: "x \<le> y \<Longrightarrow> excess x \<le> excess y"
  unfolding excess_def by (intro diff_le_mono floorlog_mono nat_mono floor_mono)

lemma excess_less: "0 \<le> y \<Longrightarrow> y < 2 ^ (53 + excess y)"
proof -
  assume "0 \<le> y"
  let ?n = "nat \<lfloor>y\<rfloor>"
  have "floorlog 2 ?n \<le> 53 + excess y" by (simp add: excess_def)
  then have "?n < 2 ^ (53 + excess y)" by (rule floorlog_leD) simp
  then have "\<lfloor>y\<rfloor> < 2 ^ (53 + excess y)" using \<open>0 \<le> y\<close>
    by (metis nat_less_iff nat_0_le of_nat_less_iff of_nat_numeral of_nat_power zero_le_floor)
  then show ?thesis by (simp add: floor_less_iff)
qed

lemma excess_ge: "0 < excess y \<Longrightarrow> 2 ^ (52 + excess y) \<le> y"
proof -
  assume pos: "0 < excess y"
  let ?n = "nat \<lfloor>y\<rfloor>"
  have "53 + excess y \<le> floorlog 2 ?n" using pos by (simp add: excess_def)
  then have "2 ^ (53 + excess y - 1) \<le> ?n" by (rule floorlog_geD) simp
  then have le: "2 ^ (52 + excess y) \<le> ?n" by simp
  then have "0 < ?n" by (meson less_le_trans pos2 zero_less_power)
  then have "int ?n = \<lfloor>y\<rfloor>" by simp
  with le have "(2::int) ^ (52 + excess y) \<le> \<lfloor>y\<rfloor>"
    by (metis of_nat_le_iff of_nat_numeral of_nat_power)
  then show ?thesis by (simp add: le_floor_iff)
qed

lemma fl_units_upper: "0 \<le> y \<Longrightarrow> fl_units y \<le> 2 ^ (53 + excess y)"
proof -
  assume "0 \<le> y"
  then have "y / 2 ^ excess y \<le> of_int (2 ^ 53)"
    using excess_less [of y] by (simp add: power_add divide_le_eq less_imp_le)
  then have "rhe (y / 2 ^ excess y) \<le> 2 ^ 53" by (rule rhe_le)
  then have "(of_int (rhe (y / 2 ^ excess y)) :: rat) \<le> 2 ^ 53"
    by (metis of_int_le_iff of_int_numeral of_int_power)
  then show ?thesis
    unfolding fl_units_def power_add by (rule mult_right_mono) simp
qed

lemma fl_units_lower: "0 < excess y \<Longrightarrow> 2 ^ (52 + excess y) \<le> fl_units y"
proof -
  assume "0 < excess y"
  then have "of_int (2 ^ 52) \<le> y / 2 ^ excess y"
    using excess_ge [of y] by (simp add: power_add le_divide_eq)
  then have "2 ^ 52 \<le> rhe (y / 2 ^ excess y)" by (rule rhe_ge)
  then have "(2 :: rat) ^ 52 \<le> of_int (rhe (y / 2 ^ excess y))"
    by (metis of_int_le_iff of_int_numeral of_int_power)
  then show ?thesis
    unfolding fl_units_def power_add by (rule mult_right_mono) simp
qed

lemma fl_units_mono: "0 \<le> x \<Longrightarrow> x \<le> y \<Longrightarrow> fl_units x \<le> fl_units y"
proof -
  assume x: "0 \<le> x" and le: "x \<le> y"
  show ?thesis
  proof (cases "excess x = excess y")
    case True
    have "rhe (x / 2 ^ excess y) \<le> rhe (y / 2 ^ excess y)"
      using le by (intro rhe_mono divide_right_mono) simp_all
    then show ?thesis by (simp add: fl_units_def True)
  next
    case False
    then have lt: "excess x < excess y" using excess_mono [OF le] by simp
    have "fl_units x \<le> 2 ^ (53 + excess x)" using x by (rule fl_units_upper)
    also have "\<dots> \<le> 2 ^ (52 + excess y)" using lt by (intro power_increasing) simp_all
    also have "\<dots> \<le> fl_units y" using lt by (intro fl_units_lower) simp
    finally show ?thesis .
  qed
qed

lemma fl_units_nonneg: "0 \<le> y \<Longrightarrow> 0 \<le> fl_units y"
  by (simp add: fl_units_def rhe_ge)

lemma fl_units_fix_less:
  assumes "0 \<le> m" and "m < 2 ^ 53"
  shows "fl_units (of_int m * 2 ^ t) = of_int m * 2 ^ t"
proof -
  let ?y = "of_int m * 2 ^ t :: rat"
  have "?y < 2 ^ 53 * 2 ^ t"
    using assms(2) by (metis mult_strict_right_mono of_int_less_iff of_int_numeral of_int_power
        zero_less_numeral zero_less_power)
  then have y: "?y < 2 ^ (53 + t)" by (simp add: power_add)
  have le: "excess ?y \<le> t"
  proof (rule ccontr)
    assume "\<not> excess ?y \<le> t"
    then have "t < excess ?y" by simp
    then have "(2::rat) ^ (53 + t) \<le> 2 ^ (52 + excess ?y)" by (intro power_increasing) simp_all
    also have "\<dots> \<le> ?y" using \<open>t < excess ?y\<close> by (intro excess_ge) simp
    finally show False using y by simp
  qed
  then have "?y / 2 ^ excess ?y = of_int (m * 2 ^ (t - excess ?y))"
    using power2_cancel [OF le] by simp
  then show ?thesis by (rule fl_units_exact)
qed

lemma fl_units_fix:
  assumes "0 \<le> m" and "m \<le> 2 ^ 53"
  shows "fl_units (of_int m * 2 ^ t) = of_int m * 2 ^ t"
proof (cases "m = 2 ^ 53")
  case True
  have "fl_units (of_int (2 ^ 52) * 2 ^ Suc t) = of_int (2 ^ 52) * 2 ^ Suc t"
    by (rule fl_units_fix_less) simp_all
  with True show ?thesis by simp
next
  case False
  with assms show ?thesis by (intro fl_units_fix_less) simp_all
qed

section \<open>The laws of rounding\<close>

lemma fl_minus [simp]: "fl (- x) = - fl x"
  by (auto simp: fl_def fl_units_def excess_def)

lemma fl_0 [simp]: "fl 0 = 0"
  by (simp add: fl_def fl_units_def)

lemma fl_nonneg: "0 \<le> x \<Longrightarrow> 0 \<le> fl x"
  by (simp add: fl_def fl_units_nonneg divide_nonneg_pos)

lemma fl_mono: "x \<le> y \<Longrightarrow> fl x \<le> fl y"
proof -
  have pos: "fl x \<le> fl y" if "0 \<le> x" "x \<le> y" for x y
    using that by (simp add: fl_def divide_right_mono fl_units_mono mult_right_mono)
  assume le: "x \<le> y"
  consider "0 \<le> x" | "x < 0" "0 \<le> y" | "x < 0" "y < 0" by linarith
  then show ?thesis
  proof cases
    case 1
    then show ?thesis using le by (rule pos)
  next
    case 2
    then have "fl x \<le> 0" using fl_nonneg [of "- x"] by simp
    also have "0 \<le> fl y" using 2 by (intro fl_nonneg)
    finally show ?thesis .
  next
    case 3
    then have "fl (- y) \<le> fl (- x)" using le by (intro pos) simp_all
    then show ?thesis by simp
  qed
qed

lemma fl_dyadic:
  assumes "\<bar>n\<bar> \<le> 2 ^ 53" and "k \<le> 1074"
  shows "fl (of_int n / 2 ^ k) = of_int n / 2 ^ k"
proof -
  have pos: "fl (of_int m / 2 ^ k) = of_int m / 2 ^ k" if "0 \<le> m" "m \<le> 2 ^ 53" for m
  proof -
    have "of_int m / 2 ^ k * scale = of_int m * 2 ^ (1074 - k)"
      using scale_cancel [OF assms(2), of "of_int m"] by simp
    then have "fl_units (of_int m / 2 ^ k * scale) = of_int m / 2 ^ k * scale"
      using that by (simp add: fl_units_fix)
    moreover have "\<not> (of_int m :: rat) / 2 ^ k < 0"
      using that by (simp add: divide_less_0_iff)
    ultimately show ?thesis by (simp add: fl_def)
  qed
  show ?thesis
  proof (cases "0 \<le> n")
    case True
    with assms(1) show ?thesis by (intro pos) simp_all
  next
    case False
    with assms(1) have "fl (of_int (- n) / 2 ^ k) = of_int (- n) / 2 ^ k" by (intro pos) simp_all
    then show ?thesis by simp
  qed
qed

lemma fl_pow2: "fl (2 ^ t) = 2 ^ t"
proof -
  have "2 ^ t * scale = of_int 1 * 2 ^ (t + 1074)" by (simp add: scale_def power_add)
  then have "fl_units (2 ^ t * scale) = 2 ^ t * scale" using fl_units_fix [of 1 "t + 1074"] by simp
  then show ?thesis by (simp add: fl_def)
qed

lemma fl_of_int [simp]: "\<bar>n\<bar> \<le> 2 ^ 53 \<Longrightarrow> fl (of_int n) = of_int n"
  using fl_dyadic [of n 0] by simp

lemma fl_numeral: "numeral n \<le> (2 ^ 53 :: int) \<Longrightarrow> fl (numeral n) = numeral n"
  using fl_of_int [of "numeral n"] by simp

text \<open>Adding, subtracting and rounding integers yields integers.\<close>

lemma fl_Ints: "x \<in> \<int> \<Longrightarrow> fl x \<in> \<int>"
proof -
  have pos: "fl (of_int n) \<in> \<int>" if "0 \<le> n" for n
  proof -
    let ?y = "of_int n * scale" and ?e = "excess (of_int n * scale)"
    show ?thesis
    proof (cases "?e \<le> 1074")
      case True
      then have "?y / 2 ^ ?e = of_int (n * 2 ^ (1074 - ?e))"
        using scale_cancel [OF True, of "of_int n"] by simp
      then have "fl_units ?y = ?y" by (rule fl_units_exact)
      then show ?thesis using that by (simp add: fl_def)
    next
      case False
      then have "1074 \<le> ?e" by simp
      then have "fl_units ?y / scale = of_int (rhe (?y / 2 ^ ?e) * 2 ^ (?e - 1074))"
        using scale_cancel2 [of ?e "of_int (rhe (?y / 2 ^ ?e))"] by (simp add: fl_units_def)
      then show ?thesis using that by (simp add: fl_def)
    qed
  qed
  assume "x \<in> \<int>"
  then obtain n where n: "x = of_int n" by (auto elim: Ints_cases)
  show ?thesis
  proof (cases "0 \<le> n")
    case True
    then show ?thesis unfolding n by (rule pos)
  next
    case False
    then have "fl (of_int (- n)) \<in> \<int>" by (intro pos) simp
    then show ?thesis by (simp add: n)
  qed
qed

text \<open>How a concrete product or quotient is rounded: find the binade, round there.\<close>

lemma excess_eq: "2 ^ (52 + e) \<le> y \<Longrightarrow> y < 2 ^ (53 + e) \<Longrightarrow> excess y = e"
proof -
  assume lo: "2 ^ (52 + e) \<le> y" and hi: "y < 2 ^ (53 + e)"
  have pos: "0 \<le> y" using lo by (rule order_trans [rotated]) simp
  have False if "excess y < e"
  proof -
    have "y < 2 ^ (53 + excess y)" using pos by (rule excess_less)
    also have "(2::rat) ^ (53 + excess y) \<le> 2 ^ (52 + e)"
      using that by (intro power_increasing) simp_all
    finally show False using lo by simp
  qed
  moreover have False if "e < excess y"
  proof -
    have "(2::rat) ^ (53 + e) \<le> 2 ^ (52 + excess y)"
      using that by (intro power_increasing) simp_all
    also have "\<dots> \<le> y" using that by (intro excess_ge) simp
    finally show False using hi by simp
  qed
  ultimately show ?thesis by (meson linorder_neqE_nat)
qed

lemma fl_eval:
  assumes "2 ^ 52 \<le> x * 2 ^ k" and "x * 2 ^ k < 2 ^ 53" and "k \<le> 1022"
  shows "fl x = of_int (rhe (x * 2 ^ k)) / 2 ^ k"
proof -
  let ?e = "1074 - k"
  have k: "k \<le> 1074" using assms(3) by simp
  have y: "x * scale = x * 2 ^ k * 2 ^ ?e"
    using scale_cancel [OF k, of x] by (simp add: field_simps)
  have e: "excess (x * scale) = ?e"
  proof (rule excess_eq)
    show "2 ^ (52 + ?e) \<le> x * scale"
      unfolding y power_add using assms(1) by (rule mult_right_mono) simp
    show "x * scale < 2 ^ (53 + ?e)"
      unfolding y power_add using assms(2) by (rule mult_strict_right_mono) simp
  qed
  have "0 < x * 2 ^ k" using assms(1) by (rule less_le_trans [rotated]) simp
  then have "0 < x" by (simp add: zero_less_mult_iff)
  moreover have "x * scale / 2 ^ ?e = x * 2 ^ k" by (simp add: y)
  then have "fl_units (x * scale) = of_int (rhe (x * 2 ^ k)) * 2 ^ ?e"
    by (simp only: fl_units_def e)
  moreover have "2 ^ ?e / scale = 1 / 2 ^ k"
    using scale_cancel [OF k, of 1] by (simp add: field_simps)
  ultimately show ?thesis by (simp add: fl_def flip: times_divide_eq_right) simp
qed

text \<open>The relative error of rounding a normal (not subnormal) number.\<close>

lemma fl_error: "1 / 2 ^ 1022 \<le> x \<Longrightarrow> \<bar>fl x - x\<bar> \<le> x / 2 ^ 53"
proof -
  assume x: "1 / 2 ^ 1022 \<le> x"
  let ?y = "x * scale"
  let ?e = "excess ?y"
  have x0: "0 < x" using x by (rule less_le_trans [rotated]) simp
  have "(2 :: rat) ^ 52 = 1 * 2 ^ (1074 - 1022)" by simp
  also have "\<dots> = 1 * scale / 2 ^ 1022" by (rule scale_cancel [symmetric]) simp
  also have "\<dots> = 1 / 2 ^ 1022 * scale" by (simp only: times_divide_eq_left)
  also have "\<dots> \<le> ?y" using x by (rule mult_right_mono) simp
  finally have "2 ^ 52 \<le> ?y" .
  then have lo: "2 ^ (52 + ?e) \<le> ?y" using excess_ge [of ?y] by (cases "?e = 0") auto
  have r: "\<bar>of_int (rhe (?y / 2 ^ ?e)) - ?y / 2 ^ ?e\<bar> \<le> 1 / 2"
    using rhe_bounds [of "?y / 2 ^ ?e"] by linarith
  have "fl_units ?y - ?y = (of_int (rhe (?y / 2 ^ ?e)) - ?y / 2 ^ ?e) * 2 ^ ?e"
    by (simp add: fl_units_def left_diff_distrib)
  then have "\<bar>fl_units ?y - ?y\<bar> = \<bar>of_int (rhe (?y / 2 ^ ?e)) - ?y / 2 ^ ?e\<bar> * 2 ^ ?e"
    by (simp add: abs_mult)
  also have "\<dots> \<le> 1 / 2 * 2 ^ ?e" using r by (intro mult_right_mono) simp_all
  also have "\<dots> = 2 ^ (52 + ?e) / 2 ^ 53" by (simp add: power_add)
  also have "\<dots> \<le> ?y / 2 ^ 53" using lo by (intro divide_right_mono) simp_all
  finally have u: "\<bar>fl_units ?y - ?y\<bar> \<le> ?y / 2 ^ 53" .
  have "fl x - x = (fl_units ?y - ?y) / scale"
    using x0 by (simp add: fl_def diff_divide_distrib)
  then have "\<bar>fl x - x\<bar> = \<bar>fl_units ?y - ?y\<bar> / scale" by (simp add: abs_divide)
  also have "\<dots> \<le> ?y / 2 ^ 53 / scale" using u by (intro divide_right_mono) simp_all
  finally show ?thesis by simp
qed

section \<open>The operations the sources use\<close>

text \<open>
  \<open>a - b\<close>, \<open>a * b\<close> and \<open>a / b\<close> on numbers; \<open>Math.floor\<close>, \<open>Math.round\<close> (ties towards
  plus infinity), \<open>Math.max\<close> and \<open>Math.min\<close> are exact. \<open>Number(n)\<close> of a bigint rounds;
  \<open>BigInt(x)\<close> throws a \<open>RangeError\<close> unless \<open>x\<close> is an integer.
\<close>

definition js_sub :: "number \<Rightarrow> number \<Rightarrow> number" where
  "js_sub a b = fl (a - b)"

definition js_add :: "number \<Rightarrow> number \<Rightarrow> number" where
  "js_add a b = fl (a + b)"

definition js_mul :: "number \<Rightarrow> number \<Rightarrow> number" where
  "js_mul a b = fl (a * b)"

definition js_div :: "number \<Rightarrow> number \<Rightarrow> number" where
  "js_div a b = fl (a / b)"

definition math_floor :: "number \<Rightarrow> number" where
  "math_floor x = of_int \<lfloor>x\<rfloor>"

definition math_round :: "number \<Rightarrow> number" where
  "math_round x = of_int \<lfloor>x + 1 / 2\<rfloor>"

definition Number_bigint :: "int \<Rightarrow> number" where
  "Number_bigint n = fl (of_int n)"

definition BigInt :: "number \<Rightarrow> int option" where
  "BigInt x = (if of_int \<lfloor>x\<rfloor> = x then Some \<lfloor>x\<rfloor> else None)"

text \<open>
  \<open>new Date(x)\<close>: the time value is truncated to an integer and valid up to 8.64e15
  milliseconds from the epoch; sending an invalid date to the database throws a \<open>RangeError\<close>.
\<close>

definition new_Date :: "number \<Rightarrow> int option" where
  "new_Date x = (if \<bar>x\<bar> \<le> 8640000000000000 then Some (if x < 0 then - \<lfloor>- x\<rfloor> else \<lfloor>x\<rfloor>) else None)"

lemma new_Date_of_int [simp]:
  "\<bar>n\<bar> \<le> 8640000000000000 \<Longrightarrow> new_Date (of_int n) = Some n"
proof -
  assume "\<bar>n\<bar> \<le> 8640000000000000"
  then have "\<bar>of_int n :: rat\<bar> \<le> 8640000000000000"
    by (metis of_int_abs of_int_le_iff of_int_numeral)
  then show ?thesis by (simp add: new_Date_def flip: of_int_minus)
qed

lemma js_sub_nonneg: "b \<le> a \<Longrightarrow> 0 \<le> js_sub a b"
  by (simp add: js_sub_def fl_nonneg)

lemma js_sub_nonpos: "a \<le> b \<Longrightarrow> js_sub a b \<le> 0"
  using fl_mono [of "a - b" 0] by (simp add: js_sub_def)

lemma js_sub_Ints [intro]: "a \<in> \<int> \<Longrightarrow> b \<in> \<int> \<Longrightarrow> js_sub a b \<in> \<int>"
  by (simp add: js_sub_def fl_Ints)

lemma js_sub_mono: "a \<le> a' \<Longrightarrow> b' \<le> b \<Longrightarrow> js_sub a b \<le> js_sub a' b'"
  unfolding js_sub_def by (rule fl_mono) simp

lemma fl_Ints_exact: "x \<in> \<int> \<Longrightarrow> \<bar>x\<bar> \<le> 2 ^ 53 \<Longrightarrow> fl x = x"
proof -
  assume "x \<in> \<int>" and le: "\<bar>x\<bar> \<le> 2 ^ 53"
  then obtain n where n: "x = of_int n" by (auto elim: Ints_cases)
  have "(of_int \<bar>n\<bar> :: rat) \<le> of_int (2 ^ 53)" using le by (simp add: n)
  then have "\<bar>n\<bar> \<le> 2 ^ 53" by (simp only: of_int_le_iff)
  then show ?thesis unfolding n by (rule fl_of_int)
qed

lemma js_sub_Ints_exact: "a \<in> \<int> \<Longrightarrow> b \<in> \<int> \<Longrightarrow> \<bar>a - b\<bar> \<le> 2 ^ 53 \<Longrightarrow> js_sub a b = a - b"
  unfolding js_sub_def by (intro fl_Ints_exact Ints_diff)

lemma js_sub_exact: "\<bar>m - n\<bar> \<le> 2 ^ 53 \<Longrightarrow> js_sub (of_int m) (of_int n) = of_int (m - n)"
  unfolding js_sub_def by (subst fl_of_int [symmetric]) simp_all

lemma Number_bigint_Ints [simp, intro]: "Number_bigint n \<in> \<int>"
  by (simp add: Number_bigint_def fl_Ints)

lemma Number_bigint_nonneg [simp]: "0 \<le> n \<Longrightarrow> 0 \<le> Number_bigint n"
  by (simp add: Number_bigint_def fl_nonneg)

lemma Number_bigint_exact [simp]: "\<bar>n\<bar> \<le> 2 ^ 53 \<Longrightarrow> Number_bigint n = of_int n"
  by (simp add: Number_bigint_def)

lemma Number_bigint_mono: "m \<le> n \<Longrightarrow> Number_bigint m \<le> Number_bigint n"
  by (simp add: Number_bigint_def fl_mono)

lemma Number_bigint_le_pow2: "n \<le> 2 ^ t \<Longrightarrow> Number_bigint n \<le> 2 ^ t"
proof -
  assume "n \<le> 2 ^ t"
  then have "(of_int n :: rat) \<le> 2 ^ t" by (metis of_int_le_iff of_int_numeral of_int_power)
  then show ?thesis unfolding Number_bigint_def using fl_mono fl_pow2 by metis
qed

lemma BigInt_of_int [simp]: "BigInt (of_int n) = Some n"
  by (simp add: BigInt_def)

lemma BigInt_Ints: "x \<in> \<int> \<Longrightarrow> BigInt x = Some \<lfloor>x\<rfloor>"
  by (auto elim: Ints_cases)

lemma math_floor_Ints [simp, intro]: "math_floor x \<in> \<int>"
  by (simp add: math_floor_def)

lemma math_floor_nonneg: "0 \<le> x \<Longrightarrow> 0 \<le> math_floor x"
  by (simp add: math_floor_def)

lemmas [js_simps] = js_add_def js_sub_def js_mul_def js_div_def math_floor_def math_round_def BigInt_def

end
