(* ===== verification/Js_String.thy ===== *)
theory Js_String
  imports Js_Number
begin

text \<open>
  The string operations the sources use. A \<open>string\<close> is a list of \<open>char\<close>, and a \<open>char\<close> stands
  for the UTF-16 code unit of the same number, so the model covers the strings over
  \<open>U+0000\<close> to \<open>U+00FF\<close>. \<open>js_Number\<close> is the conversion \<open>Number(text)\<close>: it accepts what
  ECMAScript's StringToNumber accepts, including signs, exponents, hexadecimal, octal and binary
  literals, \<open>Infinity\<close> and surrounding white space, and rounds the value to a double.
\<close>

section \<open>Characters\<close>

definition in_range :: "nat \<Rightarrow> nat \<Rightarrow> char \<Rightarrow> bool" where
  "in_range lo hi c \<longleftrightarrow> lo \<le> of_char c \<and> of_char c \<le> hi"

definition is_digit :: "char \<Rightarrow> bool" where
  "is_digit = in_range 48 57"

definition is_lower :: "char \<Rightarrow> bool" where
  "is_lower = in_range 97 122"

definition is_upper :: "char \<Rightarrow> bool" where
  "is_upper = in_range 65 90"

text \<open>\<open>[0-9a-f]\<close> with the \<open>i\<close> flag.\<close>

definition is_hex :: "char \<Rightarrow> bool" where
  "is_hex c \<longleftrightarrow> is_digit c \<or> in_range 97 102 c \<or> in_range 65 70 c"

section \<open>Changing case\<close>

text \<open>
  \<open>toUpperCase\<close> maps a code unit to a string: the sharp s (223) becomes \<open>SS\<close>. The two
  letters whose upper case lies beyond \<open>U+00FF\<close> (181 and 255) are left as they are.
\<close>

definition upper_char :: "char \<Rightarrow> string" where
  "upper_char c =
     (let n = (of_char c :: nat) in
      if is_lower c then [char_of (n - 32)]
      else if n = 223 then ''SS''
      else if 224 \<le> n \<and> n \<le> 254 \<and> n \<noteq> 247 then [char_of (n - 32)]
      else [c])"

definition toUpperCase :: "string \<Rightarrow> string" where
  "toUpperCase s = concat (map upper_char s)"

definition lower_char :: "char \<Rightarrow> char" where
  "lower_char c =
     (let n = (of_char c :: nat) in
      if is_upper c \<or> 192 \<le> n \<and> n \<le> 222 \<and> n \<noteq> 215 then char_of (n + 32) else c)"

definition toLowerCase :: "string \<Rightarrow> string" where
  "toLowerCase s = map lower_char s"

section \<open>Prefixes and splitting\<close>

fun startsWith :: "string \<Rightarrow> string \<Rightarrow> bool" where
  "startsWith s [] = True"
| "startsWith [] (p # ps) = False"
| "startsWith (c # s) (p # ps) = (c = p \<and> startsWith s ps)"

text \<open>\<open>s.split(sep)\<close> for a one-character separator: never empty.\<close>

fun split_on :: "char \<Rightarrow> string \<Rightarrow> string list" where
  "split_on sep [] = [[]]"
| "split_on sep (c # s) =
     (if c = sep then [] # split_on sep s
      else case split_on sep s of [] \<Rightarrow> [[c]] | p # ps \<Rightarrow> (c # p) # ps)"

lemma startsWith_append: "startsWith s p \<longleftrightarrow> (\<exists>r. s = p @ r)"
  by (induction s p rule: startsWith.induct) auto

lemma startsWith_refl [simp]: "startsWith (p @ r) p"
  by (auto simp: startsWith_append)

lemma split_on_nonempty [simp]: "split_on sep s \<noteq> []"
  by (induction s) (auto split: list.splits)

lemma split_on_no_sep: "sep \<notin> set s \<Longrightarrow> split_on sep s = [s]"
  by (induction s) auto

lemma split_on_append: "sep \<notin> set a \<Longrightarrow> split_on sep (a @ sep # r) = a # split_on sep r"
  by (induction a) auto

lemma split_on_parts: "p \<in> set (split_on sep s) \<Longrightarrow> sep \<notin> set p"
  by (induction s arbitrary: p) (auto split: if_splits list.splits)

text \<open>Joining with the separator: the inverse of splitting.\<close>

fun join_with :: "char \<Rightarrow> string list \<Rightarrow> string" where
  "join_with sep [] = []"
| "join_with sep [p] = p"
| "join_with sep (p # q # ps) = p @ sep # join_with sep (q # ps)"

lemma join_with_Cons: "ps \<noteq> [] \<Longrightarrow> join_with sep (p # ps) = p @ sep # join_with sep ps"
  by (cases ps) auto

lemma join_split: "join_with sep (split_on sep s) = s"
proof (induction s)
  case (Cons c s)
  obtain q qs where q: "split_on sep s = q # qs"
    using split_on_nonempty [of sep s] by (meson neq_Nil_conv)
  with Cons show ?case by (cases qs) auto
qed simp

section \<open>Numbers from text\<close>

datatype js_num = NaN | Infinite | Finite number

definition is_space :: "char \<Rightarrow> bool" where
  "is_space c \<longleftrightarrow> in_range 9 13 c \<or> in_range 32 32 c \<or> in_range 160 160 c"

definition trim :: "string \<Rightarrow> string" where
  "trim s = rev (dropWhile is_space (rev (dropWhile is_space s)))"

definition digit_value :: "char \<Rightarrow> nat" where
  "digit_value c =
     (if is_digit c then of_char c - 48
      else if is_lower c then of_char c - 87 else of_char c - 55)"

fun digits_value :: "nat \<Rightarrow> nat \<Rightarrow> string \<Rightarrow> nat" where
  "digits_value base acc [] = acc"
| "digits_value base acc (c # s) = digits_value base (base * acc + digit_value c) s"

text \<open>An exact value becomes a double, or infinity from \<open>2\<^sup>1\<^sup>0\<^sup>2\<^sup>4 - 2\<^sup>9\<^sup>7\<^sup>0\<close> on.\<close>

definition to_double :: "rat \<Rightarrow> js_num" where
  "to_double x = (if \<bar>x\<bar> \<ge> 2 ^ 1024 - 2 ^ 970 then Infinite else Finite (fl x))"

definition scaled :: "nat \<Rightarrow> int \<Rightarrow> rat" where
  "scaled m e = (if 0 \<le> e then of_nat m * 10 ^ nat e else of_nat m / 10 ^ nat (- e))"

text \<open>The optional exponent part and nothing after it.\<close>

definition exponent_part :: "string \<Rightarrow> int option" where
  "exponent_part s =
     (case s of
        [] \<Rightarrow> Some 0
      | c # r \<Rightarrow>
          if c \<noteq> CHR ''e'' \<and> c \<noteq> CHR ''E'' then None
          else (let (neg, ds) = (case r of
                     d # r' \<Rightarrow> if d = CHR ''-'' then (True, r')
                               else if d = CHR ''+'' then (False, r') else (False, r)
                   | [] \<Rightarrow> (False, []))
                in if ds \<noteq> [] \<and> list_all is_digit ds
                   then Some ((if neg then - 1 else 1) * int (digits_value 10 0 ds))
                   else None))"

definition unsigned_decimal :: "string \<Rightarrow> rat option" where
  "unsigned_decimal s =
     (let ip = takeWhile is_digit s; r = dropWhile is_digit s;
          (fp, r') = (case r of
              c # q \<Rightarrow> if c = CHR ''.'' then (takeWhile is_digit q, dropWhile is_digit q) else ([], r)
            | [] \<Rightarrow> ([], r))
      in if ip = [] \<and> fp = [] then None
         else map_option (\<lambda>e. scaled (digits_value 10 0 (ip @ fp)) (e - int (length fp)))
                (exponent_part r'))"

definition decimal_literal :: "string \<Rightarrow> js_num" where
  "decimal_literal s =
     (let (neg, r) = (case s of
            c # q \<Rightarrow> if c = CHR ''-'' then (True, q) else if c = CHR ''+'' then (False, q) else (False, s)
          | [] \<Rightarrow> (False, s))
      in if r = ''Infinity'' then Infinite
         else case unsigned_decimal r of
                None \<Rightarrow> NaN
              | Some x \<Rightarrow> to_double (if neg then - x else x))"

definition radix_literal :: "nat \<Rightarrow> string \<Rightarrow> js_num" where
  "radix_literal base ds =
     (if ds \<noteq> [] \<and> list_all (\<lambda>c. (is_hex c) \<and> digit_value c < base) ds
      then to_double (of_nat (digits_value base 0 ds)) else NaN)"

definition js_Number :: "string \<Rightarrow> js_num" where
  "js_Number text =
     (let s = trim text in
      case s of
        [] \<Rightarrow> Finite 0
      | [c] \<Rightarrow> decimal_literal s
      | c # d # ds \<Rightarrow>
          if c = CHR ''0'' \<and> d \<in> {CHR ''x'', CHR ''X''} then radix_literal 16 ds
          else if c = CHR ''0'' \<and> d \<in> {CHR ''o'', CHR ''O''} then radix_literal 8 ds
          else if c = CHR ''0'' \<and> d \<in> {CHR ''b'', CHR ''B''} then radix_literal 2 ds
          else decimal_literal s)"

text \<open>A plain run of decimal digits is the number it spells, up to rounding.\<close>

lemma takeWhile_all: "list_all P s \<Longrightarrow> takeWhile P s = s \<and> dropWhile P s = []"
  by (induction s) auto

lemma unsigned_decimal_digits:
  "s \<noteq> [] \<Longrightarrow> list_all is_digit s \<Longrightarrow> unsigned_decimal s = Some (of_nat (digits_value 10 0 s))"
proof -
  assume "s \<noteq> []" and "list_all is_digit s"
  moreover from this have "takeWhile is_digit s = s" and "dropWhile is_digit s = []"
    using takeWhile_all by blast+
  ultimately show ?thesis
    unfolding unsigned_decimal_def by (simp only: Let_def) (simp add: exponent_part_def scaled_def)
qed

lemma digit_not_special:
  "is_digit c \<Longrightarrow> \<not> is_space c \<and> c \<noteq> CHR ''-'' \<and> c \<noteq> CHR ''+''
     \<and> c \<notin> {CHR ''x'', CHR ''X'', CHR ''o'', CHR ''O'', CHR ''b'', CHR ''B''} \<and> c \<noteq> CHR ''I''"
  by (auto simp: is_digit_def is_space_def in_range_def)

lemma trim_digits: "list_all is_digit s \<Longrightarrow> trim s = s"
proof -
  assume d: "list_all is_digit s"
  have drop: "dropWhile is_space r = r" if "\<forall>c \<in> set r. is_digit c" for r
    using that digit_not_special by (cases r) auto
  show ?thesis using d by (simp add: trim_def drop list_all_iff)
qed

lemma js_Number_digits:
  assumes "s \<noteq> []" and "list_all is_digit s" and "digits_value 10 0 s < 2 ^ 53"
  shows "js_Number s = Finite (of_nat (digits_value 10 0 s))"
proof -
  let ?n = "digits_value 10 0 s"
  obtain c r where s: "s = c # r" using assms(1) by (cases s) auto
  note c = digit_not_special [of c]
  have "fl (of_int (int ?n)) = of_int (int ?n)" using assms(3) by (intro fl_of_int) simp
  moreover have "\<not> (2 ^ 1024 - 2 ^ 970 \<le> \<bar>of_nat ?n :: rat\<bar>)"
  proof -
    have "(of_nat ?n :: rat) < of_nat (2 ^ 53)" using assms(3) by (simp only: of_nat_less_iff)
    also have "\<dots> < 2 ^ 1024 - 2 ^ 970" by simp
    finally show ?thesis by simp
  qed
  ultimately have "to_double (of_nat ?n) = Finite (of_nat ?n)" by (simp add: to_double_def)
  moreover have "s \<noteq> ''Infinity''" using assms(2) by (auto simp: is_digit_def in_range_def)
  ultimately have "decimal_literal s = Finite (of_nat ?n)"
    using unsigned_decimal_digits [OF assms(1,2)] assms(2) c s by (simp add: decimal_literal_def)
  then show ?thesis
    using assms(2) digit_not_special trim_digits [OF assms(2)]
    by (cases r) (auto simp: js_Number_def Let_def s)
qed

text \<open>A blank text is the number zero.\<close>

lemma js_Number_blank: "list_all is_space s \<Longrightarrow> js_Number s = Finite 0"
proof -
  assume "list_all is_space s"
  then have drop: "dropWhile is_space s = []" using takeWhile_all by blast
  have "trim s = []" unfolding trim_def drop by simp
  then show ?thesis by (simp add: js_Number_def)
qed

end
