(* ===== verification/Database.thy ===== *)
theory Database
  imports Js_String
begin

text \<open>
  The database package: \<open>packages/db/src/schema/fleet.ts\<close>, the \<open>organization\<close> table of
  \<open>schema/auth.ts\<close>, \<open>packages/db/src/client.ts\<close> and the row-level security policies of
  \<open>migrations/0001_roles_and_rls.sql\<close>. A table is the list of its rows in scan order; the
  statements the program issues are functions on such lists. A statement runs on one of two
  connections: the owner's, which sees every row, or the application's, which sees and writes
  only rows of the organization \<open>withOrg\<close> has set. Constraint names and SQLSTATE codes are the
  ones of the schema; a statement that raises leaves the table as it was.
\<close>

section \<open>The schema\<close>

type_synonym uuid = string
type_synonym bytes = "8 word list"
type_synonym millis = int          \<comment> \<open>milliseconds since the epoch, as in \<open>Date\<close>\<close>

record organization_row =
  o_id :: string
  o_name :: string
  o_slug :: string
  o_logo :: "string option"
  o_createdAt :: millis
  o_metadata :: "string option"

record node_row =
  n_id :: uuid
  n_orgId :: string
  n_name :: string
  n_status :: string
  n_platform :: string
  n_arch :: string
  n_osVersion :: string
  n_agentVersion :: string
  n_hostname :: string
  n_totalMemoryBytes :: int
  n_cpuCores :: int
  n_publicKey :: bytes
  n_siteId :: "string option"
  n_lastSeenAt :: "millis option"
  n_createdAt :: millis

text \<open>\<open>last_utilization\<close> is carried as the bit pattern of its double: no code computes with it.\<close>

record device_row =
  d_id :: uuid
  d_orgId :: string
  d_nodeId :: uuid
  d_localId :: string
  d_kind :: string
  d_index :: int
  d_name :: string
  d_totalBytes :: int
  d_wiredLimitBytes :: int
  d_driverVersion :: string
  d_computeCapability :: string
  d_interactive :: bool
  d_lastUsedBytes :: int
  d_lastManagedBytes :: int
  d_lastUtilization :: "64 word"
  d_lastPressure :: string
  d_lastSampleAt :: "millis option"
  d_createdAt :: millis

record pairing_row =
  p_id :: uuid
  p_orgId :: string
  p_codeHash :: string
  p_nodeName :: string
  p_createdBy :: string
  p_expiresAt :: millis
  p_usedAt :: "millis option"
  p_usedByNodeId :: "uuid option"
  p_createdAt :: millis

record db =
  t_organization :: "organization_row list"
  t_nodes :: "node_row list"
  t_devices :: "device_row list"
  t_pairing :: "pairing_row list"

section \<open>Identifiers\<close>

text \<open>
  \<open>UUID_RE\<close>: five groups of 8, 4, 4, 4 and 12 hexadecimal digits, either case. A \<open>uuid\<close>
  column holds the lower-case spelling; an argument compared with it is first read as a uuid,
  which raises 22P02 for text that is not one.
\<close>

definition uuid_groups :: "bool list" where
  "uuid_groups = replicate 8 True @ [False] @ replicate 4 True @ [False] @ replicate 4 True
     @ [False] @ replicate 4 True @ [False] @ replicate 12 True"

definition isUuid :: "string \<Rightarrow> bool" where
  "isUuid value = list_all2 (\<lambda>hex c. if hex then is_hex c else c = CHR ''-'') uuid_groups value"

definition uuid_in :: "string \<Rightarrow> pg_error + uuid" where
  "uuid_in s = (if isUuid s then Inr (toLowerCase s) else Inl Pg22P02)"

section \<open>Column types\<close>

definition pg_int8 :: "int \<Rightarrow> bool" where
  "pg_int8 n \<longleftrightarrow> - (2 ^ 63) \<le> n \<and> n < 2 ^ 63"

definition pg_int4 :: "int \<Rightarrow> bool" where
  "pg_int4 n \<longleftrightarrow> - (2 ^ 31) \<le> n \<and> n < 2 ^ 31"

definition pg_text :: "string \<Rightarrow> bool" where
  "pg_text s \<longleftrightarrow> CHR 0x00 \<notin> set s"

text \<open>
  A \<open>Date\<close> is sent as its ISO text. The server reads the years 1 to 9999; outside them the text
  has the year 0 or a signed year of six digits, which it refuses.
\<close>

definition pg_timestamp :: "millis \<Rightarrow> pg_error + millis" where
  "pg_timestamp t = (if -62135596800000 \<le> t \<and> t \<le> 253402300799999 then Inr t else Inl PgDatetime)"

text \<open>A double is sent as its decimal text, which keeps neither the sign of a zero nor the payload of a NaN.\<close>

definition pg_double :: "64 word \<Rightarrow> 64 word" where
  "pg_double w =
     (if w = 0x8000000000000000 then 0
      else if (drop_bit 52 w) mod 2048 = 2047 \<and> w mod 0x10000000000000 \<noteq> 0 then 0x7FF8000000000000
      else w)"

text \<open>The first column value the server refuses, if any.\<close>

definition check_columns :: "string list \<Rightarrow> int list \<Rightarrow> int list \<Rightarrow> pg_error + unit" where
  "check_columns texts int8s int4s =
     (if \<not> list_all pg_text texts then Inl Pg22021
      else if \<not> list_all pg_int8 int8s \<or> \<not> list_all pg_int4 int4s then Inl Pg22003
      else Inr ())"

section \<open>Connections and row-level security\<close>

text \<open>
  \<open>ownerDb\<close> connects as the table owner and bypasses the policies. \<open>db\<close> connects as
  \<open>modelhub_app\<close>; the policy of each table compares \<open>org_id\<close> with the setting
  \<open>app.current_org_id\<close>, both for the rows a statement sees and for the rows it writes.
\<close>

datatype conn = OwnerConn | AppConn "string option"

definition org_isolation :: "conn \<Rightarrow> string \<Rightarrow> bool" where
  "org_isolation c org =
     (case c of OwnerConn \<Rightarrow> True
      | AppConn setting \<Rightarrow> (case setting of None \<Rightarrow> False | Some cur \<Rightarrow> org = cur))"

definition sql_select :: "conn \<Rightarrow> ('r \<Rightarrow> string) \<Rightarrow> ('r \<Rightarrow> bool) \<Rightarrow> 'r list \<Rightarrow> 'r list" where
  "sql_select c org P t = filter (\<lambda>r. org_isolation c (org r) \<and> P r) t"

text \<open>\<open>update ... set ... where ... returning\<close>: the table after it and the updated rows.\<close>

definition sql_update :: "conn \<Rightarrow> ('r \<Rightarrow> string) \<Rightarrow> ('r \<Rightarrow> bool) \<Rightarrow> ('r \<Rightarrow> 'r) \<Rightarrow> 'r list
    \<Rightarrow> pg_error + 'r list \<times> 'r list" where
  "sql_update c org P f t =
     (let hit = (\<lambda>r. org_isolation c (org r) \<and> P r) in
      if list_all (\<lambda>r. hit r \<longrightarrow> org_isolation c (org (f r))) t
      then Inr (map (\<lambda>r. if hit r then f r else r) t, map f (filter hit t))
      else Inl Pg42501)"

definition sql_delete :: "conn \<Rightarrow> ('r \<Rightarrow> string) \<Rightarrow> ('r \<Rightarrow> bool) \<Rightarrow> 'r list
    \<Rightarrow> pg_error + 'r list \<times> unit" where
  "sql_delete c org P t = Inr (filter (\<lambda>r. \<not> (org_isolation c (org r) \<and> P r)) t, ())"

text \<open>A statement on one table of the database, as an operation.\<close>

definition on_table :: "(db \<Rightarrow> 'r list) \<Rightarrow> ('r list \<Rightarrow> db \<Rightarrow> db)
    \<Rightarrow> ('r list \<Rightarrow> pg_error + 'r list \<times> 'a) \<Rightarrow> (db, error, 'a) op" where
  "on_table get put st =
     (\<lambda>s. case st (get s) of
            Inl e \<Rightarrow> (Inl (PgError e), s)
          | Inr (t, x) \<Rightarrow> (Inr x, put t s))"

abbreviation on_nodes :: "(node_row list \<Rightarrow> pg_error + node_row list \<times> 'a) \<Rightarrow> (db, error, 'a) op" where
  "on_nodes \<equiv> on_table t_nodes (\<lambda>t s. s\<lparr>t_nodes := t\<rparr>)"

abbreviation on_devices :: "(device_row list \<Rightarrow> pg_error + device_row list \<times> 'a) \<Rightarrow> (db, error, 'a) op" where
  "on_devices \<equiv> on_table t_devices (\<lambda>t s. s\<lparr>t_devices := t\<rparr>)"

abbreviation on_pairing :: "(pairing_row list \<Rightarrow> pg_error + pairing_row list \<times> 'a) \<Rightarrow> (db, error, 'a) op" where
  "on_pairing \<equiv> on_table t_pairing (\<lambda>t s. s\<lparr>t_pairing := t\<rparr>)"

text \<open>A check that precedes a statement: reading the arguments as column values.\<close>

definition pg_check :: "pg_error + 'a \<Rightarrow> ('s, error, 'a) op" where
  "pg_check r = (case r of Inl e \<Rightarrow> op_throw (PgError e) | Inr x \<Rightarrow> op_return x)"

section \<open>Inserting rows\<close>

definition insert_node :: "conn \<Rightarrow> node_row \<Rightarrow> (db, error, node_row) op" where
  "insert_node c row =
     (\<lambda>s. if \<not> org_isolation c (n_orgId row) then (Inl (PgError Pg42501), s)
          else if n_id row \<in> set (map n_id (t_nodes s)) then (Inl (PgError (Pg23505 ''nodes_pkey'')), s)
          else if n_publicKey row \<in> set (map n_publicKey (t_nodes s))
            then (Inl (PgError (Pg23505 ''nodes_public_key_idx'')), s)
          else if n_orgId row \<notin> set (map o_id (t_organization s))
            then (Inl (PgError (Pg23503 ''nodes_org_id_organization_id_fk'')), s)
          else (Inr row, s\<lparr>t_nodes := t_nodes s @ [row]\<rparr>))"

definition insert_pairing_code :: "conn \<Rightarrow> pairing_row \<Rightarrow> (db, error, unit) op" where
  "insert_pairing_code c row =
     (\<lambda>s. if \<not> org_isolation c (p_orgId row) then (Inl (PgError Pg42501), s)
          else if p_id row \<in> set (map p_id (t_pairing s))
            then (Inl (PgError (Pg23505 ''pairing_codes_pkey'')), s)
          else if p_codeHash row \<in> set (map p_codeHash (t_pairing s))
            then (Inl (PgError (Pg23505 ''pairing_codes_code_hash_unique'')), s)
          else if p_orgId row \<notin> set (map o_id (t_organization s))
            then (Inl (PgError (Pg23503 ''pairing_codes_org_id_organization_id_fk'')), s)
          else (Inr (), s\<lparr>t_pairing := t_pairing s @ [row]\<rparr>))"

text \<open>
  \<open>insert ... on conflict (node_id, local_id) do update set ...\<close>. The conflicting row is found
  whatever its organization, and updating one the policy hides is refused.
\<close>

definition same_device :: "device_row \<Rightarrow> device_row \<Rightarrow> bool" where
  "same_device a b \<longleftrightarrow> d_nodeId a = d_nodeId b \<and> d_localId a = d_localId b"

definition upsert_device :: "conn \<Rightarrow> device_row \<Rightarrow> (device_row \<Rightarrow> device_row) \<Rightarrow> (db, error, unit) op" where
  "upsert_device c row set_facts =
     (\<lambda>s. if \<not> org_isolation c (d_orgId row) then (Inl (PgError Pg42501), s)
          else if list_ex (same_device row) (t_devices s) then
            (if list_all (\<lambda>d. same_device row d \<longrightarrow>
                  org_isolation c (d_orgId d) \<and> org_isolation c (d_orgId (set_facts d))) (t_devices s)
             then (Inr (), s\<lparr>t_devices := map (\<lambda>d. if same_device row d then set_facts d else d) (t_devices s)\<rparr>)
             else (Inl (PgError Pg42501), s))
          else if d_id row \<in> set (map d_id (t_devices s)) then (Inl (PgError (Pg23505 ''devices_pkey'')), s)
          else if d_nodeId row \<notin> set (map n_id (t_nodes s))
            then (Inl (PgError (Pg23503 ''devices_node_id_nodes_id_fk'')), s)
          else if d_orgId row \<notin> set (map o_id (t_organization s))
            then (Inl (PgError (Pg23503 ''devices_org_id_organization_id_fk'')), s)
          else (Inr (), s\<lparr>t_devices := t_devices s @ [row]\<rparr>))"

section \<open>\<open>withOrg\<close>\<close>

text \<open>
  Opens a transaction on the application connection, sets \<open>app.current_org_id\<close> for that
  transaction only and runs the body in it. The id is always one read from a text column (a
  session's, a node's or a code's organization), so setting it does not fail.
\<close>

definition withOrg :: "string \<Rightarrow> (conn \<Rightarrow> (db, error, 'a) op) \<Rightarrow> (db, error, 'a) op" where
  "withOrg orgId fn = transaction (fn (AppConn (Some orgId)))"

end
