(* ===== verification/Integrity.thy ===== *)
theory Integrity
  imports Database
begin

text \<open>
  The integrity of the database: what the constraints of the schema and the code of \<open>domain/\<close>
  together keep true of the stored rows, and that each kind of statement the program issues
  keeps it. Identifiers, public keys, device slots and code hashes are unique; a device belongs
  to an existing node and carries that node's organization (the column is denormalized for the
  policies); texts that stand for enumerations hold one of the known names; byte counts fit the
  columns; keys have 32 bytes.
\<close>

definition node_ok :: "node_row \<Rightarrow> bool" where
  "node_ok n \<longleftrightarrow> length (n_publicKey n) = 32 \<and> n_status n \<in> {''online'', ''degraded'', ''offline''}
     \<and> 0 \<le> n_totalMemoryBytes n \<and> n_totalMemoryBytes n < 2 ^ 63 \<and> 0 \<le> n_cpuCores n \<and> n_cpuCores n < 2 ^ 31"

definition device_ok :: "device_row \<Rightarrow> bool" where
  "device_ok d \<longleftrightarrow> d_kind d \<in> {''cpu'', ''cuda'', ''metal''}
     \<and> d_lastPressure d \<in> {''normal'', ''warn'', ''critical''}
     \<and> (\<forall>b \<in> {d_totalBytes d, d_wiredLimitBytes d, d_lastUsedBytes d, d_lastManagedBytes d}.
          0 \<le> b \<and> b < 2 ^ 63)"

abbreviation slot :: "device_row \<Rightarrow> uuid \<times> string" where
  "slot d \<equiv> (d_nodeId d, d_localId d)"

definition wf_nodes :: "db \<Rightarrow> bool" where
  "wf_nodes s \<longleftrightarrow> distinct (map n_id (t_nodes s)) \<and> distinct (map n_publicKey (t_nodes s))
     \<and> (\<forall>n \<in> set (t_nodes s). node_ok n \<and> n_orgId n \<in> set (map o_id (t_organization s)))"

definition wf_devices :: "db \<Rightarrow> bool" where
  "wf_devices s \<longleftrightarrow> distinct (map d_id (t_devices s)) \<and> distinct (map slot (t_devices s))
     \<and> (\<forall>d \<in> set (t_devices s). device_ok d
          \<and> (\<exists>n \<in> set (t_nodes s). n_id n = d_nodeId d \<and> n_orgId n = d_orgId d))"

definition wf_pairing :: "db \<Rightarrow> bool" where
  "wf_pairing s \<longleftrightarrow> distinct (map p_id (t_pairing s)) \<and> distinct (map p_codeHash (t_pairing s))
     \<and> (\<forall>p \<in> set (t_pairing s). p_orgId p \<in> set (map o_id (t_organization s)))"

definition wf_db :: "db \<Rightarrow> bool" where
  "wf_db s \<longleftrightarrow> wf_nodes s \<and> wf_devices s \<and> wf_pairing s"

text \<open>The node of that id, if there is one, belongs to the organization.\<close>

definition owns :: "string \<Rightarrow> uuid \<Rightarrow> db \<Rightarrow> bool" where
  "owns org nid s \<longleftrightarrow> (\<forall>n \<in> set (t_nodes s). n_id n = nid \<longrightarrow> n_orgId n = org)"

section \<open>Replacing a table\<close>

lemma wf_dbD:
  assumes "wf_db s"
  shows "distinct (map n_id (t_nodes s))" "distinct (map n_publicKey (t_nodes s))"
    "distinct (map d_id (t_devices s))" "distinct (map slot (t_devices s))"
    "distinct (map p_id (t_pairing s))" "distinct (map p_codeHash (t_pairing s))"
    "n \<in> set (t_nodes s) \<Longrightarrow> node_ok n \<and> n_orgId n \<in> set (map o_id (t_organization s))"
    "d \<in> set (t_devices s) \<Longrightarrow> device_ok d \<and> (\<exists>n \<in> set (t_nodes s). n_id n = d_nodeId d \<and> n_orgId n = d_orgId d)"
    "p \<in> set (t_pairing s) \<Longrightarrow> p_orgId p \<in> set (map o_id (t_organization s))"
  using assms by (simp_all add: wf_db_def wf_nodes_def wf_devices_def wf_pairing_def)

lemma wf_set_nodes:
  assumes "wf_db s" and "distinct (map n_id t)" and "distinct (map n_publicKey t)"
    and "\<And>n. n \<in> set t \<Longrightarrow> node_ok n \<and> n_orgId n \<in> set (map o_id (t_organization s))"
    and "\<And>n. n \<in> set (t_nodes s) \<Longrightarrow> \<exists>m \<in> set t. n_id m = n_id n \<and> n_orgId m = n_orgId n"
  shows "wf_db (s\<lparr>t_nodes := t\<rparr>)"
proof -
  have "\<exists>m \<in> set t. n_id m = d_nodeId d \<and> n_orgId m = d_orgId d" if d: "d \<in> set (t_devices s)" for d
  proof -
    obtain n where "n \<in> set (t_nodes s)" "n_id n = d_nodeId d" "n_orgId n = d_orgId d"
      using wf_dbD(8) [OF assms(1) d] by blast
    then show ?thesis using assms(5) by metis
  qed
  then show ?thesis using assms(1-4) by (simp add: wf_db_def wf_nodes_def wf_devices_def wf_pairing_def)
qed

lemma wf_set_devices:
  assumes "wf_db s" and "distinct (map d_id t)" and "distinct (map slot t)"
    and "\<And>d. d \<in> set t \<Longrightarrow> device_ok d \<and> (\<exists>n \<in> set (t_nodes s). n_id n = d_nodeId d \<and> n_orgId n = d_orgId d)"
  shows "wf_db (s\<lparr>t_devices := t\<rparr>)"
  using assms by (simp add: wf_db_def wf_nodes_def wf_devices_def wf_pairing_def)

lemma wf_set_pairing:
  assumes "wf_db s" and "distinct (map p_id t)" and "distinct (map p_codeHash t)"
    and "\<And>p. p \<in> set t \<Longrightarrow> p_orgId p \<in> set (map o_id (t_organization s))"
  shows "wf_db (s\<lparr>t_pairing := t\<rparr>)"
  using assms by (simp add: wf_db_def wf_nodes_def wf_devices_def wf_pairing_def)

section \<open>Updating rows in place\<close>

lemma keeps_on_table:
  "(\<And>s t x. I s \<Longrightarrow> st (get s) = Inr (t, x) \<Longrightarrow> I (put t s)) \<Longrightarrow> keeps I (on_table get put st)"
  by (auto simp: keeps_def on_table_def split: sum.split)

lemma sql_update_rows:
  "sql_update c org P f t = Inr (t', rs) \<Longrightarrow>
     t' = map (\<lambda>r. if org_isolation c (org r) \<and> P r then f r else r) t
     \<and> rs = map f (filter (\<lambda>r. org_isolation c (org r) \<and> P r) t)"
  by (auto simp: sql_update_def Let_def split: if_splits)

lemma wf_update_nodes [wf_intros]:
  assumes "\<And>r. n_id (f r) = n_id r \<and> n_orgId (f r) = n_orgId r \<and> n_publicKey (f r) = n_publicKey r"
    and "\<And>r. node_ok r \<Longrightarrow> node_ok (f r)"
  shows "keeps wf_db (on_nodes (sql_update c n_orgId P f))"
proof (rule keeps_on_table)
  fix s t x
  assume wf: "wf_db s" and st: "sql_update c n_orgId P f (t_nodes s) = Inr (t, x)"
  let ?g = "\<lambda>r. if org_isolation c (n_orgId r) \<and> P r then f r else r"
  have t: "t = map ?g (t_nodes s)" using sql_update_rows [OF st] by simp
  have ids: "map n_id t = map n_id (t_nodes s)" "map n_publicKey t = map n_publicKey (t_nodes s)"
    using assms(1) by (simp_all add: t)
  show "wf_db (s\<lparr>t_nodes := t\<rparr>)"
  proof (rule wf_set_nodes [OF wf], unfold ids)
    show "\<exists>m \<in> set t. n_id m = n_id n \<and> n_orgId m = n_orgId n" if "n \<in> set (t_nodes s)" for n
    proof
      show "?g n \<in> set t" unfolding t set_map using that by (rule imageI)
      show "n_id (?g n) = n_id n \<and> n_orgId (?g n) = n_orgId n" using assms(1) by simp
    qed
    show "node_ok n \<and> n_orgId n \<in> set (map o_id (t_organization s))" if "n \<in> set t" for n
      using that assms wf_dbD(7) [OF wf] by (auto simp: t)
  qed (use wf_dbD [OF wf] in simp_all)
qed

lemma wf_update_devices [wf_intros]:
  assumes "\<And>r. d_id (f r) = d_id r \<and> d_orgId (f r) = d_orgId r \<and> slot (f r) = slot r"
    and "\<And>r. device_ok r \<Longrightarrow> device_ok (f r)"
  shows "keeps wf_db (on_devices (sql_update c d_orgId P f))"
proof (rule keeps_on_table)
  fix s t x
  assume wf: "wf_db s" and st: "sql_update c d_orgId P f (t_devices s) = Inr (t, x)"
  let ?g = "\<lambda>r. if org_isolation c (d_orgId r) \<and> P r then f r else r"
  have t: "t = map ?g (t_devices s)" using sql_update_rows [OF st] by simp
  have ids: "map d_id t = map d_id (t_devices s)" "map slot t = map slot (t_devices s)"
    using assms(1) by (simp_all add: t)
  show "wf_db (s\<lparr>t_devices := t\<rparr>)"
  proof (rule wf_set_devices [OF wf], unfold ids)
    show "device_ok d \<and> (\<exists>n \<in> set (t_nodes s). n_id n = d_nodeId d \<and> n_orgId n = d_orgId d)"
      if "d \<in> set t" for d
      using that assms wf_dbD(8) [OF wf] by (auto simp: t)
  qed (use wf_dbD [OF wf] in simp_all)
qed

lemma wf_update_pairing [wf_intros]:
  assumes "\<And>r. p_id (f r) = p_id r \<and> p_orgId (f r) = p_orgId r \<and> p_codeHash (f r) = p_codeHash r"
  shows "keeps wf_db (on_pairing (sql_update c p_orgId P f))"
proof (rule keeps_on_table)
  fix s t x
  assume wf: "wf_db s" and st: "sql_update c p_orgId P f (t_pairing s) = Inr (t, x)"
  let ?g = "\<lambda>r. if org_isolation c (p_orgId r) \<and> P r then f r else r"
  have t: "t = map ?g (t_pairing s)" using sql_update_rows [OF st] by simp
  have ids: "map p_id t = map p_id (t_pairing s)" "map p_codeHash t = map p_codeHash (t_pairing s)"
    using assms(1) by (simp_all add: t)
  show "wf_db (s\<lparr>t_pairing := t\<rparr>)"
  proof (rule wf_set_pairing [OF wf], unfold ids)
    show "p_orgId p \<in> set (map o_id (t_organization s))" if "p \<in> set t" for p
      using that assms wf_dbD(9) [OF wf] by (auto simp: t)
  qed (use wf_dbD [OF wf] in simp_all)
qed

section \<open>Deleting and inserting rows\<close>

lemma wf_delete_devices [wf_intros]: "keeps wf_db (on_devices (sql_delete c d_orgId P))"
  by (rule keeps_on_table)
    (auto simp: sql_delete_def wf_db_def wf_nodes_def wf_devices_def wf_pairing_def
      distinct_map_filter)

lemma wf_insert_node [wf_intros]: "node_ok row \<Longrightarrow> keeps wf_db (insert_node c row)"
  by (auto simp: keeps_def insert_node_def wf_db_def wf_nodes_def wf_devices_def wf_pairing_def)

lemma wf_insert_pairing [wf_intros]: "keeps wf_db (insert_pairing_code c row)"
  by (auto simp: keeps_def insert_pairing_code_def wf_db_def wf_nodes_def wf_devices_def wf_pairing_def)

lemma wf_upsert_device:
  assumes g: "\<And>d. d_id (g d) = d_id d \<and> d_orgId (g d) = d_orgId d \<and> slot (g d) = slot d"
    and ok: "\<And>d. device_ok d \<Longrightarrow> device_ok (g d)" and row: "device_ok row"
  shows "keeps (\<lambda>s. wf_db s \<and> owns (d_orgId row) (d_nodeId row) s) (upsert_device c row g)"
proof (rule keepsI)
  fix s r t
  assume pre: "wf_db s \<and> owns (d_orgId row) (d_nodeId row) s" and st: "upsert_device c row g s = (r, t)"
  then consider "t = s"
    | "t = s\<lparr>t_devices := map (\<lambda>d. if same_device row d then g d else d) (t_devices s)\<rparr>"
    | "t = s\<lparr>t_devices := t_devices s @ [row]\<rparr>" "\<not> list_ex (same_device row) (t_devices s)"
      "d_id row \<notin> set (map d_id (t_devices s))" "d_nodeId row \<in> set (map n_id (t_nodes s))"
    by (auto simp: upsert_device_def split: if_splits)
  then show "wf_db t \<and> owns (d_orgId row) (d_nodeId row) t"
  proof cases
    case 1
    with pre show ?thesis by simp
  next
    case 2
    let ?h = "\<lambda>d. if same_device row d then g d else d"
    have ids: "map d_id (map ?h (t_devices s)) = map d_id (t_devices s)"
      "map slot (map ?h (t_devices s)) = map slot (t_devices s)"
      using g by simp_all
    have "wf_db (s\<lparr>t_devices := map ?h (t_devices s)\<rparr>)"
    proof (rule wf_set_devices, unfold ids)
      show "device_ok d \<and> (\<exists>n \<in> set (t_nodes s). n_id n = d_nodeId d \<and> n_orgId n = d_orgId d)"
        if "d \<in> set (map ?h (t_devices s))" for d
        using that g ok wf_dbD(8) [of s] pre by auto
    qed (use pre wf_dbD [of s] in simp_all)
    then show ?thesis using pre unfolding 2 by (simp add: owns_def)
  next
    case 3
    have "slot row \<notin> set (map slot (t_devices s))"
      using 3(2) by (auto simp: list_ex_iff same_device_def)
    moreover have "\<exists>n \<in> set (t_nodes s). n_id n = d_nodeId row \<and> n_orgId n = d_orgId row"
      using 3(4) pre by (auto simp: owns_def)
    ultimately show ?thesis
      using pre 3(3) row unfolding 3(1)
      by (auto simp: wf_db_def wf_nodes_def wf_devices_def wf_pairing_def owns_def)
  qed
qed

lemmas [wf_intros] = keeps_bind keeps_for keeps_transaction keeps_return keeps_throw keeps_get keeps_lift

lemma keeps_check [simp, intro, wf_intros]: "keeps I (pg_check r)"
  by (cases r) (simp_all add: pg_check_def)

text \<open>After a check the body may rely on its outcome.\<close>

lemma keeps_check_bind: "(\<And>x. r = Inr x \<Longrightarrow> keeps I (f x)) \<Longrightarrow> keeps I (op_bind (pg_check r) f)"
  by (cases r) (auto simp: pg_check_def keeps_def op_bind_def)

lemma pg_check_success [simp]: "pg_check r s = (Inr x, t) \<longleftrightarrow> r = Inr x \<and> t = s"
  by (auto simp: pg_check_def split: sum.splits)

lemma bind_check:
  "op_bind (pg_check r) f s = (case r of Inl e \<Rightarrow> (Inl (PgError e), s) | Inr x \<Rightarrow> f x s)"
  by (cases r) (simp_all add: pg_check_def)

lemma check_columns_Inr:
  "check_columns ts ls is = Inr u \<longleftrightarrow> list_all pg_text ts \<and> list_all pg_int8 ls \<and> list_all pg_int4 is"
  by (auto simp: check_columns_def)

lemma wf_withOrg [wf_intros]: "(\<And>c. keeps I (fn c)) \<Longrightarrow> keeps I (withOrg org fn)"
  unfolding withOrg_def by (rule keeps_transaction)

text \<open>Under integrity, a lookup by a unique column finds at most that row.\<close>

lemma wf_node_unique:
  "wf_db s \<Longrightarrow> n \<in> set (t_nodes s) \<Longrightarrow> m \<in> set (t_nodes s) \<Longrightarrow> n_id n = n_id m \<Longrightarrow> n = m"
  by (auto simp: wf_db_def wf_nodes_def intro: distinct_map_inj)

lemma wf_pairing_unique:
  "wf_db s \<Longrightarrow> p \<in> set (t_pairing s) \<Longrightarrow> q \<in> set (t_pairing s) \<Longrightarrow> p_codeHash p = p_codeHash q \<Longrightarrow> p = q"
  by (auto simp: wf_db_def wf_pairing_def intro: distinct_map_inj)

end
