(* ===== verification/Node_Auth.thy ===== *)
theory Node_Auth
  imports Integrity
begin

text \<open>
  Authentication of a node's connection: \<open>apps/control-plane/src/rpc/node-auth.ts\<close>. Parsing a key
  (\<open>createPublicKey\<close>), verifying a signature (\<open>verify\<close>), decoding base64url and the Redis command
  \<open>SET key 1 PX ttl NX\<close> are parameters. The locale \<open>nonce_store\<close> states what the code relies on of
  that command: it answers \<open>OK\<close> only for a key that is not there, and a key it stored is there
  until its time to live is over. Two clocks are read: \<open>checked\<close> is \<open>Date.now()\<close> in the timestamp
  test, \<open>stored\<close> the server time at which Redis runs the command.
\<close>

section \<open>The component\<close>

definition NodeAuthError :: "string \<Rightarrow> error" where
  "NodeAuthError message = ConnectError message Unauthenticated"

definition NODE_AUTH_SCHEME :: string where
  "NODE_AUTH_SCHEME = ''ModelHubNode ''"

definition SPKI_ED25519_PREFIX :: bytes where
  "SPKI_ED25519_PREFIX = [0x30, 0x2a, 0x30, 0x05, 0x06, 0x03, 0x2b, 0x65, 0x70, 0x03, 0x21, 0x00]"

definition toKeyObject :: "(bytes \<Rightarrow> 'key option) \<Rightarrow> bytes \<Rightarrow> 'key option" where
  "toKeyObject createPublicKey raw = createPublicKey (SPKI_ED25519_PREFIX @ raw)"

text \<open>The first tests, up to the shape of the node id; \<open>None\<close> is a missing header.\<close>

definition node_header :: "string option \<Rightarrow> error + string \<times> string \<times> string \<times> string" where
  "node_header header =
     (case header of
        None \<Rightarrow> Inl (NodeAuthError ''missing node authorization header'')
      | Some h \<Rightarrow>
          if \<not> startsWith h NODE_AUTH_SCHEME
          then Inl (NodeAuthError ''missing node authorization header'')
          else (case split_on CHR ''.'' (drop (length NODE_AUTH_SCHEME) h) of
                  [nodeId, millis, nonce, signature] \<Rightarrow>
                    if nodeId = [] \<or> millis = [] \<or> nonce = [] \<or> signature = []
                    then Inl (NodeAuthError ''malformed node authorization header'')
                    else if \<not> isUuid nodeId then Inl (NodeAuthError ''malformed node id'')
                    else Inr (nodeId, millis, nonce, signature)
                | _ \<Rightarrow> Inl (NodeAuthError ''malformed node authorization header'')))"

definition signed_text :: "string \<Rightarrow> string \<Rightarrow> string \<Rightarrow> string" where
  "signed_text nodeId millis nonce = nodeId @ ''.'' @ millis @ ''.'' @ nonce"

definition nonce_key :: "string \<Rightarrow> string \<Rightarrow> string" where
  "nonce_key nodeId nonce = ''nodeauth:'' @ nodeId @ '':'' @ nonce"

type_synonym 'r redis_set = "millis \<Rightarrow> string \<Rightarrow> string \<Rightarrow> number \<Rightarrow> ('r, error, string option) op"

definition authenticateNode ::
  "(bytes \<Rightarrow> 'key option) \<Rightarrow> ('key \<Rightarrow> string \<Rightarrow> bytes \<Rightarrow> bool option) \<Rightarrow> (string \<Rightarrow> bytes)
   \<Rightarrow> 'r redis_set \<Rightarrow> conn \<Rightarrow> number \<Rightarrow> millis \<Rightarrow> millis \<Rightarrow> db \<Rightarrow> string option
   \<Rightarrow> ('r, error, string \<times> string) op" where
  "authenticateNode createPublicKey verify base64url redis_set owner skew checked stored s header =
     (case node_header header of
        Inl e \<Rightarrow> op_throw e
      | Inr (nodeId, millis, nonce, signature) \<Rightarrow>
          (case js_Number millis of
             Finite t \<Rightarrow>
               if \<bar>js_sub (of_int checked) t\<bar> > skew
               then op_throw (NodeAuthError ''timestamp outside the accepted window'')
               else (case first_row (sql_select owner n_orgId (\<lambda>n. n_id n = toLowerCase nodeId) (t_nodes s)) of
                  None \<Rightarrow> op_throw (NodeAuthError ''unknown node'')
                | Some row \<Rightarrow>
                    (case toKeyObject createPublicKey (n_publicKey row) of
                       None \<Rightarrow> op_throw (NodeAuthError ''stored node key is invalid'')
                     | Some key \<Rightarrow>
                         (let ok = (case verify key (signed_text nodeId millis nonce) (base64url signature) of
                                      Some b \<Rightarrow> b | None \<Rightarrow> False)
                          in if \<not> ok then op_throw (NodeAuthError ''invalid signature'')
                             else op_bind (redis_set stored (nonce_key nodeId nonce) ''1'' (js_mul skew 2))
                               (\<lambda>fresh. if fresh \<noteq> Some ''OK''
                                        then op_throw (NodeAuthError ''replayed authorization header'')
                                        else op_return (nodeId, n_orgId row)))))
           | _ \<Rightarrow> op_throw (NodeAuthError ''malformed timestamp'')))"

section \<open>The header\<close>

text \<open>What the agent sends.\<close>

definition auth_header :: "string \<Rightarrow> string \<Rightarrow> string \<Rightarrow> string \<Rightarrow> string" where
  "auth_header nodeId millis nonce signature = NODE_AUTH_SCHEME @ signed_text nodeId millis nonce @ ''.'' @ signature"

lemma node_header_Inr:
  "node_header header = Inr (nodeId, millis, nonce, signature) \<longleftrightarrow>
     header = Some (auth_header nodeId millis nonce signature)
     \<and> millis \<noteq> [] \<and> nonce \<noteq> [] \<and> signature \<noteq> [] \<and> isUuid nodeId
     \<and> CHR ''.'' \<notin> set nodeId \<union> set millis \<union> set nonce \<union> set signature"
  (is "?l \<longleftrightarrow> ?r")
proof
  assume ?l
  then obtain h where h: "header = Some h" "startsWith h NODE_AUTH_SCHEME"
    and sp: "split_on CHR ''.'' (drop (length NODE_AUTH_SCHEME) h) = [nodeId, millis, nonce, signature]"
    and ne: "millis \<noteq> []" "nonce \<noteq> []" "signature \<noteq> []" "isUuid nodeId"
    by (auto simp: node_header_def split: option.splits if_splits list.splits)
  then obtain r where r: "h = NODE_AUTH_SCHEME @ r" by (auto simp: startsWith_append)
  then have "r = join_with CHR ''.'' [nodeId, millis, nonce, signature]"
    using sp join_split [of "CHR ''.''" r] by simp
  moreover have "CHR ''.'' \<notin> set p" if "p \<in> {nodeId, millis, nonce, signature}" for p
    using split_on_parts [of p "CHR ''.''" "drop (length NODE_AUTH_SCHEME) h"] sp that by auto
  ultimately show ?r using h r ne by (simp add: auth_header_def signed_text_def)
next
  assume r: ?r
  then have "nodeId \<noteq> []" by (auto simp: isUuid_def uuid_groups_def)
  with r show ?l
    by (simp add: node_header_def auth_header_def signed_text_def split_on_append split_on_no_sep)
qed

lemma auth_header_inject:
  assumes "auth_header n m c s = auth_header n' m' c' s'"
    and "CHR ''.'' \<notin> set n \<union> set m \<union> set c \<union> set s" and "CHR ''.'' \<notin> set n' \<union> set m' \<union> set c' \<union> set s'"
  shows "n = n' \<and> m = m' \<and> c = c' \<and> s = s'"
proof -
  have "split_on CHR ''.'' (drop (length NODE_AUTH_SCHEME) (auth_header n m c s)) = [n, m, c, s]"
    if "CHR ''.'' \<notin> set n \<union> set m \<union> set c \<union> set s" for n m c s
    using that by (simp add: auth_header_def signed_text_def split_on_append split_on_no_sep)
  then show ?thesis using assms by (metis list.inject)
qed

lemma authenticate_success:
  assumes "authenticateNode createPublicKey verify base64url redis_set owner skew checked stored s header r
      = (Inr (nodeId, orgId), r')"
  obtains millis nonce signature t row key where
    "header = Some (auth_header nodeId millis nonce signature)" "isUuid nodeId"
    "CHR ''.'' \<notin> set nodeId \<union> set millis \<union> set nonce \<union> set signature"
    "js_Number millis = Finite t" "\<bar>js_sub (of_int checked) t\<bar> \<le> skew"
    "row \<in> set (t_nodes s)" "n_id row = toLowerCase nodeId" "n_orgId row = orgId"
    "toKeyObject createPublicKey (n_publicKey row) = Some key"
    "verify key (signed_text nodeId millis nonce) (base64url signature) = Some True"
    "redis_set stored (nonce_key nodeId nonce) ''1'' (js_mul skew 2) r = (Inr (Some ''OK''), r')"
proof (cases "node_header header")
  case (Inl e)
  then show ?thesis using assms by (simp add: authenticateNode_def)
next
  case (Inr p)
  obtain nid millis nonce signature where p: "p = (nid, millis, nonce, signature)" by (cases p)
  note h = Inr [unfolded p]
  obtain t where t: "js_Number millis = Finite t" "\<bar>js_sub (of_int checked) t\<bar> \<le> skew"
    using assms h by (cases "js_Number millis") (auto simp: authenticateNode_def split: if_splits)
  then obtain row where row: "first_row (sql_select owner n_orgId (\<lambda>n. n_id n = toLowerCase nid) (t_nodes s)) = Some row"
    using assms h by (auto simp: authenticateNode_def split: option.splits)
  then obtain key where key: "toKeyObject createPublicKey (n_publicKey row) = Some key"
    using assms h t by (auto simp: authenticateNode_def split: option.splits)
  have v: "verify key (signed_text nid millis nonce) (base64url signature) = Some True"
    using assms h t row key
    by (cases "verify key (signed_text nid millis nonce) (base64url signature)")
      (auto simp: authenticateNode_def split: if_splits)
  have "op_bind (redis_set stored (nonce_key nid nonce) ''1'' (js_mul skew 2))
      (\<lambda>fresh. if fresh \<noteq> Some ''OK'' then op_throw (NodeAuthError ''replayed authorization header'')
               else op_return (nid, n_orgId row)) r = (Inr (nodeId, orgId), r')"
    using assms h t row key v by (simp add: authenticateNode_def)
  then have "redis_set stored (nonce_key nid nonce) ''1'' (js_mul skew 2) r = (Inr (Some ''OK''), r')"
    and ids: "nid = nodeId" "n_orgId row = orgId"
    by (auto elim!: op_bind_success split: if_splits)
  then show ?thesis
    using that [of millis nonce signature t row key] h t row key v
    by (auto simp: node_header_Inr sql_select_def dest!: first_row_filter_Some)
qed

text \<open>(C11) Only the holder of a node's key gets in as that node: an accepted header names a node of
  the database, is dated within the accepted skew of the server's clock and carries a signature
  that verifies, under that node's stored key, over exactly the id, date and nonce of the header;
  the organization returned is the node's own.\<close>

theorem authenticate_sound:
  assumes "authenticateNode createPublicKey verify base64url redis_set owner skew checked stored s header r
      = (Inr (nodeId, orgId), r')"
  shows "\<exists>millis nonce signature t. \<exists>row \<in> set (t_nodes s). \<exists>key.
      header = Some (auth_header nodeId millis nonce signature)
      \<and> js_Number millis = Finite t \<and> \<bar>js_sub (of_int checked) t\<bar> \<le> skew
      \<and> isUuid nodeId \<and> n_id row = toLowerCase nodeId \<and> n_orgId row = orgId
      \<and> toKeyObject createPublicKey (n_publicKey row) = Some key
      \<and> verify key (signed_text nodeId millis nonce) (base64url signature) = Some True"
  using assms by (rule authenticate_success) blast

text \<open>Whatever is wrong with a header, the caller sees an unauthenticated error and, unless the
  signature was good, no nonce is written.\<close>

theorem authenticate_refuses:
  assumes "authenticateNode createPublicKey verify base64url redis_set owner skew checked stored s header r = (Inl e, r')"
  shows "(\<exists>msg. e = ConnectError msg Unauthenticated \<and> (msg \<noteq> ''replayed authorization header'' \<longrightarrow> r' = r))
     \<or> (\<exists>key nodeId millis nonce signature.
          header = Some (auth_header nodeId millis nonce signature)
          \<and> verify key (signed_text nodeId millis nonce) (base64url signature) = Some True
          \<and> redis_set stored (nonce_key nodeId nonce) ''1'' (js_mul skew 2) r = (Inl e, r'))"
proof (cases "node_header header")
  case (Inl e')
  then show ?thesis
    using assms by (auto simp: authenticateNode_def node_header_def NodeAuthError_def
        split: option.splits if_splits list.splits)
next
  case (Inr p)
  obtain nid millis nonce signature where p: "p = (nid, millis, nonce, signature)" by (cases p)
  note h = Inr [unfolded p]
  show ?thesis
    using assms h
    by (auto simp: authenticateNode_def NodeAuthError_def Let_def node_header_Inr elim!: op_bind_cases
        split: js_num.splits if_splits option.splits)
qed

section \<open>Replay\<close>

text \<open>What the code relies on of the Redis command; \<open>live r k t\<close>: the key exists at time \<open>t\<close>.\<close>

locale nonce_store =
  fixes redis_set :: "'r redis_set"
    and live :: "'r \<Rightarrow> string \<Rightarrow> millis \<Rightarrow> bool"
  assumes nx: "redis_set t k v px r = (Inr (Some ''OK''), r') \<Longrightarrow> \<not> live r k t"
    and px: "redis_set t k v px r = (Inr (Some ''OK''), r') \<Longrightarrow> t \<le> t' \<Longrightarrow> of_int (t' - t) < px \<Longrightarrow> live r' k t'"
    and kept: "redis_set t k v px r = (x, r') \<Longrightarrow> live r k' t' \<Longrightarrow> t \<le> t' \<Longrightarrow> live r' k' t'"

text \<open>One attempt to authenticate, and a sequence of them against one store.\<close>

record attempt =
  a_checked :: millis
  a_stored :: millis
  a_db :: db
  a_header :: "string option"

fun auth_run :: "(bytes \<Rightarrow> 'key option) \<Rightarrow> ('key \<Rightarrow> string \<Rightarrow> bytes \<Rightarrow> bool option) \<Rightarrow> (string \<Rightarrow> bytes)
   \<Rightarrow> 'r redis_set \<Rightarrow> conn \<Rightarrow> number \<Rightarrow> attempt list \<Rightarrow> 'r \<Rightarrow> (attempt \<times> (error + string \<times> string)) list" where
  "auth_run ck vf b64 redis_set owner skew [] r = []"
| "auth_run ck vf b64 redis_set owner skew (a # as) r =
     (case authenticateNode ck vf b64 redis_set owner skew (a_checked a) (a_stored a) (a_db a) (a_header a) r of
        (x, r') \<Rightarrow> (a, x) # auth_run ck vf b64 redis_set owner skew as r')"

definition accepted :: "string option \<Rightarrow> (attempt \<times> (error + 'a)) list \<Rightarrow> attempt list" where
  "accepted h run = map fst (filter (\<lambda>(a, x). a_header a = h \<and> \<not> isl x) run)"

lemma accepted_Cons:
  "accepted h ((a, x) # run) = (if a_header a = h \<and> \<not> isl x then a # accepted h run else accepted h run)"
  by (simp add: accepted_def)

lemma auth_run_attempts: "map fst (auth_run ck vf b64 rs owner skew as r) = as"
  by (induction as arbitrary: r) (auto split: prod.splits)

lemma authenticate_store:
  assumes "authenticateNode ck vf b64 rs owner skew checked stored s header r = (x, r')"
  obtains "r' = r" | k v px y where "rs stored k v px r = (y, r')"
  using assms
  by (auto simp: authenticateNode_def Let_def elim!: op_bind_cases
      split: sum.splits prod.splits js_num.splits if_splits option.splits)

context nonce_store begin

lemma authenticate_keeps_live:
  assumes "authenticateNode ck vf b64 redis_set owner skew checked stored s header r = (x, r')"
    and "live r k t" and "stored \<le> t"
  shows "live r' k t"
  using assms(1) by (rule authenticate_store) (use assms kept in auto)

lemma live_blocks:
  fixes px :: number
  assumes "\<And>t. now \<le> t \<Longrightarrow> of_int (t - t0) < px \<Longrightarrow> live r (nonce_key nid nonce) t"
    and "header = Some (auth_header nid millis nonce sg)" and "CHR ''.'' \<notin> set nid \<union> set millis \<union> set nonce \<union> set sg"
    and "\<forall>a \<in> set as. now \<le> a_stored a" and "sorted (map a_stored as)"
    and "a \<in> set (accepted header (auth_run ck vf b64 redis_set owner skew as r))"
  shows "px \<le> of_int (a_stored a - t0)"
  using assms(1,4-6)
proof (induction as arbitrary: r now)
  case Nil
  then show ?case by (simp add: accepted_def)
next
  case (Cons b as)
  obtain x r' where st: "authenticateNode ck vf b64 redis_set owner skew (a_checked b) (a_stored b) (a_db b) (a_header b) r = (x, r')"
    by (cases "authenticateNode ck vf b64 redis_set owner skew (a_checked b) (a_stored b) (a_db b) (a_header b) r")
  show ?case
  proof (cases "a = b \<and> a_header b = header \<and> \<not> isl x")
    case True
    then obtain n1 o1 where "x = Inr (n1, o1)" by (cases x) auto
    from st [unfolded this] obtain m c sg' where h: "a_header b = Some (auth_header n1 m c sg')"
      "CHR ''.'' \<notin> set n1 \<union> set m \<union> set c \<union> set sg'"
      and ok: "redis_set (a_stored b) (nonce_key n1 c) ''1'' (js_mul skew 2) r = (Inr (Some ''OK''), r')"
      by (rule authenticate_success) blast
    have "n1 = nid \<and> c = nonce" using auth_header_inject [of n1 m c sg' nid millis nonce sg] h True assms(2,3) by simp
    then have "\<not> live r (nonce_key nid nonce) (a_stored b)" using nx [OF ok] by simp
    moreover have "now \<le> a_stored b" using Cons.prems(2) by simp
    ultimately have "\<not> of_int (a_stored b - t0) < px" using Cons.prems(1) by blast
    with True show ?thesis by simp
  next
    case False
    have a: "a \<in> set (accepted header (auth_run ck vf b64 redis_set owner skew as r'))"
      using Cons.prems(4) False st by (auto simp: accepted_Cons split: if_splits)
    have "live r' (nonce_key nid nonce) t" if "a_stored b \<le> t" "of_int (t - t0) < px" for t
      using authenticate_keeps_live [OF st Cons.prems(1)] Cons.prems(2) that by simp
    then show ?thesis using Cons.IH [OF _ _ _ a, of "a_stored b"] Cons.prems(3) by simp
  qed
qed

lemma accepted_apart:
  assumes "sorted (map a_stored as)"
    and "accepted header (auth_run ck vf b64 redis_set owner skew as r) = xs @ [a] @ ys @ [b] @ zs"
  shows "js_mul skew 2 \<le> of_int (a_stored b - a_stored a)"
  using assms
proof (induction as arbitrary: r xs)
  case Nil
  then show ?case by (simp add: accepted_def)
next
  case (Cons c as)
  obtain x r' where st: "authenticateNode ck vf b64 redis_set owner skew (a_checked c) (a_stored c) (a_db c) (a_header c) r = (x, r')"
    by (cases "authenticateNode ck vf b64 redis_set owner skew (a_checked c) (a_stored c) (a_db c) (a_header c) r")
  let ?rest = "accepted header (auth_run ck vf b64 redis_set owner skew as r')"
  have all: "(if a_header c = header \<and> \<not> isl x then c # ?rest else ?rest) = xs @ [a] @ ys @ [b] @ zs"
    using Cons.prems(2) st by (simp add: accepted_Cons)
  show ?case
  proof (cases "xs = [] \<and> a_header c = header \<and> \<not> isl x")
    case False
    then obtain xs' where "?rest = xs' @ [a] @ ys @ [b] @ zs" using all by (cases xs) (auto split: if_splits)
    then show ?thesis using Cons.IH Cons.prems(1) by simp
  next
    case True
    then have ca: "c = a" and b: "b \<in> set ?rest" using all by auto
    obtain n1 o1 where x: "x = Inr (n1, o1)" using True by (cases x) auto
    from st [unfolded x] obtain m no sg where h: "a_header c = Some (auth_header n1 m no sg)"
      "CHR ''.'' \<notin> set n1 \<union> set m \<union> set no \<union> set sg"
      and ok: "redis_set (a_stored c) (nonce_key n1 no) ''1'' (js_mul skew 2) r = (Inr (Some ''OK''), r')"
      by (rule authenticate_success) blast
    have hd: "header = Some (auth_header n1 m no sg)" using True h by simp
    have "\<forall>a \<in> set as. a_stored c \<le> a_stored a" "sorted (map a_stored as)" using Cons.prems(1) by simp_all
    then show ?thesis
      using live_blocks [OF px [OF ok] hd h(2) _ _ b] ca by simp
  qed
qed

end

text \<open>Two dates the timestamp test accepts for one header are at most twice the skew apart.\<close>

lemma window_bound:
  assumes "\<bar>js_sub (of_int c) t\<bar> \<le> of_int k" and "\<bar>js_sub (of_int c') t\<bar> \<le> of_int k" and "0 \<le> k" and "k < 2 ^ 51"
  shows "c' - c \<le> 2 * k"
proof -
  have half: "fl (of_int k + 1 / 2) = of_int k + 1 / 2"
    using fl_dyadic [of "2 * k + 1" 1] assms(3,4) by (simp add: add_divide_distrib)
  have up: "of_int d - t < of_int k + 1 / 2" if "\<bar>js_sub (of_int d) t\<bar> \<le> of_int k" for d
  proof (rule ccontr)
    assume "\<not> of_int d - t < of_int k + 1 / 2"
    then have "of_int k + 1 / 2 \<le> fl (of_int d - t)" using fl_mono [of "of_int k + 1 / 2" "of_int d - t"] half by simp
    then show False using that by (simp add: js_sub_def)
  qed
  have down: "t - of_int d < of_int k + 1 / 2" if "\<bar>js_sub (of_int d) t\<bar> \<le> of_int k" for d
  proof (rule ccontr)
    assume "\<not> t - of_int d < of_int k + 1 / 2"
    then have "fl (of_int d - t) \<le> fl (- (of_int k + 1 / 2))" by (intro fl_mono) simp
    then have "fl (of_int d - t) \<le> - (of_int k + 1 / 2)" unfolding fl_minus half .
    then show False using that by (simp add: js_sub_def)
  qed
  have "of_int (c' - c) < (of_int (2 * k + 1) :: rat)" using up [OF assms(2)] down [OF assms(1)] by simp
  then have "c' - c < 2 * k + 1" by (simp only: of_int_less_iff)
  then show ?thesis by simp
qed

text \<open>(C14) No replay in time. If the same header is accepted twice by servers sharing one Redis, the
  two nonce writes are at least twice the skew apart while the two timestamp tests are at most
  twice the skew apart; so the second request must have spent at least as long between its test
  and its write as the first one did. A replay whose nonce write comes sooner after its timestamp
  test is always refused.\<close>

theorem replay_refused:
  assumes "nonce_store redis_set live" and "sorted (map a_stored as)"
    and "skew = of_int k" and "0 \<le> k" and "k < 2 ^ 51"
    and "accepted header (auth_run createPublicKey verify base64url redis_set owner skew as r) = xs @ [a] @ ys @ [b] @ zs"
  shows "2 * k \<le> a_stored b - a_stored a \<and> a_checked b - a_checked a \<le> 2 * k
     \<and> a_stored a - a_checked a \<le> a_stored b - a_checked b"
proof -
  have within: "\<exists>nid m no sg t. header = Some (auth_header nid m no sg) \<and> CHR ''.'' \<notin> set nid \<union> set m \<union> set no \<union> set sg
      \<and> js_Number m = Finite t \<and> \<bar>js_sub (of_int (a_checked c)) t\<bar> \<le> of_int k"
    if "c \<in> set (accepted header (auth_run createPublicKey verify base64url redis_set owner skew as r))" for c
    using that
  proof (induction as arbitrary: r)
    case Nil
    then show ?case by (simp add: accepted_def)
  next
    case (Cons d as)
    obtain x r' where st: "authenticateNode createPublicKey verify base64url redis_set owner skew
        (a_checked d) (a_stored d) (a_db d) (a_header d) r = (x, r')"
      by (cases "authenticateNode createPublicKey verify base64url redis_set owner skew
        (a_checked d) (a_stored d) (a_db d) (a_header d) r")
    show ?case
    proof (cases "c = d \<and> a_header d = header \<and> \<not> isl x")
      case True
      then obtain n1 o1 where "x = Inr (n1, o1)" by (cases x) auto
      from st [unfolded this] show ?thesis by (rule authenticate_success) (insert True, unfold assms(3), blast)
    next
      case False
      then show ?thesis using Cons st by (auto simp: accepted_Cons split: if_splits)
    qed
  qed
  obtain nid m no sg t where a: "header = Some (auth_header nid m no sg)" "CHR ''.'' \<notin> set nid \<union> set m \<union> set no \<union> set sg"
    "js_Number m = Finite t" "\<bar>js_sub (of_int (a_checked a)) t\<bar> \<le> of_int k"
    using within [of a] assms(6) by auto
  obtain nid' m' no' sg' t' where b: "header = Some (auth_header nid' m' no' sg')" "CHR ''.'' \<notin> set nid' \<union> set m' \<union> set no' \<union> set sg'"
    "js_Number m' = Finite t'" "\<bar>js_sub (of_int (a_checked b)) t'\<bar> \<le> of_int k"
    using within [of b] assms(6) by auto
  have "m = m'" using a b auth_header_inject [of nid m no sg nid' m' no' sg'] by simp
  then have "t' = t" using a b by simp
  then have w: "a_checked b - a_checked a \<le> 2 * k" using window_bound a(4) b(4) assms(4,5) by blast
  have "js_mul skew 2 = of_int (2 * k)"
    using assms(3-5) fl_of_int [of "k * 2"] by (simp add: js_mul_def)
  then have "(of_int (2 * k) :: rat) \<le> of_int (a_stored b - a_stored a)"
    using nonce_store.accepted_apart [OF assms(1,2,6)] by simp
  then have "2 * k \<le> a_stored b - a_stored a" by (simp only: of_int_le_iff)
  with w show ?thesis by simp
qed

section \<open>The second use of a header\<close>

text \<open>What the command documents besides: it stores a key that is not there, answers nil for one that
  is, and a key is gone once its time to live is over.\<close>

locale expiring_store = nonce_store +
  assumes fresh: "\<not> live r k t \<Longrightarrow> 0 < n \<Longrightarrow> \<exists>r'. redis_set t k v (of_int n) r = (Inr (Some ''OK''), r')"
    and taken: "live r k t \<Longrightarrow> 0 < n \<Longrightarrow> redis_set t k v (of_int n) r = (Inr None, r)"
    and gone: "redis_set t k v (of_int n) r = (Inr (Some ''OK''), r') \<Longrightarrow> t + n < t' \<Longrightarrow> \<not> live r' k t'"
begin

lemma set_again:
  assumes "redis_set t k v (of_int n) r = (Inr (Some ''OK''), r1)" and "t \<le> t'" and "0 < n"
  shows "t' - t < n \<Longrightarrow> redis_set t' k v (of_int n) r1 = (Inr None, r1)"
    and "n < t' - t \<Longrightarrow> fst (redis_set t' k v (of_int n) r1) = Inr (Some ''OK'')"
proof -
  show "redis_set t' k v (of_int n) r1 = (Inr None, r1)" if "t' - t < n"
  proof (rule taken [OF _ assms(3)])
    show "live r1 k t'" using px [OF assms(1,2)] that by (simp only: of_int_less_iff)
  qed
  show "fst (redis_set t' k v (of_int n) r1) = Inr (Some ''OK'')" if "n < t' - t"
    using fresh [OF gone [OF assms(1)] assms(3), of t' v] that by fastforce
qed

end

text \<open>What the answer to a header depends on once all other tests have passed.\<close>

lemma authenticate_again:
  assumes "authenticateNode ck vf b64 redis_set owner skew checked stored s header r = (Inr (nodeId, orgId), r1)"
  obtains millis nonce signature t where
    "node_header header = Inr (nodeId, millis, nonce, signature)" "js_Number millis = Finite t"
    "redis_set stored (nonce_key nodeId nonce) ''1'' (js_mul skew 2) r = (Inr (Some ''OK''), r1)"
    "\<And>checked' stored' r'. authenticateNode ck vf b64 redis_set owner skew checked' stored' s header r' =
       (if \<bar>js_sub (of_int checked') t\<bar> > skew
        then (Inl (NodeAuthError ''timestamp outside the accepted window''), r')
        else op_bind (redis_set stored' (nonce_key nodeId nonce) ''1'' (js_mul skew 2))
          (\<lambda>fresh. if fresh \<noteq> Some ''OK'' then op_throw (NodeAuthError ''replayed authorization header'')
                   else op_return (nodeId, orgId)) r')"
proof -
  obtain nid millis nonce signature where h: "node_header header = Inr (nid, millis, nonce, signature)"
    using assms by (cases "node_header header") (auto simp: authenticateNode_def)
  obtain t where t: "js_Number millis = Finite t"
    using assms h by (cases "js_Number millis") (auto simp: authenticateNode_def)
  obtain row where row: "first_row (sql_select owner n_orgId (\<lambda>n. n_id n = toLowerCase nid) (t_nodes s)) = Some row"
    using assms h t by (auto simp: authenticateNode_def split: option.splits if_splits)
  obtain key where key: "toKeyObject ck (n_publicKey row) = Some key"
    using assms h t row by (auto simp: authenticateNode_def split: option.splits if_splits)
  have ok: "vf key (signed_text nid millis nonce) (b64 signature) = Some True"
    using assms h t row key by (cases "vf key (signed_text nid millis nonce) (b64 signature)")
      (auto simp: authenticateNode_def split: if_splits)
  have form: "authenticateNode ck vf b64 redis_set owner skew checked' stored' s header r' =
       (if \<bar>js_sub (of_int checked') t\<bar> > skew
        then (Inl (NodeAuthError ''timestamp outside the accepted window''), r')
        else op_bind (redis_set stored' (nonce_key nid nonce) ''1'' (js_mul skew 2))
          (\<lambda>fresh. if fresh \<noteq> Some ''OK'' then op_throw (NodeAuthError ''replayed authorization header'')
                   else op_return (nid, n_orgId row)) r')" for checked' stored' r'
    using h t row key ok by (simp add: authenticateNode_def)
  have set: "redis_set stored (nonce_key nid nonce) ''1'' (js_mul skew 2) r = (Inr (Some ''OK''), r1)"
    and ids: "nid = nodeId" "n_orgId row = orgId"
    using assms unfolding form by (auto elim!: op_bind_success split: if_splits)
  show ?thesis by (rule that [OF h [unfolded ids] t set [unfolded ids] form [unfolded ids]])
qed

text \<open>(C24) What a second use of an accepted header is answered with. Against the same node and one Redis, let
  the header be presented again, its nonce written no earlier than the first time. It is refused when
  its date is outside the skew of the clock, and as replayed when fewer than two skews lie between the
  nonce writes; and it is accepted a second time when its date is within the skew and more than two
  skews lie between the writes. The last case does occur: for a header dated one skew ahead of its
  first timestamp test, a second test two skews later passes, so that a delay between test and
  write is enough.\<close>

theorem second_use_exact:
  assumes "expiring_store redis_set live" and "skew = of_int k" and "0 < k" and "k < 2 ^ 51"
    and "authenticateNode createPublicKey verify base64url redis_set owner skew checked stored s header r
      = (Inr (nodeId, orgId), r1)"
    and "stored \<le> stored'"
    and "again = authenticateNode createPublicKey verify base64url redis_set owner skew checked' stored' s header r1"
  shows "\<exists>millis nonce signature t. node_header header = Inr (nodeId, millis, nonce, signature) \<and> js_Number millis = Finite t
     \<and> (\<bar>js_sub (of_int checked') t\<bar> > skew \<longrightarrow> again = (Inl (NodeAuthError ''timestamp outside the accepted window''), r1))
     \<and> (\<bar>js_sub (of_int checked') t\<bar> \<le> skew \<longrightarrow>
          (stored' - stored < 2 * k \<longrightarrow> again = (Inl (NodeAuthError ''replayed authorization header''), r1))
          \<and> (2 * k < stored' - stored \<longrightarrow> fst again = Inr (nodeId, orgId)))
     \<and> (t = of_int (checked + k) \<longrightarrow> checked' = checked + 2 * k \<longrightarrow> \<bar>js_sub (of_int checked') t\<bar> \<le> skew)"
proof -
  obtain millis nonce signature t where
    h: "node_header header = Inr (nodeId, millis, nonce, signature)" "js_Number millis = Finite t"
    and set: "redis_set stored (nonce_key nodeId nonce) ''1'' (js_mul skew 2) r = (Inr (Some ''OK''), r1)"
    and form: "\<And>checked' stored' r'. authenticateNode createPublicKey verify base64url redis_set owner skew checked' stored' s header r' =
       (if \<bar>js_sub (of_int checked') t\<bar> > skew
        then (Inl (NodeAuthError ''timestamp outside the accepted window''), r')
        else op_bind (redis_set stored' (nonce_key nodeId nonce) ''1'' (js_mul skew 2))
          (\<lambda>fresh. if fresh \<noteq> Some ''OK'' then op_throw (NodeAuthError ''replayed authorization header'')
                   else op_return (nodeId, orgId)) r')"
    using assms(5) by (rule authenticate_again) blast
  have ttl: "js_mul skew 2 = of_int (2 * k)"
    using assms(2-4) fl_of_int [of "k * 2"] by (simp add: js_mul_def)
  have "0 < 2 * k" using assms(3) by simp
  note nonce = expiring_store.set_again [OF assms(1) set [unfolded ttl] assms(6) this]
  have "again = (Inl (NodeAuthError ''replayed authorization header''), r1)"
    if "\<bar>js_sub (of_int checked') t\<bar> \<le> skew" "stored' - stored < 2 * k"
    using nonce(1) [OF that(2)] that(1) unfolding assms(7) form ttl by simp
  moreover have "fst again = Inr (nodeId, orgId)"
    if "\<bar>js_sub (of_int checked') t\<bar> \<le> skew" "2 * k < stored' - stored"
    using nonce(2) [OF that(2)] that(1) unfolding assms(7) form ttl
    by (cases "redis_set stored' (nonce_key nodeId nonce) ''1'' (of_int (2 * k)) r1") simp
  moreover have "\<bar>js_sub (of_int checked') t\<bar> \<le> skew" if "t = of_int (checked + k)" "checked' = checked + 2 * k"
    using js_sub_exact [of "checked + 2 * k" "checked + k"] assms(2-4) by (simp add: that)
  moreover have "again = (Inl (NodeAuthError ''timestamp outside the accepted window''), r1)"
    if "\<bar>js_sub (of_int checked') t\<bar> > skew"
    using that unfolding assms(7) form by simp
  ultimately show ?thesis using h by blast
qed

section \<open>A genuine header is accepted\<close>

text \<open>A node can always connect: a header of the four fields, dated within the skew, naming a
  stored node in any letter case and signed with its key is accepted when Redis has not seen its
  nonce, and the organization it gets is the one the node was enrolled into.\<close>

theorem authenticate_accepts:
  assumes "wf_db s" and "row \<in> set (t_nodes s)" and "toLowerCase nodeId = n_id row" and "isUuid nodeId"
    and "CHR ''.'' \<notin> set nodeId \<union> set millis \<union> set nonce \<union> set signature"
    and "millis \<noteq> []" and "nonce \<noteq> []" and "signature \<noteq> []"
    and "js_Number millis = Finite t" and "\<bar>js_sub (of_int checked) t\<bar> \<le> skew"
    and "toKeyObject createPublicKey (n_publicKey row) = Some key"
    and "verify key (signed_text nodeId millis nonce) (base64url signature) = Some True"
    and "redis_set stored (nonce_key nodeId nonce) ''1'' (js_mul skew 2) r = (Inr (Some ''OK''), r')"
  shows "authenticateNode createPublicKey verify base64url redis_set OwnerConn skew checked stored s
      (Some (auth_header nodeId millis nonce signature)) r = (Inr (nodeId, n_orgId row), r')"
proof -
  have h: "node_header (Some (auth_header nodeId millis nonce signature)) = Inr (nodeId, millis, nonce, signature)"
    using assms(4-8) by (simp add: node_header_Inr)
  have "filter (\<lambda>n. n_id n = n_id row) (t_nodes s) = [row]"
    using distinct_map_filter_unique [OF wf_dbD(1) [OF assms(1)] assms(2)] .
  then have "sql_select OwnerConn n_orgId (\<lambda>n. n_id n = toLowerCase nodeId) (t_nodes s) = [row]"
    by (simp add: sql_select_def org_isolation_def assms(3))
  then show ?thesis using h assms(9-13) by (simp add: authenticateNode_def Let_def)
qed

section \<open>An expiring store\<close>

text \<open>
  A store with the promised behaviour: the pairs of a key and the last millisecond it exists. A
  time to live that is not a positive whole number is an error reply.
\<close>

type_synonym px_store = "(string \<times> millis) list"

definition px_live :: "px_store \<Rightarrow> string \<Rightarrow> millis \<Rightarrow> bool" where
  "px_live r k t = list_ex (\<lambda>(k', e). k' = k \<and> t \<le> e) r"

definition px_set :: "px_store redis_set" where
  "px_set t k v px r =
     (case BigInt px of
        Some n \<Rightarrow> if n \<le> 0 then (Inl (JsError ''ERR invalid expire time''), r)
                  else if px_live r k t then (Inr None, r)
                  else (Inr (Some ''OK''), (k, t + n) # r)
      | None \<Rightarrow> (Inl (JsError ''ERR value is not an integer''), r))"

lemma px_set_ok:
  "px_set t k v px r = (Inr (Some ''OK''), r') \<Longrightarrow> \<exists>n. px = of_int n \<and> \<not> px_live r k t \<and> r' = (k, t + n) # r"
  by (auto simp: px_set_def BigInt_def split: if_splits option.splits)

interpretation px: expiring_store px_set px_live
proof unfold_locales
  fix t t' k v px r r'
  assume a: "px_set t k v px r = (Inr (Some ''OK''), r')" "t \<le> t'" "of_int (t' - t) < px"
  then obtain n where n: "px = of_int n" "r' = (k, t + n) # r" using px_set_ok by blast
  have "t' - t < n" using a(3) unfolding n(1) by (simp only: of_int_less_iff)
  then show "px_live r' k t'" by (simp add: n(2) px_live_def)
next
  fix t k v px r x r' k' t'
  assume "px_set t k v px r = (x, r')" "px_live r k' t'"
  then show "px_live r' k' t'" by (auto simp: px_set_def px_live_def split: if_splits option.splits)
next
  fix n :: int and t k v r assume "\<not> px_live r k t" "0 < n"
  then show "\<exists>r'. px_set t k v (of_int n) r = (Inr (Some ''OK''), r')" by (simp add: px_set_def)
next
  fix n :: int and t k v r assume "px_live r k t" "0 < n"
  then show "px_set t k v (of_int n) r = (Inr None, r)" by (simp add: px_set_def)
next
  fix n t t' :: int and k v r r' assume "px_set t k v (of_int n) r = (Inr (Some ''OK''), r')" "t + n < t'"
  then show "\<not> px_live r' k t'" by (fastforce simp: px_set_def px_live_def list_ex_iff split: if_splits)
qed (use px_set_ok in blast)

definition auth_node :: node_row where
  "auth_node = \<lparr>n_id = ''00000000-0000-4000-8000-00000000000a'', n_orgId = ''org_a'', n_name = ''four-ninety'',
     n_status = ''offline'', n_platform = [], n_arch = [], n_osVersion = [], n_agentVersion = [],
     n_hostname = [], n_totalMemoryBytes = 0, n_cpuCores = 0, n_publicKey = replicate 32 7,
     n_siteId = None, n_lastSeenAt = None, n_createdAt = 0\<rparr>"

definition auth_db :: db where
  "auth_db = \<lparr>t_organization = [\<lparr>o_id = ''org_a'', o_name = ''Fleet'', o_slug = ''org_a'', o_logo = None,
       o_createdAt = 0, o_metadata = None\<rparr>], t_nodes = [auth_node], t_devices = [], t_pairing = []\<rparr>"

definition sample_header :: string where
  "sample_header = auth_header (n_id auth_node) ''60000'' ''n1'' ''sig''"

text \<open>Stand-ins for the cryptography: the key is its bytes, and a signature is \<open>sig\<close>.\<close>

definition sample_verify :: "bytes \<Rightarrow> string \<Rightarrow> bytes \<Rightarrow> bool option" where
  "sample_verify key text signature = Some (signature = map (of_nat \<circ> of_char) ''sig'')"

definition sample_base64 :: "string \<Rightarrow> bytes" where
  "sample_base64 s = map (of_nat \<circ> of_char) s"

lemma auth_db_wf: "wf_db auth_db"
  by (simp add: auth_db_def auth_node_def wf_db_def wf_nodes_def wf_devices_def wf_pairing_def node_ok_def)

lemma sample_number: "js_Number ''60000'' = Finite 60000"
proof -
  have "list_all is_digit ''60000''" "digits_value 10 0 ''60000'' = 60000"
    by (simp_all add: is_digit_def in_range_def digit_value_def)
  then show ?thesis using js_Number_digits [of "''60000''"] by simp
qed

lemma sample_sub: "\<bar>c\<bar> \<le> 10 ^ 6 \<Longrightarrow> js_sub (of_int c) 60000 = of_int (c - 60000)"
  using js_sub_exact [of c 60000] by simp

lemma sample_auth:
  assumes "\<bar>c\<bar> \<le> 10 ^ 6" and "\<bar>c - 60000\<bar> \<le> 60000" and "\<not> px_live r (nonce_key (n_id auth_node) ''n1'') t"
  shows "authenticateNode Some sample_verify sample_base64 px_set OwnerConn 60000 c t auth_db (Some sample_header) r
    = (Inr (n_id auth_node, ''org_a''), (nonce_key (n_id auth_node) ''n1'', t + 120000) # r)"
proof -
  have u: "isUuid (n_id auth_node)" "toLowerCase (n_id auth_node) = n_id auth_node"
    "CHR ''.'' \<notin> set (n_id auth_node)" by code_simp+
  have h: "node_header (Some sample_header) = Inr (n_id auth_node, ''60000'', ''n1'', ''sig'')"
    using u by (simp add: sample_header_def node_header_Inr)
  have w: "\<not> \<bar>js_sub (of_int c) 60000\<bar> > 60000"
  proof -
    have "(of_int \<bar>c - 60000\<bar> :: rat) \<le> of_int 60000" using assms(2) by (simp only: of_int_le_iff)
    then show ?thesis using sample_sub [OF assms(1)] by simp
  qed
  have "js_mul 60000 2 = 120000" using fl_of_int [of 120000] by (simp add: js_mul_def)
  moreover have "BigInt 120000 = Some 120000" using BigInt_of_int [of 120000] by simp
  moreover have "sql_select OwnerConn n_orgId (\<lambda>n. n_id n = n_id auth_node) (t_nodes auth_db) = [auth_node]"
    "n_orgId auth_node = ''org_a''"
    by (simp_all add: sql_select_def org_isolation_def auth_db_def auth_node_def)
  ultimately show ?thesis
    using h w u assms(3)
    by (simp add: authenticateNode_def sample_number toKeyObject_def sample_verify_def sample_base64_def
        px_set_def op_bind_def)
qed

theorem authenticate_sound_witness:
  "\<exists>r'. authenticateNode Some sample_verify sample_base64 px_set OwnerConn 60000 50000 50001 auth_db (Some sample_header) []
      = (Inr (n_id auth_node, ''org_a''), r')
    \<and> (\<exists>millis t. js_Number millis = Finite t \<and> \<bar>js_sub (of_int 50000) t\<bar> \<le> 60000)"
proof -
  have a: "authenticateNode Some sample_verify sample_base64 px_set OwnerConn 60000 50000 50001 auth_db (Some sample_header) []
      = (Inr (n_id auth_node, ''org_a''), [(nonce_key (n_id auth_node) ''n1'', 50001 + 120000)])"
    by (rule sample_auth) (simp_all add: px_live_def)
  show ?thesis using authenticate_sound [OF a] a by blast
qed

theorem authenticate_refuses_witness:
  "authenticateNode Some sample_verify sample_base64 px_set OwnerConn 60000 0 0 auth_db None []
      = (Inl (ConnectError ''missing node authorization header'' Unauthenticated), [])"
proof -
  have a: "authenticateNode Some sample_verify sample_base64 px_set OwnerConn 60000 0 0 auth_db None []
      = (Inl (ConnectError ''missing node authorization header'' Unauthenticated), [])"
    by (simp add: authenticateNode_def node_header_def NodeAuthError_def)
  show ?thesis using authenticate_refuses [OF a] a by blast
qed

theorem authenticate_accepts_witness:
  "authenticateNode Some sample_verify sample_base64 px_set OwnerConn 60000 50000 50001 auth_db
      (Some (auth_header (n_id auth_node) ''60000'' ''n1'' ''sig'')) []
    = (Inr (n_id auth_node, n_orgId auth_node), [(nonce_key (n_id auth_node) ''n1'', 50001 + 120000)])"
proof (rule authenticate_accepts [OF auth_db_wf, where t = 60000 and key = "SPKI_ED25519_PREFIX @ n_publicKey auth_node"])
  show "isUuid (n_id auth_node)" "toLowerCase (n_id auth_node) = n_id auth_node"
    "CHR ''.'' \<notin> set (n_id auth_node) \<union> set ''60000'' \<union> set ''n1'' \<union> set ''sig''" by code_simp+
  show "\<bar>js_sub (of_int 50000) 60000\<bar> \<le> 60000" using sample_sub [of 50000] by simp
  have "js_mul 60000 2 = 120000" using fl_of_int [of 120000] by (simp add: js_mul_def)
  moreover have "BigInt 120000 = Some 120000" using BigInt_of_int [of 120000] by simp
  ultimately show "px_set 50001 (nonce_key (n_id auth_node) ''n1'') ''1'' (js_mul 60000 2) [] =
    (Inr (Some ''OK''), [(nonce_key (n_id auth_node) ''n1'', 50001 + 120000)])"
    by (simp add: px_set_def px_live_def)
qed (simp_all add: auth_db_def sample_number toKeyObject_def sample_verify_def sample_base64_def)

section \<open>At the edge of the window\<close>

definition early :: attempt where
  "early = \<lparr>a_checked = 0, a_stored = 0, a_db = auth_db, a_header = Some sample_header\<rparr>"

definition late :: attempt where
  "late = \<lparr>a_checked = 120000, a_stored = 120001, a_db = auth_db, a_header = Some sample_header\<rparr>"

text \<open>The bounds of both properties are met: a header dated one skew ahead is accepted at once, and again two
  skews later when a millisecond passes between the timestamp test and the nonce write.\<close>

theorem replay_refused_witness:
  "2 * 60000 \<le> a_stored late - a_stored early \<and> a_checked late - a_checked early \<le> 2 * 60000
     \<and> a_stored early - a_checked early \<le> a_stored late - a_checked late"
proof -
  have acc: "accepted (Some sample_header) (auth_run Some sample_verify sample_base64 px_set OwnerConn 60000 [early, late] [])
     = [] @ [early] @ [] @ [late] @ []"
    using sample_auth [of 0 "[]" 0] sample_auth [of 120000 "[(nonce_key (n_id auth_node) ''n1'', 120000)]" 120001]
    by (simp add: early_def late_def accepted_def px_live_def)
  show ?thesis
    by (rule replay_refused [OF px.nonce_store_axioms _ _ _ _ acc]) (simp_all add: early_def late_def)
qed

theorem second_use_exact_witness:
  "\<exists>r1. authenticateNode Some sample_verify sample_base64 px_set OwnerConn 60000 0 0 auth_db (Some sample_header) []
      = (Inr (n_id auth_node, ''org_a''), r1)
    \<and> fst (authenticateNode Some sample_verify sample_base64 px_set OwnerConn 60000 120000 119999 auth_db (Some sample_header) r1)
      = Inl (NodeAuthError ''replayed authorization header'')
    \<and> fst (authenticateNode Some sample_verify sample_base64 px_set OwnerConn 60000 120000 120001 auth_db (Some sample_header) r1)
      = Inr (n_id auth_node, ''org_a'')"
proof -
  let ?r1 = "[(nonce_key (n_id auth_node) ''n1'', 0 + 120000 :: int)]"
  have a: "authenticateNode Some sample_verify sample_base64 px_set OwnerConn 60000 0 0 auth_db (Some sample_header) []
      = (Inr (n_id auth_node, ''org_a''), ?r1)"
    by (rule sample_auth) (simp_all add: px_live_def)
  have "isUuid (n_id auth_node)" "CHR ''.'' \<notin> set (n_id auth_node)" by code_simp+
  then have "node_header (Some sample_header) = Inr (n_id auth_node, ''60000'', ''n1'', ''sig'')"
    by (simp add: sample_header_def node_header_Inr)
  then have date: "t = 60000" if "node_header (Some sample_header) = Inr (n_id auth_node, m, c, g)" "js_Number m = Finite t" for m c g t
    using that sample_number by simp
  have w: "\<bar>js_sub (of_int 120000) 60000\<bar> \<le> 60000" using sample_sub [of 120000] by simp
  have "fst (authenticateNode Some sample_verify sample_base64 px_set OwnerConn 60000 120000 119999 auth_db (Some sample_header) ?r1)
      = Inl (NodeAuthError ''replayed authorization header'')"
    using second_use_exact [OF px.expiring_store_axioms _ _ _ a _ refl, of 60000 119999 120000] date w by fastforce
  moreover have "fst (authenticateNode Some sample_verify sample_base64 px_set OwnerConn 60000 120000 120001 auth_db (Some sample_header) ?r1)
      = Inr (n_id auth_node, ''org_a'')"
    using second_use_exact [OF px.expiring_store_axioms _ _ _ a _ refl, of 60000 120001 120000] date w by fastforce
  ultimately show ?thesis using a by blast
qed

end
