(* ===== verification/Tenancy.thy ===== *)
theory Tenancy
  imports Database
begin

text \<open>
  Tenant isolation, the contract of \<open>withOrg\<close> and the policies (\<open>docs/codebase.md\<close>, section 5).
  \<open>outside o s\<close> is what the database holds besides the rows of organization \<open>o\<close>, \<open>inside o s\<close>
  only those rows. An operation is \<^emph>\<open>framed\<close> by an organization when it leaves the outside as it
  was, and \<^emph>\<open>confined\<close> to it when its result and its effect on the inside depend on the inside
  alone. Both are shown once for every table with a policy (locale \<open>org_table\<close>) and compose
  over the operation combinators; \<open>org_scoped\<close> and \<open>org_confined\<close> are the contracts a request
  handler states.
\<close>

section \<open>The two sides of the database\<close>

definition outside :: "string \<Rightarrow> db \<Rightarrow> db" where
  "outside org s = s\<lparr>t_nodes := filter (\<lambda>r. n_orgId r \<noteq> org) (t_nodes s),
                    t_devices := filter (\<lambda>r. d_orgId r \<noteq> org) (t_devices s),
                    t_pairing := filter (\<lambda>r. p_orgId r \<noteq> org) (t_pairing s)\<rparr>"

definition inside :: "string \<Rightarrow> db \<Rightarrow> db" where
  "inside org s = s\<lparr>t_organization := [],
                   t_nodes := filter (\<lambda>r. n_orgId r = org) (t_nodes s),
                   t_devices := filter (\<lambda>r. d_orgId r = org) (t_devices s),
                   t_pairing := filter (\<lambda>r. p_orgId r = org) (t_pairing s)\<rparr>"

definition confined :: "string \<Rightarrow> (db, 'e, 'a) op \<Rightarrow> bool" where
  "confined org m \<longleftrightarrow> (\<forall>s s'. inside org s = inside org s' \<longrightarrow>
     fst (m s) = fst (m s') \<and> inside org (snd (m s)) = inside org (snd (m s')))"

lemma outside_eq_iff:
  "outside org s = outside org s' \<longleftrightarrow>
     t_organization s = t_organization s'
     \<and> filter (\<lambda>r. n_orgId r \<noteq> org) (t_nodes s) = filter (\<lambda>r. n_orgId r \<noteq> org) (t_nodes s')
     \<and> filter (\<lambda>r. d_orgId r \<noteq> org) (t_devices s) = filter (\<lambda>r. d_orgId r \<noteq> org) (t_devices s')
     \<and> filter (\<lambda>r. p_orgId r \<noteq> org) (t_pairing s) = filter (\<lambda>r. p_orgId r \<noteq> org) (t_pairing s')"
  by (cases s; cases s') (auto simp: outside_def)

lemma inside_eq_iff:
  "inside org s = inside org s' \<longleftrightarrow>
     filter (\<lambda>r. n_orgId r = org) (t_nodes s) = filter (\<lambda>r. n_orgId r = org) (t_nodes s')
     \<and> filter (\<lambda>r. d_orgId r = org) (t_devices s) = filter (\<lambda>r. d_orgId r = org) (t_devices s')
     \<and> filter (\<lambda>r. p_orgId r = org) (t_pairing s) = filter (\<lambda>r. p_orgId r = org) (t_pairing s')"
  by (cases s; cases s') (auto simp: inside_def)

lemma filter_org_swap:
  "org' \<noteq> org \<Longrightarrow> filter (\<lambda>r. f r = org') (filter (\<lambda>r. f r \<noteq> org) t) = filter (\<lambda>r. f r = org') t"
  by (auto intro!: filter_cong)

text \<open>Another organization's rows lie outside.\<close>

lemma outside_inside: "outside org s = outside org s' \<Longrightarrow> org' \<noteq> org \<Longrightarrow> inside org' s = inside org' s'"
proof -
  assume eq: "outside org s = outside org s'" and ne: "org' \<noteq> org"
  have "inside org' (outside org u) = inside org' u" for u
    by (simp add: inside_def outside_def filter_org_swap ne del: filter_filter)
  then show ?thesis using eq by metis
qed

lemma preserves_outside_inside:
  "preserves (outside org) m \<Longrightarrow> org' \<noteq> org \<Longrightarrow> preserves (inside org') m"
  unfolding preserves_def by (meson outside_inside)

lemma outside_organization: "outside org s = outside org s' \<Longrightarrow> t_organization s = t_organization s'"
  by (simp add: outside_eq_iff)

section \<open>Confinement composes\<close>

lemma confinedD:
  assumes "confined org m" and "inside org s = inside org s'" and "m s = (r, t)" and "m s' = (r', t')"
  shows "r = r'" and "inside org t = inside org t'"
  using assms unfolding confined_def by (metis fst_conv, metis snd_conv)

lemma confinedI:
  "(\<And>s s' r t r' t'. inside org s = inside org s' \<Longrightarrow> m s = (r, t) \<Longrightarrow> m s' = (r', t') \<Longrightarrow>
      r = r' \<and> inside org t = inside org t') \<Longrightarrow> confined org m"
  unfolding confined_def by (metis prod.collapse)

lemma confined_return [simp, intro]: "confined org (op_return x)"
  by (simp add: confined_def)

lemma confined_throw [simp, intro]: "confined org (op_throw e)"
  by (simp add: confined_def)

lemma confined_lift [simp, intro]: "confined org (op_lift r)"
  by (simp add: confined_def)

lemma confined_check [simp, intro]: "confined org (pg_check r)"
  by (cases r) (simp_all add: pg_check_def)

lemma confined_get:
  "(\<And>s s'. inside org s = inside org s' \<Longrightarrow> f s = f s') \<Longrightarrow> confined org (op_get f)"
  unfolding confined_def op_get_apply fst_conv snd_conv by blast

lemma confined_bind [intro]:
  assumes "confined org m" and "\<And>x. confined org (f x)"
  shows "confined org (op_bind m f)"
proof (rule confinedI)
  fix s s' r t r' t'
  assume eq: "inside org s = inside org s'"
    and r: "op_bind m f s = (r, t)" and r': "op_bind m f s' = (r', t')"
  obtain x u x' u' where m: "m s = (x, u)" "m s' = (x', u')" by (metis prod.collapse)
  note 1 = confinedD [OF assms(1) eq m]
  show "r = r' \<and> inside org t = inside org t'"
  proof (cases x)
    case (Inl e)
    then show ?thesis using 1 m r r' by simp
  next
    case (Inr y)
    then have "f y u = (r, t)" and "f y u' = (r', t')" using 1 m r r' by simp_all
    then show ?thesis using confinedD [OF assms(2) 1(2)] by blast
  qed
qed

lemma confined_for [intro]:
  "(\<And>x. x \<in> set xs \<Longrightarrow> confined org (f x)) \<Longrightarrow> confined org (op_for xs f)"
  by (induction xs) auto

lemma confined_transaction [intro]: "confined org m \<Longrightarrow> confined org (transaction m)"
proof (rule confinedI)
  fix s s' r t r' t'
  assume c: "confined org m" and eq: "inside org s = inside org s'"
    and r: "transaction m s = (r, t)" and r': "transaction m s' = (r', t')"
  obtain x u x' u' where m: "m s = (x, u)" "m s' = (x', u')" by (metis prod.collapse)
  note 1 = confinedD [OF c eq m]
  show "r = r' \<and> inside org t = inside org t'"
    using 1 m r r' eq by (cases x) (auto simp: transaction_def)
qed

section \<open>A table with a policy\<close>

text \<open>
  The interface between the statements and the tables: reading and writing one table of the
  database, and how that table takes part in the two sides of an organization.
\<close>

locale org_table =
  fixes org_of :: "'r \<Rightarrow> string"
    and get :: "db \<Rightarrow> 'r list"
    and put :: "'r list \<Rightarrow> db \<Rightarrow> db"
  assumes get_put: "get (put t s) = t"
    and outside_put: "filter (\<lambda>r. org_of r \<noteq> org) t = filter (\<lambda>r. org_of r \<noteq> org) (get s) \<Longrightarrow>
          outside org (put t s) = outside org s"
    and inside_get: "inside org s = inside org s' \<Longrightarrow>
          filter (\<lambda>r. org_of r = org) (get s) = filter (\<lambda>r. org_of r = org) (get s')"
    and inside_put: "inside org s = inside org s' \<Longrightarrow>
          filter (\<lambda>r. org_of r = org) t = filter (\<lambda>r. org_of r = org) t' \<Longrightarrow>
          inside org (put t s) = inside org (put t' s')"
begin

lemma select_app:
  "sql_select (AppConn (Some org)) org_of P t = filter P (filter (\<lambda>r. org_of r = org) t)"
  by (simp add: sql_select_def org_isolation_def)

lemma select_confined:
  "inside org s = inside org s' \<Longrightarrow>
     sql_select (AppConn (Some org)) org_of P (get s) = sql_select (AppConn (Some org)) org_of P (get s')"
  unfolding select_app by (rule arg_cong [OF inside_get])

lemma select_without_org: "sql_select (AppConn None) org_of P t = []"
  by (simp add: sql_select_def org_isolation_def)

lemma update_frame: "preserves (outside org) (on_table get put (sql_update (AppConn (Some org)) org_of P f))"
proof -
  let ?c = "AppConn (Some org)"
  let ?g = "\<lambda>r. if org_isolation ?c (org_of r) \<and> P r then f r else r"
  have "filter (\<lambda>r. org_of r \<noteq> org) (map ?g t) = filter (\<lambda>r. org_of r \<noteq> org) t"
    if "list_all (\<lambda>r. org_isolation ?c (org_of r) \<and> P r \<longrightarrow> org_isolation ?c (org_of (f r))) t" for t
    using that by (induction t) (auto simp: org_isolation_def)
  then show ?thesis
    by (auto simp: preserves_def on_table_def sql_update_def Let_def intro!: outside_put)
qed

lemma delete_frame: "preserves (outside org) (on_table get put (sql_delete (AppConn (Some org)) org_of P))"
proof -
  have "filter (\<lambda>r. org_of r \<noteq> org) (filter (\<lambda>r. \<not> (org_of r = org \<and> P r)) t)
      = filter (\<lambda>r. org_of r \<noteq> org) t" for t
    by (induction t) auto
  then show ?thesis
    by (simp add: preserves_def on_table_def sql_delete_def org_isolation_def outside_put
        del: filter_filter)
qed

lemma update_confined: "confined org (on_table get put (sql_update (AppConn (Some org)) org_of P f))"
proof (rule confinedI)
  fix s s' r t r' t'
  let ?c = "AppConn (Some org)"
  let ?hit = "\<lambda>r. org_isolation ?c (org_of r) \<and> P r"
  let ?ok = "list_all (\<lambda>r. ?hit r \<longrightarrow> org_isolation ?c (org_of (f r)))"
  let ?g = "\<lambda>r. if ?hit r then f r else r"
  assume eq: "inside org s = inside org s'"
    and 1: "on_table get put (sql_update ?c org_of P f) s = (r, t)"
    and 2: "on_table get put (sql_update ?c org_of P f) s' = (r', t')"
  note g = inside_get [OF eq]
  have ok: "?ok u \<longleftrightarrow> ?ok (filter (\<lambda>r. org_of r = org) u)" for u
    by (auto simp: list_all_iff org_isolation_def)
  have hits: "filter ?hit u = filter ?hit (filter (\<lambda>r. org_of r = org) u)" for u
    by (auto simp: org_isolation_def intro!: filter_cong)
  have map: "filter (\<lambda>r. org_of r = org) (map ?g u) = map ?g (filter (\<lambda>r. org_of r = org) u)"
    if "?ok u" for u
    using that by (induction u) (auto simp: org_isolation_def)
  have oks: "?ok (get s) = ?ok (get s')" by (simp only: ok [of "get s"] ok [of "get s'"] g)
  show "r = r' \<and> inside org t = inside org t'"
  proof (cases "?ok (get s)")
    case True
    then have True': "?ok (get s')" using oks by simp
    have "filter ?hit (get s) = filter ?hit (get s')" by (simp only: hits [of "get s"] hits [of "get s'"] g)
    moreover have "inside org (put (map ?g (get s)) s) = inside org (put (map ?g (get s')) s')"
      by (rule inside_put [OF eq]) (simp only: map [OF True] map [OF True'] g)
    ultimately show ?thesis
      using 1 2 True True' by (auto simp: on_table_def sql_update_def Let_def)
  next
    case False
    then have "\<not> ?ok (get s')" using oks by simp
    with False show ?thesis
      using 1 2 eq by (auto simp: on_table_def sql_update_def Let_def)
  qed
qed

end

interpretation nodes_tbl: org_table n_orgId t_nodes "\<lambda>t s. s\<lparr>t_nodes := t\<rparr>"
  by unfold_locales (auto simp: outside_eq_iff inside_eq_iff)

interpretation devices_tbl: org_table d_orgId t_devices "\<lambda>t s. s\<lparr>t_devices := t\<rparr>"
  by unfold_locales (auto simp: outside_eq_iff inside_eq_iff)

interpretation pairing_tbl: org_table p_orgId t_pairing "\<lambda>t s. s\<lparr>t_pairing := t\<rparr>"
  by unfold_locales (auto simp: outside_eq_iff inside_eq_iff)

section \<open>The statements of the program are framed by the organization that runs them\<close>

lemma frame_check [simp, intro, frame_intros]: "preserves v (pg_check r)"
  by (cases r) (simp_all add: pg_check_def)

lemma frame_insert_node [frame_intros]: "preserves (outside org) (insert_node (AppConn (Some org)) row)"
  by (auto simp: preserves_def insert_node_def org_isolation_def outside_eq_iff)

lemma frame_insert_pairing [frame_intros]:
  "preserves (outside org) (insert_pairing_code (AppConn (Some org)) row)"
  by (auto simp: preserves_def insert_pairing_code_def org_isolation_def outside_eq_iff)

lemma frame_upsert_device [frame_intros]:
  assumes "\<And>d. d_orgId (g d) = d_orgId d"
  shows "preserves (outside org) (upsert_device (AppConn (Some org)) row g)"
proof -
  have "filter (\<lambda>r. d_orgId r \<noteq> org) (map (\<lambda>d. if same_device row d then g d else d) t)
      = filter (\<lambda>r. d_orgId r \<noteq> org) t"
    if "list_all (\<lambda>d. same_device row d \<longrightarrow> d_orgId d = org) t" for t
    using that assms by (induction t) auto
  then show ?thesis
    by (simp add: preserves_def upsert_device_def org_isolation_def outside_eq_iff assms)
qed

lemmas [frame_intros] =
  nodes_tbl.update_frame devices_tbl.update_frame pairing_tbl.update_frame
  nodes_tbl.delete_frame devices_tbl.delete_frame pairing_tbl.delete_frame
  preserves_bind preserves_for preserves_transaction preserves_return preserves_throw preserves_get preserves_lift

lemma frame_withOrg [frame_intros]:
  "preserves (outside org) (fn (AppConn (Some org))) \<Longrightarrow> preserves (outside org) (withOrg org fn)"
  unfolding withOrg_def by (rule preserves_transaction)

lemma confined_withOrg: "confined org (fn (AppConn (Some org))) \<Longrightarrow> confined org (withOrg org fn)"
  unfolding withOrg_def by (rule confined_transaction)

section \<open>Contracts of a request handler\<close>

locale org_scoped =
  fixes handler :: "string \<Rightarrow> (db, error, 'a) op"
  assumes frame: "preserves (outside org) (handler org)"
begin

lemma other_org_untouched: "org' \<noteq> org \<Longrightarrow> inside org' (snd (handler org s)) = inside org' s"
  using preserves_outside_inside [OF frame] by (simp add: preserves_def)

lemma organizations_untouched: "t_organization (snd (handler org s)) = t_organization s"
  using frame by (metis outside_organization preserves_def)

end

locale org_confined = org_scoped +
  assumes handler_confined: "confined org (handler org)"
begin

text \<open>What the handler answers does not depend on any other organization's rows.\<close>

lemma blind: "inside org s = inside org s' \<Longrightarrow> fst (handler org s) = fst (handler org s')"
  using handler_confined unfolding confined_def by blast

end

end
