(* ===== verification/Pairing.thy ===== *)
theory Pairing
  imports Integrity Tenancy
begin

text \<open>
  Pairing codes: \<open>apps/control-plane/src/domain/pairing.ts\<close>. The keyed hash
  (\<open>createHmac("sha256", pepper)\<close>) and the outcomes of \<open>randomInt\<close> are parameters; so is the
  connection \<open>owner\<close> behind \<open>ownerDb\<close>. Every clock reading is an argument of its own.
  \<open>spec_redeem\<close> is the contract of a redemption over an abstract registry of codes, and
  \<open>redeem_refines\<close> shows that the statements of the code implement it. The locale
  \<open>single_use\<close> states what enrollment relies on: a code that has been redeemed stays spent.
\<close>

section \<open>The component\<close>

definition ALPHABET :: string where
  "ALPHABET = ''ABCDEFGHJKLMNPQRSTUVWXYZ23456789''"

text \<open>\<open>ri k\<close> is the value of the \<open>k\<close>-th call of \<open>randomInt(ALPHABET.length)\<close>.\<close>

definition pick :: "(nat \<Rightarrow> nat) \<Rightarrow> nat \<Rightarrow> string" where
  "pick ri from = map (\<lambda>k. ALPHABET ! ri k) [from ..< from + 4]"

definition generateCode :: "(nat \<Rightarrow> nat) \<Rightarrow> string" where
  "generateCode ri = pick ri 0 @ ''-'' @ pick ri 4"

text \<open>\<open>/[^A-Z0-9]/g\<close> removed after \<open>toUpperCase\<close>.\<close>

definition code_char :: "char \<Rightarrow> bool" where
  "code_char c \<longleftrightarrow> is_upper c \<or> is_digit c"

definition normalize :: "string \<Rightarrow> string" where
  "normalize code = filter code_char (toUpperCase code)"

definition hashCode :: "(string \<Rightarrow> string \<Rightarrow> string) \<Rightarrow> string \<Rightarrow> string \<Rightarrow> string" where
  "hashCode hmac pepper code = hmac pepper (normalize code)"

text \<open>
  \<open>fresh\<close> is the uuid the column default generates and \<open>created\<close> the server's \<open>now()\<close>;
  \<open>now\<close> is \<open>Date.now()\<close> and \<open>ttl\<close> is \<open>PAIRING_CODE_TTL_MS\<close>.
\<close>

definition mintPairingCode ::
  "(string \<Rightarrow> string \<Rightarrow> string) \<Rightarrow> string \<Rightarrow> number \<Rightarrow> (nat \<Rightarrow> nat) \<Rightarrow> uuid \<Rightarrow> millis \<Rightarrow> millis
   \<Rightarrow> string \<Rightarrow> string \<Rightarrow> string \<Rightarrow> (db, error, string \<times> millis) op" where
  "mintPairingCode hmac pepper ttl ri fresh created now orgId userId nodeName =
     (let code = generateCode ri in
      case new_Date (js_add (of_int now) ttl) of
        None \<Rightarrow> op_throw RangeError
      | Some expiresAt \<Rightarrow>
          op_bind
            (withOrg orgId (\<lambda>tx.
               op_bind (pg_check (check_columns [orgId, nodeName, userId] [] []))
                 (\<lambda>_. op_bind (pg_check (pg_timestamp expiresAt)) (\<lambda>_. insert_pairing_code tx
                    \<lparr>p_id = fresh, p_orgId = orgId, p_codeHash = hashCode hmac pepper code,
                     p_nodeName = nodeName, p_createdBy = userId, p_expiresAt = expiresAt,
                     p_usedAt = None, p_usedByNodeId = None, p_createdAt = created\<rparr>))))
            (\<lambda>_. op_return (code, expiresAt)))"

text \<open>\<open>claimed\<close> is the \<open>new Date()\<close> written to \<open>used_at\<close>, \<open>checked\<close> the \<open>Date.now()\<close> of the expiry test.\<close>

definition redeemPairingCode ::
  "conn \<Rightarrow> (string \<Rightarrow> string \<Rightarrow> string) \<Rightarrow> string \<Rightarrow> millis \<Rightarrow> millis \<Rightarrow> string
   \<Rightarrow> (db, error, string \<times> string) op" where
  "redeemPairingCode owner hmac pepper claimed checked code =
     (let hash = hashCode hmac pepper code in
      op_bind
        (on_pairing (sql_update owner p_orgId
           (\<lambda>r. p_codeHash r = hash \<and> p_usedAt r = None) (\<lambda>r. r\<lparr>p_usedAt := Some claimed\<rparr>)))
        (\<lambda>rows. case first_row rows of
           None \<Rightarrow>
             op_bind (op_get (\<lambda>s. first_row (sql_select owner p_orgId (\<lambda>r. p_codeHash r = hash) (t_pairing s))))
               (\<lambda>existing. op_throw (PairingCodeError
                  (if existing \<noteq> None then ''pairing code already used'' else ''unknown pairing code'')))
         | Some row \<Rightarrow>
             if p_expiresAt row < checked then
               op_bind
                 (on_pairing (sql_update owner p_orgId (\<lambda>r. p_id r = p_id row) (\<lambda>r. r\<lparr>p_usedAt := None\<rparr>)))
                 (\<lambda>_. op_throw (PairingCodeError ''pairing code expired''))
             else op_return (p_orgId row, p_nodeName row)))"

section \<open>Spelling a code\<close>

lemma of_char_char_of: "n < 256 \<Longrightarrow> of_char (char_of n) = (n :: nat)"
  by (simp add: of_char_of)

lemma upper_lower_char: "upper_char (lower_char c) = upper_char c"
proof -
  let ?n = "of_char c :: nat"
  consider (upper) "is_upper c" | (latin) "192 \<le> ?n" "?n \<le> 222" "?n \<noteq> 215"
    | (other) "lower_char c = c"
    unfolding lower_char_def Let_def by meson
  then show ?thesis
  proof cases
    case upper
    then have n: "65 \<le> ?n" "?n \<le> 90" by (simp_all add: is_upper_def in_range_def)
    then have "of_char (lower_char c) = ?n + 32"
      using upper by (simp add: lower_char_def of_char_char_of)
    with n show ?thesis by (simp add: upper_char_def is_lower_def in_range_def)
  next
    case latin
    then have "of_char (lower_char c) = ?n + 32"
      by (simp add: lower_char_def of_char_char_of)
    with latin show ?thesis by (simp add: upper_char_def is_lower_def in_range_def)
  next
    case other
    then show ?thesis by simp
  qed
qed

lemma normalize_append: "normalize (a @ b) = normalize a @ normalize b"
  by (simp add: normalize_def toUpperCase_def)

lemma normalize_Cons: "normalize (c # s) = normalize [c] @ normalize s"
  using normalize_append [of "[c]" s] by simp

lemma normalize_Nil [simp]: "normalize [] = []"
  by (simp add: normalize_def toUpperCase_def)

lemma normalize_lower: "normalize (toLowerCase s) = normalize s"
  by (induction s)
    (simp_all add: normalize_def toUpperCase_def toLowerCase_def upper_lower_char)

lemma normalize_char: "code_char c \<Longrightarrow> normalize [c] = [c]"
  by (auto simp: normalize_def toUpperCase_def upper_char_def code_char_def is_lower_def
      is_upper_def is_digit_def in_range_def Let_def)

lemma normalize_other: "\<not> code_char c \<Longrightarrow> \<not> is_lower c \<Longrightarrow> of_char c \<noteq> (223 :: nat) \<Longrightarrow> normalize [c] = []"
proof -
  assume a: "\<not> code_char c" "\<not> is_lower c" "of_char c \<noteq> (223 :: nat)"
  let ?n = "of_char c :: nat"
  show ?thesis
  proof (cases "224 \<le> ?n \<and> ?n \<le> 254 \<and> ?n \<noteq> 247")
    case True
    then have "?n - 32 < 256" by linarith
    then have "of_char (char_of (?n - 32) :: char) = ?n - 32" by (rule of_char_char_of)
    with True a show ?thesis
      by (simp add: normalize_def toUpperCase_def upper_char_def code_char_def is_upper_def
          is_digit_def in_range_def) linarith
  next
    case False
    with a have "upper_char c = [c]" unfolding upper_char_def Let_def by presburger
    with a show ?thesis by (simp add: normalize_def toUpperCase_def)
  qed
qed

lemma normalize_code_chars: "list_all code_char s \<Longrightarrow> normalize s = s"
proof (induction s)
  case (Cons c s)
  then show ?case using normalize_Cons [of c s] normalize_char [of c] by simp
qed simp

text \<open>A typed spelling of a code: the same letters in either case, separators anywhere.\<close>

definition separator :: "char \<Rightarrow> bool" where
  "separator c \<longleftrightarrow> c \<in> {CHR ''-'', CHR '' ''}"

lemma normalize_separators: "normalize (filter (\<lambda>c. \<not> separator c) s) = normalize s"
proof (induction s)
  case (Cons c s)
  have "separator c \<Longrightarrow> normalize [c] = []"
    by (intro normalize_other)
      (auto simp: separator_def code_char_def is_upper_def is_digit_def is_lower_def in_range_def)
  with Cons show ?case
    using normalize_Cons [of c s] normalize_Cons [of c "filter (\<lambda>c. \<not> separator c) s"] by simp
qed simp

lemma alphabet_chars: "i < 32 \<Longrightarrow> code_char (ALPHABET ! i)"
proof -
  assume "i < 32"
  then have "ALPHABET ! i \<in> set ALPHABET" by (intro nth_mem) (simp add: ALPHABET_def)
  moreover have "list_all code_char ALPHABET"
    by (simp add: ALPHABET_def code_char_def is_upper_def is_digit_def in_range_def)
  ultimately show ?thesis by (simp add: list_all_iff)
qed

lemma normalize_generated:
  assumes "\<And>k. ri k < 32"
  shows "normalize (generateCode ri) = pick ri 0 @ pick ri 4"
proof -
  have p: "list_all code_char (pick ri m)" for m
    using assms by (simp add: pick_def list_all_iff alphabet_chars)
  have "normalize ''-'' = []"
    by (rule normalize_other) (simp_all add: code_char_def is_upper_def is_digit_def is_lower_def in_range_def)
  then show ?thesis
    using p by (simp add: generateCode_def normalize_append normalize_code_chars
        normalize_Cons [of "CHR ''-''" "pick ri 4"])
qed

section \<open>Redemption against an abstract registry\<close>

text \<open>
  The registry a redemption works on: which organization and name a code stands for, when it
  expires and whether it has been used. \<open>registry\<close> reads it off the stored rows.
\<close>

record entry =
  e_org :: string
  e_name :: string
  e_expires :: millis
  e_used :: bool

definition entry_of :: "pairing_row \<Rightarrow> entry" where
  "entry_of r = \<lparr>e_org = p_orgId r, e_name = p_nodeName r, e_expires = p_expiresAt r,
                 e_used = (p_usedAt r \<noteq> None)\<rparr>"

definition registry :: "db \<Rightarrow> string \<Rightarrow> entry option" where
  "registry s h = map_option entry_of (first_row (filter (\<lambda>r. p_codeHash r = h) (t_pairing s)))"

definition spec_redeem :: "millis \<Rightarrow> string \<Rightarrow> (string \<Rightarrow> entry option)
    \<Rightarrow> (error + string \<times> string) \<times> (string \<Rightarrow> entry option)" where
  "spec_redeem now h reg =
     (case reg h of
        None \<Rightarrow> (Inl (PairingCodeError ''unknown pairing code''), reg)
      | Some e \<Rightarrow>
          if e_used e then (Inl (PairingCodeError ''pairing code already used''), reg)
          else if e_expires e < now then (Inl (PairingCodeError ''pairing code expired''), reg)
          else (Inr (e_org e, e_name e), reg(h := Some (e\<lparr>e_used := True\<rparr>))))"

lemma owner_hits [simp]: "org_isolation OwnerConn x"
  by (simp add: org_isolation_def)

lemma owner_update:
  "on_pairing (sql_update OwnerConn p_orgId P f) s =
     (Inr (map f (filter P (t_pairing s))),
      s\<lparr>t_pairing := map (\<lambda>r. if P r then f r else r) (t_pairing s)\<rparr>)"
  by (simp add: on_table_def sql_update_def list_all_iff)

lemma hash_rows:
  assumes "wf_db s"
  obtains (none) "filter (\<lambda>r. p_codeHash r = h) (t_pairing s) = []"
    | (one) r where "filter (\<lambda>r. p_codeHash r = h) (t_pairing s) = [r]" "p_codeHash r = h" "r \<in> set (t_pairing s)"
proof (cases "filter (\<lambda>r. p_codeHash r = h) (t_pairing s)")
  case Nil
  then show ?thesis by (rule none)
next
  case (Cons r rs)
  then have "r \<in> set (filter (\<lambda>r. p_codeHash r = h) (t_pairing s))" by simp
  then have r: "r \<in> set (t_pairing s)" "p_codeHash r = h" by simp_all
  show ?thesis
    using distinct_map_filter_unique [OF wf_dbD(6) [OF assms] r(1)] r by (intro one [of r]) simp_all
qed

text \<open>One row of the table rewritten, selected by its unique hash.\<close>

definition set_used :: "string \<Rightarrow> millis option \<Rightarrow> db \<Rightarrow> db" where
  "set_used h u s =
     s\<lparr>t_pairing := map (\<lambda>r. if p_codeHash r = h then r\<lparr>p_usedAt := u\<rparr> else r) (t_pairing s)\<rparr>"

lemma set_used_same:
  "(\<And>r. r \<in> set (t_pairing s) \<Longrightarrow> p_codeHash r = h \<Longrightarrow> p_usedAt r = u) \<Longrightarrow> set_used h u s = s"
proof -
  assume a: "\<And>r. r \<in> set (t_pairing s) \<Longrightarrow> p_codeHash r = h \<Longrightarrow> p_usedAt r = u"
  have "map (\<lambda>r. if p_codeHash r = h then r\<lparr>p_usedAt := u\<rparr> else r) (t_pairing s) = t_pairing s"
    by (rule map_idI) (use a in auto)
  then show ?thesis by (simp add: set_used_def)
qed

lemma set_used_set_used: "set_used h u (set_used h v s) = set_used h u s"
  by (simp add: set_used_def comp_def)

lemma claim_nothing:
  assumes "filter (\<lambda>r. p_codeHash r = h \<and> p_usedAt r = None) (t_pairing s) = []"
  shows "s\<lparr>t_pairing := map (\<lambda>r. if p_codeHash r = h \<and> p_usedAt r = None
           then r\<lparr>p_usedAt := Some c\<rparr> else r) (t_pairing s)\<rparr> = s"
proof -
  have "map (\<lambda>r. if p_codeHash r = h \<and> p_usedAt r = None then r\<lparr>p_usedAt := Some c\<rparr> else r) (t_pairing s)
      = t_pairing s"
    using assms by (intro map_idI) (auto simp: filter_empty_conv)
  then show ?thesis by simp
qed

lemma claim_one:
  assumes "wf_db s" and "filter (\<lambda>r. p_codeHash r = h) (t_pairing s) = [r]" and "p_usedAt r = None"
  shows "s\<lparr>t_pairing := map (\<lambda>r. if p_codeHash r = h \<and> p_usedAt r = None
           then r\<lparr>p_usedAt := c\<rparr> else r) (t_pairing s)\<rparr> = set_used h c s"
proof -
  have "p_usedAt x = None" if "x \<in> set (t_pairing s)" "p_codeHash x = h" for x
  proof -
    have "x \<in> set (filter (\<lambda>r. p_codeHash r = h) (t_pairing s))" using that by simp
    then show ?thesis using assms(2,3) by simp
  qed
  then show ?thesis by (auto simp: set_used_def intro!: map_cong)
qed

lemma release_one:
  assumes wf: "wf_db s" and r: "r \<in> set (t_pairing s)" "p_codeHash r = h" "p_usedAt r = None"
  shows "(set_used h c s)\<lparr>t_pairing := map (\<lambda>x. if p_id x = p_id r then x\<lparr>p_usedAt := None\<rparr> else x)
           (t_pairing (set_used h c s))\<rparr> = s"
proof -
  have "(if p_id y = p_id r then y\<lparr>p_usedAt := None\<rparr> else y) = x"
    if "x \<in> set (t_pairing s)" "y = (if p_codeHash x = h then x\<lparr>p_usedAt := c\<rparr> else x)" for x y
  proof (cases "x = r")
    case True
    then show ?thesis using that(2) r by simp
  next
    case False
    then have "p_id x \<noteq> p_id r" "p_codeHash x \<noteq> h"
      using distinct_map_inj [OF wf_dbD(5) [OF wf] that(1) r(1)]
        wf_pairing_unique [OF wf that(1) r(1)] r(2) by auto
    then show ?thesis using that(2) by simp
  qed
  then have "map (\<lambda>x. if p_id x = p_id r then x\<lparr>p_usedAt := None\<rparr> else x)
      (t_pairing (set_used h c s)) = t_pairing s"
    unfolding set_used_def by (simp add: comp_def) (rule map_idI, simp)
  then show ?thesis by (simp add: set_used_def)
qed

lemma redeem_cases:
  assumes wf: "wf_db s" and h: "h = hashCode hmac pepper code"
  shows "redeemPairingCode OwnerConn hmac pepper claimed checked code s =
    (case first_row (filter (\<lambda>r. p_codeHash r = h) (t_pairing s)) of
       None \<Rightarrow> (Inl (PairingCodeError ''unknown pairing code''), s)
     | Some r \<Rightarrow>
         if p_usedAt r \<noteq> None then (Inl (PairingCodeError ''pairing code already used''), s)
         else if p_expiresAt r < checked then (Inl (PairingCodeError ''pairing code expired''), s)
         else (Inr (p_orgId r, p_nodeName r), set_used h (Some claimed) s))"
  using wf
proof (cases rule: hash_rows [where h = h])
  case none
  then have n: "filter (\<lambda>r. p_codeHash r = h \<and> p_usedAt r = None) (t_pairing s) = []"
    by (auto simp: filter_empty_conv)
  show ?thesis
    using none n claim_nothing [OF n]
    by (simp add: redeemPairingCode_def op_bind_def owner_update sql_select_def flip: h)
next
  case (one r)
  have f: "filter (\<lambda>r. p_codeHash r = h \<and> p_usedAt r = None) (t_pairing s)
      = filter (\<lambda>r. p_usedAt r = None) [r]"
    unfolding one(1) [symmetric] by (simp add: conj_commute)
  show ?thesis
  proof (cases "p_usedAt r = None")
    case False
    then have n: "filter (\<lambda>r. p_codeHash r = h \<and> p_usedAt r = None) (t_pairing s) = []"
      using f by simp
    show ?thesis
      using one n False claim_nothing [OF n]
      by (simp add: redeemPairingCode_def op_bind_def owner_update sql_select_def flip: h)
  next
    case True
    then have u: "filter (\<lambda>r. p_codeHash r = h \<and> p_usedAt r = None) (t_pairing s) = [r]"
      using f by simp
    show ?thesis
      using one u True claim_one [OF wf one(1) True] release_one [OF wf one(3,2) True]
      by (simp add: redeemPairingCode_def op_bind_def owner_update flip: h)
  qed
qed

lemma first_row_hash_set_used:
  "first_row (filter (\<lambda>r. p_codeHash r = k) (t_pairing (set_used h u s))) =
     map_option (\<lambda>r. if k = h then r\<lparr>p_usedAt := u\<rparr> else r)
       (first_row (filter (\<lambda>r. p_codeHash r = k) (t_pairing s)))"
proof -
  have "first_row (filter (\<lambda>r. p_codeHash r = k)
      (map (\<lambda>r. if p_codeHash r = h then r\<lparr>p_usedAt := u\<rparr> else r) t)) =
     map_option (\<lambda>r. if k = h then r\<lparr>p_usedAt := u\<rparr> else r)
       (first_row (filter (\<lambda>r. p_codeHash r = k) t))" for t
    by (induction t) auto
  then show ?thesis by (simp add: set_used_def)
qed

lemma entry_of_used: "entry_of (r\<lparr>p_usedAt := Some c\<rparr>) = entry_of r\<lparr>e_used := True\<rparr>"
  by (simp add: entry_of_def)

text \<open>(C2) A redemption does to the stored rows exactly what the contract says of the registry of
  codes: an unknown, an already used and an expired code are refused with their own message and
  change nothing (the claim of an expired code is released again), and only a live code yields
  the organization and name it was minted for and becomes used.\<close>

theorem redeem_refines:
  assumes "wf_db s"
  shows "(case redeemPairingCode OwnerConn hmac pepper claimed checked code s of
            (res, t) \<Rightarrow> (res, registry t))
         = spec_redeem checked (hashCode hmac pepper code) (registry s)"
proof -
  have reg: "registry (set_used h (Some c) s) = (registry s)(h := Some (entry_of r\<lparr>e_used := True\<rparr>))"
    if "first_row (filter (\<lambda>r. p_codeHash r = h) (t_pairing s)) = Some r" for h c r
  proof
    fix k
    show "registry (set_used h (Some c) s) k = ((registry s)(h := Some (entry_of r\<lparr>e_used := True\<rparr>))) k"
      by (cases "k = h")
        (simp_all add: registry_def first_row_hash_set_used that entry_of_used option.map_ident)
  qed
  show ?thesis
    using redeem_cases [OF assms refl, of hmac pepper claimed checked code]
      reg [of "hashCode hmac pepper code"]
    by (auto simp: spec_redeem_def registry_def entry_of_def split: option.splits)
qed

section \<open>A fleet with one organization and one code\<close>

definition demo_org :: organization_row where
  "demo_org = \<lparr>o_id = ''org_a'', o_name = ''Fleet'', o_slug = ''org_a'', o_logo = None,
     o_createdAt = 0, o_metadata = None\<rparr>"

definition demo_code :: pairing_row where
  "demo_code = \<lparr>p_id = ''c1'', p_orgId = ''org_a'', p_codeHash = ''ABCDEFGH'', p_nodeName = ''four-ninety'',
     p_createdBy = ''user_1'', p_expiresAt = 900000, p_usedAt = None, p_usedByNodeId = None,
     p_createdAt = 0\<rparr>"

definition demo_db :: db where
  "demo_db = \<lparr>t_organization = [demo_org], t_nodes = [], t_devices = [], t_pairing = [demo_code]\<rparr>"

text \<open>A stand-in for the keyed hash on this data: the normalized code itself.\<close>

definition demo_hmac :: "string \<Rightarrow> string \<Rightarrow> string" where
  "demo_hmac pepper text = text"

lemma demo_wf: "wf_db demo_db"
  by (simp add: demo_db_def demo_code_def demo_org_def wf_db_def wf_nodes_def wf_devices_def wf_pairing_def)

lemma demo_hash: "hashCode demo_hmac pepper ''abcd-efgh'' = ''ABCDEFGH''"
proof -
  have "normalize ''abcd-efgh'' = ''ABCDEFGH''" by code_simp
  then show ?thesis by (simp add: hashCode_def demo_hmac_def)
qed

theorem redeem_refines_witness:
  "fst (redeemPairingCode OwnerConn demo_hmac [] 1000 1000 ''abcd-efgh'' demo_db)
     = Inr (''org_a'', ''four-ninety'')"
  using redeem_refines [OF demo_wf, of demo_hmac "[]" 1000 1000 "''abcd-efgh''"]
  by (simp add: demo_hash spec_redeem_def registry_def demo_db_def demo_code_def entry_of_def
      split: prod.splits)

section \<open>A code is redeemed at most once\<close>

text \<open>The successful attempts of a sequence of redemptions, in order.\<close>

fun winners :: "('t \<Rightarrow> 'c \<Rightarrow> ('s, 'e, 'r) op) \<Rightarrow> ('t \<times> 'c) list \<Rightarrow> 's \<Rightarrow> ('c \<times> 'r) list" where
  "winners redeem [] s = []"
| "winners redeem ((t, c) # xs) s =
     (case redeem t c s of
        (Inl e, s') \<Rightarrow> winners redeem xs s'
      | (Inr r, s') \<Rightarrow> (c, r) # winners redeem xs s')"

locale single_use =
  fixes redeem :: "'t \<Rightarrow> 'c \<Rightarrow> ('s, 'e, 'r) op"
    and spent :: "'c \<Rightarrow> 's \<Rightarrow> bool"
    and same :: "'c \<Rightarrow> 'c \<Rightarrow> bool"
    and inv :: "'s \<Rightarrow> bool"
  assumes redeem_inv: "inv s \<Longrightarrow> redeem t c s = (x, s') \<Longrightarrow> inv s'"
    and redeem_spends: "inv s \<Longrightarrow> redeem t c s = (Inr r, s') \<Longrightarrow> same c c' \<Longrightarrow> spent c' s'"
    and spent_refused: "inv s \<Longrightarrow> spent c s \<Longrightarrow> redeem t c s \<noteq> (Inr r, s')"
    and spent_stays: "inv s \<Longrightarrow> spent c s \<Longrightarrow> redeem t c' s = (x, s') \<Longrightarrow> spent c s'"
    and same_sym: "same c c' \<Longrightarrow> same c' c"
    and same_trans: "same c c' \<Longrightarrow> same c' c'' \<Longrightarrow> same c c''"
    and same_spent: "same c c' \<Longrightarrow> spent c s \<Longrightarrow> spent c' s"
begin

lemma spent_no_winner:
  "inv s \<Longrightarrow> spent c s \<Longrightarrow> filter (\<lambda>w. same (fst w) c) (winners redeem xs s) = []"
proof (induction xs arbitrary: s)
  case (Cons x xs)
  obtain t c' where x: "x = (t, c')" by (cases x)
  obtain res s' where r: "redeem t c' s = (res, s')" by (cases "redeem t c' s")
  have rest: "filter (\<lambda>w. same (fst w) c) (winners redeem xs s') = []"
    using Cons.prems r by (intro Cons.IH) (blast intro: redeem_inv spent_stays)+
  show ?case
  proof (cases res)
    case (Inl e)
    with rest r show ?thesis by (simp add: x)
  next
    case (Inr v)
    have "\<not> same c' c"
      using Cons.prems r Inr spent_refused same_spent same_sym by blast
    with rest r Inr show ?thesis by (simp add: x)
  qed
qed simp

lemma at_most_one_winner:
  "inv s \<Longrightarrow> length (filter (\<lambda>w. same (fst w) c) (winners redeem xs s)) \<le> 1"
proof (induction xs arbitrary: s)
  case (Cons x xs)
  obtain t c' where x: "x = (t, c')" by (cases x)
  obtain res s' where r: "redeem t c' s = (res, s')" by (cases "redeem t c' s")
  have inv': "inv s'" using Cons.prems r by (rule redeem_inv)
  then have IH: "length (filter (\<lambda>w. same (fst w) c) (winners redeem xs s')) \<le> 1" by (rule Cons.IH)
  show ?case
  proof (cases res)
    case (Inl e)
    with IH r show ?thesis by (simp add: x)
  next
    case (Inr v)
    show ?thesis
    proof (cases "same c' c")
      case True
      then have "spent c s'" using redeem_spends Cons.prems r Inr by blast
      with inv' have "filter (\<lambda>w. same (fst w) c) (winners redeem xs s') = []" by (rule spent_no_winner)
      with r Inr show ?thesis by (simp add: x)
    next
      case False
      with IH r Inr show ?thesis by (simp add: x)
    qed
  qed
qed simp

end

text \<open>A code counts as spent when a row with its hash has been used.\<close>

definition spent_code :: "(string \<Rightarrow> string \<Rightarrow> string) \<Rightarrow> string \<Rightarrow> string \<Rightarrow> db \<Rightarrow> bool" where
  "spent_code hmac pepper code s \<longleftrightarrow>
     list_ex (\<lambda>r. p_codeHash r = hashCode hmac pepper code \<and> p_usedAt r \<noteq> None) (t_pairing s)"

lemma spent_set_used:
  "list_ex (\<lambda>r. p_codeHash r = k \<and> p_usedAt r \<noteq> None) (t_pairing (set_used h (Some c) s)) \<longleftrightarrow>
     list_ex (\<lambda>r. p_codeHash r = k \<and> (k = h \<or> p_usedAt r \<noteq> None)) (t_pairing s)"
proof -
  have "list_ex (\<lambda>r. p_codeHash r = k \<and> p_usedAt r \<noteq> None)
      (map (\<lambda>r. if p_codeHash r = h then r\<lparr>p_usedAt := Some c\<rparr> else r) t) \<longleftrightarrow>
    list_ex (\<lambda>r. p_codeHash r = k \<and> (k = h \<or> p_usedAt r \<noteq> None)) t" for t
    by (induction t) auto
  then show ?thesis by (simp add: set_used_def)
qed

lemma redeem_outcomes:
  assumes "wf_db s" and "redeemPairingCode OwnerConn hmac pepper claimed checked code s = (x, s')"
  obtains (refused) e where "x = Inl e" "s' = s"
    | (won) r where "first_row (filter (\<lambda>r. p_codeHash r = hashCode hmac pepper code) (t_pairing s)) = Some r"
        "p_usedAt r = None" "checked \<le> p_expiresAt r"
        "x = Inr (p_orgId r, p_nodeName r)" "s' = set_used (hashCode hmac pepper code) (Some claimed) s"
  using assms redeem_cases [OF assms(1) refl, of hmac pepper claimed checked code]
  by (auto split: option.splits if_splits)

lemma wf_redeem [wf_intros]: "keeps wf_db (redeemPairingCode owner hmac pepper claimed checked code)"
  unfolding redeemPairingCode_def Let_def
  by (intro wf_intros allI; simp split: option.split; intro impI allI conjI wf_intros; simp)

lemma redeem_marks_spent:
  assumes "wf_db s" and "redeemPairingCode OwnerConn hmac pepper a b c s = (Inr r, s')" and "normalize c = normalize c'"
  shows "spent_code hmac pepper c' s'"
  using assms(1,2)
proof (cases rule: redeem_outcomes)
  case (won q)
  have h: "hashCode hmac pepper c' = hashCode hmac pepper c" using assms(3) by (simp add: hashCode_def)
  show ?thesis
    using first_row_filter_Some [OF won(1)]
    unfolding spent_code_def won(5) h spent_set_used by (auto simp: list_ex_iff)
qed simp

lemma redeem_spent_fails:
  assumes "wf_db s" and "spent_code hmac pepper c s"
  shows "redeemPairingCode OwnerConn hmac pepper a b c s \<noteq> (Inr r, s')"
proof
  assume st: "redeemPairingCode OwnerConn hmac pepper a b c s = (Inr r, s')"
  from assms(1) st show False
  proof (cases rule: redeem_outcomes)
    case (won q)
    obtain q' where "q' \<in> set (t_pairing s)" "p_codeHash q' = hashCode hmac pepper c" "p_usedAt q' \<noteq> None"
      using assms(2) by (auto simp: spent_code_def list_ex_iff)
    then show False
      using won(2) first_row_filter_Some [OF won(1)] wf_pairing_unique [OF assms(1), of q q'] by simp
  qed simp
qed

lemma spent_stays_spent:
  assumes "wf_db s" and "spent_code hmac pepper c s" and "redeemPairingCode OwnerConn hmac pepper a b c' s = (x, s')"
  shows "spent_code hmac pepper c s'"
  using assms(1,3)
proof (cases rule: redeem_outcomes)
  case won
  show ?thesis using assms(2) unfolding spent_code_def won(5) spent_set_used by (auto simp: list_ex_iff)
qed (use assms(2) in simp)

interpretation pairing_codes: single_use
  "\<lambda>(claimed, checked). redeemPairingCode OwnerConn hmac pepper claimed checked"
  "spent_code hmac pepper" "\<lambda>c c'. normalize c = normalize c'" wf_db
  for hmac pepper
proof (unfold_locales, goal_cases)
  case (1 s t c x s')
  then show ?case by (cases t) (auto dest: keepsD [OF wf_redeem])
next
  case (2 s t c r s' c')
  then show ?case by (cases t) (auto intro: redeem_marks_spent)
next
  case (3 s c t r s')
  then show ?case by (cases t) (simp add: redeem_spent_fails)
next
  case (4 s c t c' x s')
  then show ?case by (cases t) (auto intro: spent_stays_spent)
qed (simp_all add: spent_code_def hashCode_def)

text \<open>However often, in whatever order and at whatever times codes are redeemed, a code is
  accepted at most once, whichever way it is spelled: of all the successful attempts whose code
  normalizes to the same characters there is at most one.\<close>

theorem pairing_single_use:
  assumes "wf_db s"
  shows "length (filter (\<lambda>w. normalize (fst w) = normalize code)
           (winners (\<lambda>(claimed, checked). redeemPairingCode OwnerConn hmac pepper claimed checked)
              attempts s)) \<le> 1"
  using pairing_codes.at_most_one_winner [OF assms] .

theorem pairing_single_use_witness:
  "length (filter (\<lambda>w. normalize (fst w) = normalize ''ABCD-EFGH'')
           (winners (\<lambda>(claimed, checked). redeemPairingCode OwnerConn demo_hmac [] claimed checked)
              [((1, 1), ''abcdefgh''), ((2, 2), ''ABCD EFGH'')] demo_db)) \<le> 1"
  by (rule pairing_single_use [OF demo_wf])

section \<open>Integrity and tenancy of the operations\<close>

lemma wf_mint [wf_intros]:
  "keeps wf_db (mintPairingCode hmac pepper ttl ri fresh created now orgId userId nodeName)"
  unfolding mintPairingCode_def Let_def
  by (simp split: option.split) (intro allI impI wf_intros)

interpretation mint_scoped: org_scoped
  "\<lambda>orgId. mintPairingCode hmac pepper ttl ri fresh created now orgId userId nodeName"
  for hmac pepper ttl ri fresh created now userId nodeName
  by unfold_locales
    (simp add: mintPairingCode_def Let_def split: option.split, intro allI impI frame_intros)

section \<open>From minting to redeeming\<close>

lemma mint_result:
  assumes "mintPairingCode hmac pepper ttl ri fresh created now orgId userId nodeName s = (Inr (code, expiresAt), s')"
  shows "code = generateCode ri" and "new_Date (js_add (of_int now) ttl) = Some expiresAt"
    and "hashCode hmac pepper code \<notin> set (map p_codeHash (t_pairing s))"
    and "s' = s\<lparr>t_pairing := t_pairing s @
          [\<lparr>p_id = fresh, p_orgId = orgId, p_codeHash = hashCode hmac pepper code,
            p_nodeName = nodeName, p_createdBy = userId, p_expiresAt = expiresAt,
            p_usedAt = None, p_usedByNodeId = None, p_createdAt = created\<rparr>]\<rparr>"
proof -
  let ?row = "\<lambda>e. \<lparr>p_id = fresh, p_orgId = orgId, p_codeHash = hashCode hmac pepper (generateCode ri),
            p_nodeName = nodeName, p_createdBy = userId, p_expiresAt = e,
            p_usedAt = None, p_usedByNodeId = None, p_createdAt = created\<rparr>"
  obtain e where e: "new_Date (js_add (of_int now) ttl) = Some e"
    using assms by (cases "new_Date (js_add (of_int now) ttl)") (simp_all add: mintPairingCode_def)
  then obtain u where c: "code = generateCode ri" "expiresAt = e"
    and i: "op_bind (pg_check (check_columns [orgId, nodeName, userId] [] []))
        (\<lambda>_. op_bind (pg_check (pg_timestamp e))
          (\<lambda>_. insert_pairing_code (AppConn (Some orgId)) (?row e))) s = (Inr u, s')"
    using assms unfolding mintPairingCode_def Let_def
    by (auto simp: withOrg_def transaction_success elim!: op_bind_success)
  then have "insert_pairing_code (AppConn (Some orgId)) (?row e) s = (Inr u, s')"
    by (auto simp: pg_check_def elim!: op_bind_success split: sum.splits)
  then show "code = generateCode ri" "new_Date (js_add (of_int now) ttl) = Some expiresAt"
    "hashCode hmac pepper code \<notin> set (map p_codeHash (t_pairing s))"
    "s' = s\<lparr>t_pairing := t_pairing s @
          [\<lparr>p_id = fresh, p_orgId = orgId, p_codeHash = hashCode hmac pepper code,
            p_nodeName = nodeName, p_createdBy = userId, p_expiresAt = expiresAt,
            p_usedAt = None, p_usedByNodeId = None, p_createdAt = created\<rparr>]\<rparr>"
    using c e by (simp_all add: insert_pairing_code_def split: if_splits)
qed

lemma mint_redeem:
  assumes "wf_db s"
    and "mintPairingCode hmac pepper ttl ri fresh created now orgId userId nodeName s = (Inr (code, expiresAt), s')"
    and "toLowerCase (filter (\<lambda>c. \<not> separator c) typed) = toLowerCase (filter (\<lambda>c. \<not> separator c) code)"
  shows "fst (redeemPairingCode OwnerConn hmac pepper claimed checked typed s') =
     (if checked \<le> expiresAt then Inr (orgId, nodeName) else Inl (PairingCodeError ''pairing code expired''))"
proof -
  note m = mint_result [OF assms(2)]
  have "normalize typed = normalize code"
    using assms(3) normalize_separators normalize_lower by metis
  then have h: "hashCode hmac pepper typed = hashCode hmac pepper code" by (simp add: hashCode_def)
  have wf: "wf_db s'" using keepsD [OF wf_mint assms(1,2)] .
  have "filter (\<lambda>r. p_codeHash r = hashCode hmac pepper code) (t_pairing s) = []"
    using m(3) by (force simp: filter_empty_conv)
  then show ?thesis
    using redeem_cases [OF wf refl, of hmac pepper claimed checked typed] h by (simp add: m(4))
qed


text \<open>(C21) A minted code works: typed back before it expires, in either case and with any
  separators, it enrolls into the organization and under the name it was minted for; after
  the expiry it is refused as expired.\<close>

theorem mint_redeem_roundtrip:
  assumes "wf_db s"
    and "mintPairingCode hmac pepper ttl ri fresh created now orgId userId nodeName s = (Inr (code, expiresAt), s')"
    and "toLowerCase (filter (\<lambda>c. \<not> separator c) typed) = toLowerCase (filter (\<lambda>c. \<not> separator c) code)"
  shows "fst (redeemPairingCode OwnerConn hmac pepper claimed checked typed s') =
     (if checked \<le> expiresAt then Inr (orgId, nodeName) else Inl (PairingCodeError ''pairing code expired''))"
  using assms by (rule mint_redeem)

definition demo_minted :: pairing_row where
  "demo_minted = \<lparr>p_id = ''c2'', p_orgId = ''org_a'', p_codeHash = ''BCDEFGHJ'', p_nodeName = ''mac'',
     p_createdBy = ''user_1'', p_expiresAt = 900000, p_usedAt = None, p_usedByNodeId = None,
     p_createdAt = 0\<rparr>"

lemma demo_mint:
  "mintPairingCode demo_hmac [] 900000 Suc ''c2'' 0 0 ''org_a'' ''user_1'' ''mac'' demo_db
     = (Inr (''BCDE-FGHJ'', 900000), demo_db\<lparr>t_pairing := [demo_code, demo_minted]\<rparr>)"
proof -
  have g: "generateCode Suc = ''BCDE-FGHJ''" by code_simp
  have h: "hashCode demo_hmac [] ''BCDE-FGHJ'' = ''BCDEFGHJ''" by code_simp
  have "js_add (of_int 0) 900000 = of_int 900000" unfolding js_add_def by (simp add: fl_Ints_exact)
  then have d: "new_Date (js_add (of_int 0) 900000) = Some 900000"
    using new_Date_of_int [of 900000] by simp
  have c: "check_columns [''org_a'', ''mac'', ''user_1''] [] [] = Inr ()" by code_simp
  show ?thesis
    unfolding mintPairingCode_def Let_def d g
    by (simp add: h c pg_timestamp_def withOrg_def transaction_def op_bind_def pg_check_def insert_pairing_code_def
        org_isolation_def demo_db_def demo_org_def demo_code_def demo_minted_def)
qed

theorem mint_redeem_roundtrip_witness:
  "fst (redeemPairingCode OwnerConn demo_hmac [] 5 5 ''bc de fghj'' (demo_db\<lparr>t_pairing := [demo_code, demo_minted]\<rparr>))
     = Inr (''org_a'', ''mac'')
   \<and> fst (redeemPairingCode OwnerConn demo_hmac [] 5 900001 ''bcdefghj'' (demo_db\<lparr>t_pairing := [demo_code, demo_minted]\<rparr>))
     = Inl (PairingCodeError ''pairing code expired'')"
proof -
  have "toLowerCase (filter (\<lambda>c. \<not> separator c) ''bc de fghj'') = toLowerCase (filter (\<lambda>c. \<not> separator c) ''BCDE-FGHJ'')"
    "toLowerCase (filter (\<lambda>c. \<not> separator c) ''bcdefghj'') = toLowerCase (filter (\<lambda>c. \<not> separator c) ''BCDE-FGHJ'')"
    by code_simp+
  then show ?thesis
    using mint_redeem_roundtrip [OF demo_wf demo_mint, of "''bc de fghj''" 5 5]
      mint_redeem_roundtrip [OF demo_wf demo_mint, of "''bcdefghj''" 5 900001] by simp
qed

end
