(* ===== verification/Proto.thy ===== *)
theory Proto
  imports Database
begin

text \<open>
  The messages of the contract, as \<open>packages/proto-ts/src/gen/modelhub/v1\<close> declares them. Fields
  of the fixed-width types the decoder fills in are words of that width (\<open>uint64\<close>, \<open>uint32\<close>, the
  bits of a \<open>double\<close>); \<open>int64\<close> is a 64-bit word read with \<open>sint\<close>. Enumerations are open, as in
  proto3: a message may carry a number this build has no name for, so an enumeration is an \<open>int\<close>
  and its members are constants. The views the server builds hold \<open>bigint\<close> fields, which are
  unbounded until they are encoded, so these are \<open>int\<close>.
\<close>

section \<open>\<open>common_pb.ts\<close>\<close>

type_synonym enum = int

definition DEVICE_KIND_UNSPECIFIED :: enum where "DEVICE_KIND_UNSPECIFIED = 0"
definition DEVICE_KIND_CPU :: enum where "DEVICE_KIND_CPU = 1"
definition DEVICE_KIND_CUDA :: enum where "DEVICE_KIND_CUDA = 2"
definition DEVICE_KIND_METAL :: enum where "DEVICE_KIND_METAL = 3"

definition MEMORY_PRESSURE_UNSPECIFIED :: enum where "MEMORY_PRESSURE_UNSPECIFIED = 0"
definition MEMORY_PRESSURE_NORMAL :: enum where "MEMORY_PRESSURE_NORMAL = 1"
definition MEMORY_PRESSURE_WARN :: enum where "MEMORY_PRESSURE_WARN = 2"
definition MEMORY_PRESSURE_CRITICAL :: enum where "MEMORY_PRESSURE_CRITICAL = 3"

lemmas enum_defs =
  DEVICE_KIND_UNSPECIFIED_def DEVICE_KIND_CPU_def DEVICE_KIND_CUDA_def DEVICE_KIND_METAL_def
  MEMORY_PRESSURE_UNSPECIFIED_def MEMORY_PRESSURE_NORMAL_def MEMORY_PRESSURE_WARN_def
  MEMORY_PRESSURE_CRITICAL_def

record host_info =
  h_hostname :: string
  h_platform :: string
  h_arch :: string
  h_osVersion :: string
  h_agentVersion :: string
  h_totalMemoryBytes :: "64 word"
  h_cpuCores :: "32 word"

record device =
  dev_localId :: string
  dev_kind :: enum
  dev_index :: "32 word"
  dev_name :: string
  dev_totalBytes :: "64 word"
  dev_driverVersion :: string
  dev_computeCapability :: string
  dev_wiredLimitBytes :: "64 word"

record device_sample =
  s_localId :: string
  s_usedBytes :: "64 word"
  s_managedBytes :: "64 word"
  s_utilization :: "64 word"
  s_temperatureC :: "64 word"
  s_powerWatts :: "64 word"
  s_pressure :: enum
  s_sampledAtUnixMs :: "64 word"

section \<open>\<open>node_pb.ts\<close>\<close>

record enroll_request =
  er_pairingCode :: string
  er_publicKey :: bytes
  er_nodeName :: string
  er_host :: "host_info option"

record enroll_response =
  ers_nodeId :: string
  ers_orgId :: string
  ers_orgName :: string

record hello =
  hello_agentVersion :: string
  hello_host :: "host_info option"

record inventory_report =
  ir_devices :: "device list"

record sample_batch =
  sb_samples :: "device_sample list"

text \<open>The \<open>payload\<close> of an \<open>AgentMessage\<close>; \<open>NoPayload\<close> is \<open>case: undefined\<close>.\<close>

datatype agent_message =
    Hello hello
  | Inventory inventory_report
  | Samples sample_batch
  | NoPayload

text \<open>\<open>sampleIntervalMs\<close> is a JavaScript number until the message is encoded.\<close>

record hello_ack =
  ha_nodeId :: string
  ha_sampleIntervalMs :: number

record agent_config =
  ac_sampleIntervalMs :: number

datatype server_message =
    HelloAck hello_ack
  | AgentConfig agent_config
  | NoServerPayload

section \<open>\<open>fleet_pb.ts\<close>\<close>

text \<open>The \<open>nodes\<close> columns of a host, with the same fields as a \<open>HostInfo\<close>.\<close>

record host_columns =
  hc_hostname :: string
  hc_platform :: string
  hc_arch :: string
  hc_osVersion :: string
  hc_agentVersion :: string
  hc_totalMemoryBytes :: int
  hc_cpuCores :: int

record device_view =
  dv_id :: string
  dv_localId :: string
  dv_kind :: enum
  dv_name :: string
  dv_totalBytes :: int
  dv_managedBytes :: int
  dv_foreignBytes :: int
  dv_headroomBytes :: int
  dv_availableBytes :: int
  dv_utilization :: "64 word"
  dv_pressure :: enum
  dv_schedulable :: bool

record node_view =
  nv_id :: string
  nv_name :: string
  nv_status :: string
  nv_lastSeenUnixMs :: int
  nv_host :: "host_columns option"
  nv_devices :: "device_view list"

record list_nodes_response =
  lnr_nodes :: "node_view list"

record get_node_request =
  gnq_nodeId :: string

text \<open>\<open>node\<close> is optional in the message type; the handler always sets it.\<close>

record get_node_response =
  gnr_node :: "node_view option"

record create_pairing_code_request =
  cpq_nodeName :: string

record create_pairing_code_response =
  cpr_code :: string
  cpr_expiresAtUnixMs :: int

text \<open>What an encoder accepts for a \<open>uint64\<close> and an \<open>int64\<close> field.\<close>

definition uint64 :: "int \<Rightarrow> bool" where
  "uint64 n \<longleftrightarrow> 0 \<le> n \<and> n < 2 ^ 64"

definition int64 :: "int \<Rightarrow> bool" where
  "int64 n \<longleftrightarrow> - (2 ^ 63) \<le> n \<and> n < 2 ^ 63"

lemma uint_word64: "0 \<le> uint (w :: 64 word)" "uint (w :: 64 word) < 2 ^ 64"
  using uint_lt2p [of w] by simp_all

lemma uint_word32: "0 \<le> uint (w :: 32 word)" "uint (w :: 32 word) < 2 ^ 32"
  using uint_lt2p [of w] by simp_all

end
