(* ===== verification/Memory.thy ===== *)
theory Memory
  imports Js_Number
begin

text \<open>
  The memory model: \<open>packages/core/src/memory.ts\<close>. \<open>computeBudget\<close> is translated over
  JavaScript numbers, so the two places where the code leaves the integers (the product
  with a decimal fraction) round exactly as the program does. \<open>kind\<close> and \<open>pressure\<close> are
  the run-time strings: the callers cast database text to the union types without a check,
  and the \<open>default\<close> branch of the switch is reachable in the model as in the program.
\<close>

section \<open>The component\<close>

record memory_input =
  mi_kind :: string
  mi_totalBytes :: number
  mi_usedBytes :: number
  mi_managedBytes :: number
  mi_wiredLimitBytes :: "number option"
  mi_pressure :: "string option"
  mi_interactive :: "bool option"

record memory_budget =
  mb_totalBytes :: number
  mb_managedBytes :: number
  mb_foreignBytes :: number
  mb_headroomBytes :: number
  mb_availableBytes :: number
  mb_schedulable :: bool

definition HEADROOM_FRAC :: number where
  "HEADROOM_FRAC = fl (8 / 100)"

definition HEADROOM_MIN_BYTES :: number where
  "HEADROOM_MIN_BYTES = 512 * 1024 ^ 2"

definition OS_RESERVE_FRAC :: number where
  "OS_RESERVE_FRAC = fl (15 / 100)"

definition OS_RESERVE_MIN_BYTES :: number where
  "OS_RESERVE_MIN_BYTES = 8 * 1024 ^ 3"

definition INTERACTIVE_RESERVE_FRAC :: number where
  "INTERACTIVE_RESERVE_FRAC = fl (30 / 100)"

definition METAL_DEFAULT_CEILING_FRAC :: number where
  "METAL_DEFAULT_CEILING_FRAC = fl (75 / 100)"

definition clamp :: "number \<Rightarrow> number \<Rightarrow> number \<Rightarrow> number" where
  "clamp v lo hi = min (max v lo) hi"

text \<open>\<open>Math.floor(totalBytes * frac)\<close>\<close>

definition share :: "number \<Rightarrow> number \<Rightarrow> number" where
  "share t c = math_floor (js_mul t c)"

text \<open>\<open>input.interactive ? INTERACTIVE_RESERVE_FRAC : OS_RESERVE_FRAC\<close>, then the reserve.\<close>

definition os_reserve :: "memory_input \<Rightarrow> number" where
  "os_reserve i =
     (let reserveFrac = (if mi_interactive i = Some True
                         then INTERACTIVE_RESERVE_FRAC else OS_RESERVE_FRAC)
      in max OS_RESERVE_MIN_BYTES (share (mi_totalBytes i) reserveFrac))"

text \<open>\<open>wiredLimitBytes && wiredLimitBytes > 0 ? wiredLimitBytes : 75% of the total\<close>\<close>

definition wired_limit :: "memory_input \<Rightarrow> number" where
  "wired_limit i =
     (case mi_wiredLimitBytes i of
        Some w \<Rightarrow> if w \<noteq> 0 \<and> w > 0 then w
                  else share (mi_totalBytes i) METAL_DEFAULT_CEILING_FRAC
      | None \<Rightarrow> share (mi_totalBytes i) METAL_DEFAULT_CEILING_FRAC)"

text \<open>The switch on the kind: the headroom and the ceiling, or the thrown error.\<close>

definition kind_limits :: "memory_input \<Rightarrow> error + number \<times> number" where
  "kind_limits i =
     (if mi_kind i = ''cuda'' then
        Inr (max HEADROOM_MIN_BYTES (share (mi_totalBytes i) HEADROOM_FRAC), mi_totalBytes i)
      else if mi_kind i = ''metal'' then
        Inr (0, min (wired_limit i) (js_sub (mi_totalBytes i) (os_reserve i)))
      else if mi_kind i = ''cpu'' then
        Inr (os_reserve i, mi_totalBytes i)
      else Inl (JsError (''unknown device kind: '' @ mi_kind i)))"

definition computeBudget :: "memory_input \<Rightarrow> error + memory_budget" where
  "computeBudget i =
     (let totalBytes = mi_totalBytes i; managedBytes = mi_managedBytes i;
          pressure = (case mi_pressure i of Some p \<Rightarrow> p | None \<Rightarrow> ''normal'');
          foreignBytes = clamp (js_sub (mi_usedBytes i) managedBytes) 0 totalBytes
      in if totalBytes \<le> 0 then
           Inr \<lparr>mb_totalBytes = 0, mb_managedBytes = 0, mb_foreignBytes = 0,
                mb_headroomBytes = 0, mb_availableBytes = 0, mb_schedulable = False\<rparr>
         else
           (let schedulable = (pressure = ''normal'')
            in case kind_limits i of
                 Inl e \<Rightarrow> Inl e
               | Inr (headroomBytes, ceil) \<Rightarrow>
                   (let raw = js_sub (js_sub (js_sub ceil foreignBytes) managedBytes) headroomBytes;
                        availableBytes = (if schedulable then clamp raw 0 totalBytes else 0)
                    in Inr \<lparr>mb_totalBytes = totalBytes, mb_managedBytes = managedBytes,
                            mb_foreignBytes = foreignBytes, mb_headroomBytes = headroomBytes,
                            mb_availableBytes = availableBytes, mb_schedulable = schedulable\<rparr>)))"

text \<open>The pressure the code reads, absent meaning normal.\<close>

abbreviation pressure_of :: "memory_input \<Rightarrow> string" where
  "pressure_of i \<equiv> (case mi_pressure i of Some p \<Rightarrow> p | None \<Rightarrow> ''normal'')"

abbreviation foreign_of :: "memory_input \<Rightarrow> number" where
  "foreign_of i \<equiv> clamp (js_sub (mi_usedBytes i) (mi_managedBytes i)) 0 (mi_totalBytes i)"

abbreviation raw_budget :: "memory_input \<Rightarrow> number \<Rightarrow> number \<Rightarrow> number" where
  "raw_budget i headroom ceil \<equiv>
     js_sub (js_sub (js_sub ceil (foreign_of i)) (mi_managedBytes i)) headroom"

section \<open>Clamping and shares\<close>

lemma clamp_bounds: "lo \<le> hi \<Longrightarrow> lo \<le> clamp v lo hi \<and> clamp v lo hi \<le> hi"
  by (auto simp: clamp_def)

lemma clamp_mono: "v \<le> w \<Longrightarrow> clamp v lo hi \<le> clamp w lo hi"
  by (auto simp: clamp_def min_def max_def)

lemma clamp_Ints: "v \<in> \<int> \<Longrightarrow> lo \<in> \<int> \<Longrightarrow> hi \<in> \<int> \<Longrightarrow> clamp v lo hi \<in> \<int>"
  by (auto simp: clamp_def min_def max_def)

lemma fraction_nonneg [simp]:
  "0 \<le> HEADROOM_FRAC" "0 \<le> OS_RESERVE_FRAC" "0 \<le> INTERACTIVE_RESERVE_FRAC"
  "0 \<le> METAL_DEFAULT_CEILING_FRAC"
  by (simp_all add: HEADROOM_FRAC_def OS_RESERVE_FRAC_def INTERACTIVE_RESERVE_FRAC_def
      METAL_DEFAULT_CEILING_FRAC_def fl_nonneg)

lemma min_bytes_nonneg [simp]: "0 \<le> HEADROOM_MIN_BYTES" "0 \<le> OS_RESERVE_MIN_BYTES"
  by (simp_all add: HEADROOM_MIN_BYTES_def OS_RESERVE_MIN_BYTES_def)

lemma min_bytes_Ints [simp]: "HEADROOM_MIN_BYTES \<in> \<int>" "OS_RESERVE_MIN_BYTES \<in> \<int>"
  by (simp_all add: HEADROOM_MIN_BYTES_def OS_RESERVE_MIN_BYTES_def)

lemma share_Ints [simp]: "share t c \<in> \<int>"
  by (simp add: share_def)

lemma share_nonneg: "0 \<le> t \<Longrightarrow> 0 \<le> c \<Longrightarrow> 0 \<le> share t c"
  by (simp add: share_def js_mul_def math_floor_nonneg fl_nonneg)

lemma share_mono: "0 \<le> t \<Longrightarrow> c \<le> d \<Longrightarrow> share t c \<le> share t d"
  by (simp add: share_def js_mul_def math_floor_def floor_mono fl_mono mult_left_mono)

lemma os_reserve_Ints [simp]: "os_reserve i \<in> \<int>"
  by (auto simp: os_reserve_def Let_def max_def)

lemma os_reserve_nonneg [simp]: "0 \<le> os_reserve i"
  by (simp add: os_reserve_def Let_def le_max_iff_disj)

lemma frac_order: "OS_RESERVE_FRAC \<le> INTERACTIVE_RESERVE_FRAC"
  by (simp add: OS_RESERVE_FRAC_def INTERACTIVE_RESERVE_FRAC_def fl_mono)

section \<open>The shape of a result\<close>

lemma kind_limits_cases:
  assumes "kind_limits i = Inr (h, c)"
  obtains (cuda) "mi_kind i = ''cuda''" "c = mi_totalBytes i"
      "h = max HEADROOM_MIN_BYTES (share (mi_totalBytes i) HEADROOM_FRAC)"
    | (metal) "mi_kind i = ''metal''" "h = 0"
      "c = min (wired_limit i) (js_sub (mi_totalBytes i) (os_reserve i))"
    | (cpu) "mi_kind i = ''cpu''" "c = mi_totalBytes i" "h = os_reserve i"
  using assms by (auto simp: kind_limits_def split: if_splits)

lemma kind_limits_error:
  "kind_limits i = Inl e \<longleftrightarrow>
     mi_kind i \<notin> {''cuda'', ''metal'', ''cpu''} \<and> e = JsError (''unknown device kind: '' @ mi_kind i)"
  by (auto simp: kind_limits_def)

lemma computeBudget_empty:
  "mi_totalBytes i \<le> 0 \<Longrightarrow>
     computeBudget i = Inr \<lparr>mb_totalBytes = 0, mb_managedBytes = 0, mb_foreignBytes = 0,
       mb_headroomBytes = 0, mb_availableBytes = 0, mb_schedulable = False\<rparr>"
  by (simp add: computeBudget_def)

lemma computeBudget_positive:
  assumes "0 < mi_totalBytes i" and "kind_limits i = Inr (h, c)"
  shows "computeBudget i =
     Inr \<lparr>mb_totalBytes = mi_totalBytes i, mb_managedBytes = mi_managedBytes i,
          mb_foreignBytes = foreign_of i, mb_headroomBytes = h,
          mb_availableBytes =
            (if pressure_of i = ''normal'' then clamp (raw_budget i h c) 0 (mi_totalBytes i) else 0),
          mb_schedulable = (pressure_of i = ''normal'')\<rparr>"
  using assms by (simp add: computeBudget_def Let_def)

lemma computeBudget_cases:
  assumes "computeBudget i = Inr b"
  obtains (empty) "mi_totalBytes i \<le> 0" "mb_totalBytes b = 0" "mb_managedBytes b = 0"
      "mb_foreignBytes b = 0" "mb_headroomBytes b = 0" "mb_availableBytes b = 0" "\<not> mb_schedulable b"
    | (positive) h c where "0 < mi_totalBytes i" "kind_limits i = Inr (h, c)"
      "mb_totalBytes b = mi_totalBytes i" "mb_managedBytes b = mi_managedBytes i"
      "mb_foreignBytes b = foreign_of i" "mb_headroomBytes b = h"
      "mb_availableBytes b =
         (if pressure_of i = ''normal'' then clamp (raw_budget i h c) 0 (mi_totalBytes i) else 0)"
      "mb_schedulable b = (pressure_of i = ''normal'')"
proof (cases "mi_totalBytes i \<le> 0")
  case True
  with assms show ?thesis by (intro empty) (auto simp: computeBudget_empty)
next
  case False
  then have pos: "0 < mi_totalBytes i" by simp
  show ?thesis
  proof (cases "kind_limits i")
    case (Inl e)
    with assms False show ?thesis by (simp add: computeBudget_def)
  next
    case (Inr hc)
    obtain h c where hc: "hc = (h, c)" by (cases hc)
    show ?thesis
      using pos Inr assms computeBudget_positive [OF pos Inr [unfolded hc]]
      by (intro positive [of h c]) (auto simp: hc)
  qed
qed

lemma kind_limits_headroom_nonneg:
  "kind_limits i = Inr (h, c) \<Longrightarrow> 0 \<le> mi_totalBytes i \<Longrightarrow> 0 \<le> h"
  by (erule kind_limits_cases) (auto simp: le_max_iff_disj)

section \<open>Exactness below \<open>2\<^sup>5\<^sup>3\<close>\<close>

text \<open>
  Whenever the chain of subtractions ends above zero, every intermediate result lies
  between zero and the ceiling, where integers are exact.
\<close>

lemma js_sub_pos_exact:
  assumes "0 < js_sub a b" and "a \<in> \<int>" and "b \<in> \<int>" and "0 \<le> b" and "a \<le> 2 ^ 53"
  shows "js_sub a b = a - b" and "b < a"
proof -
  show lt: "b < a" using assms(1) js_sub_nonpos [of a b] by (meson leD leI)
  have "\<bar>a - b\<bar> \<le> 2 ^ 53" using lt assms(4,5) by linarith
  with assms(2,3) show "js_sub a b = a - b" by (rule js_sub_Ints_exact)
qed

lemma raw_exact:
  assumes pos: "0 < js_sub (js_sub (js_sub c f) m) h"
    and ints: "c \<in> \<int>" "f \<in> \<int>" "m \<in> \<int>" "h \<in> \<int>"
    and nonneg: "0 \<le> f" "0 \<le> m" "0 \<le> h" and c: "c \<le> 2 ^ 53"
  shows "js_sub (js_sub (js_sub c f) m) h = c - f - m - h"
proof -
  have 1: "h < js_sub (js_sub c f) m" using pos js_sub_nonpos by (meson leD leI)
  then have p2: "0 < js_sub (js_sub c f) m" using nonneg by linarith
  then have 2: "m < js_sub c f" using js_sub_nonpos by (meson leD leI)
  then have p1: "0 < js_sub c f" using nonneg by linarith
  have e1: "js_sub c f = c - f" using p1 ints(1,2) nonneg(1) c by (rule js_sub_pos_exact(1))
  have e2: "js_sub (js_sub c f) m = c - f - m"
    using js_sub_pos_exact(1) [OF p2] ints nonneg c e1 by simp
  show ?thesis
    using js_sub_pos_exact(1) [OF pos] ints nonneg c e2 by simp
qed

text \<open>Conversely, when the exact difference is positive so is the computed one.\<close>

lemma raw_pos:
  assumes "0 < c - f - m - h" and ints: "c \<in> \<int>" "f \<in> \<int>" "m \<in> \<int>" "h \<in> \<int>"
    and nonneg: "0 \<le> f" "0 \<le> m" "0 \<le> h" and c: "c \<le> 2 ^ 53"
  shows "js_sub (js_sub (js_sub c f) m) h = c - f - m - h"
proof -
  have sub: "js_sub a b = a - b" if "a \<in> \<int>" "b \<in> \<int>" "0 \<le> b" "b \<le> a" "a \<le> 2 ^ 53" for a b
  proof -
    have "\<bar>a - b\<bar> \<le> 2 ^ 53" using that by linarith
    with that(1,2) show ?thesis by (rule js_sub_Ints_exact)
  qed
  have e1: "js_sub c f = c - f" using ints nonneg c assms(1) by (intro sub) linarith+
  have e2: "js_sub (c - f) m = c - f - m"
    using ints nonneg c assms(1) by (intro sub Ints_diff) linarith+
  have "js_sub (c - f - m) h = c - f - m - h"
    using ints nonneg c assms(1) by (intro sub Ints_diff) linarith+
  then show ?thesis by (simp only: e1 e2)
qed

lemma kind_limits_Ints:
  assumes "kind_limits i = Inr (h, c)" and "mi_totalBytes i \<in> \<int>"
    and "\<And>w. mi_wiredLimitBytes i = Some w \<Longrightarrow> w \<in> \<int>"
  shows "h \<in> \<int>" and "c \<in> \<int>"
  using assms
  by (auto elim!: kind_limits_cases simp: max_def min_def wired_limit_def js_sub_Ints
      split: option.splits)

lemma kind_limits_ceiling:
  "kind_limits i = Inr (h, c) \<Longrightarrow> mi_totalBytes i \<in> \<int> \<Longrightarrow> 0 \<le> mi_totalBytes i \<Longrightarrow>
     mi_totalBytes i \<le> 2 ^ 53 \<Longrightarrow> c \<le> mi_totalBytes i"
proof (erule kind_limits_cases)
  assume t: "mi_totalBytes i \<in> \<int>" "0 \<le> mi_totalBytes i" "mi_totalBytes i \<le> 2 ^ 53"
    and c: "c = min (wired_limit i) (js_sub (mi_totalBytes i) (os_reserve i))"
  have "js_sub (mi_totalBytes i) (os_reserve i) \<le> mi_totalBytes i"
  proof (cases "0 < js_sub (mi_totalBytes i) (os_reserve i)")
    case True
    then have "js_sub (mi_totalBytes i) (os_reserve i) = mi_totalBytes i - os_reserve i"
      using t by (intro js_sub_pos_exact(1)) simp_all
    then show ?thesis using os_reserve_nonneg [of i] by linarith
  next
    case False
    then show ?thesis using t by linarith
  qed
  then show ?thesis by (simp add: c min_le_iff_disj)
qed simp_all

section \<open>Properties of the budget\<close>

text \<open>(C20) Whatever the device reports, a budget that is returned never offers a negative amount
  of memory and never more than the device has; the memory attributed to other processes is
  within the same bounds and the headroom is not negative.\<close>

theorem budget_bounds:
  assumes "computeBudget i = Inr b"
  shows "0 \<le> mb_availableBytes b \<and> mb_availableBytes b \<le> mb_totalBytes b
       \<and> 0 \<le> mb_foreignBytes b \<and> mb_foreignBytes b \<le> mb_totalBytes b
       \<and> 0 \<le> mb_headroomBytes b"
  using assms
proof (cases rule: computeBudget_cases)
  case empty
  then show ?thesis by simp
next
  case (positive h c)
  then show ?thesis
    using clamp_bounds [of 0 "mi_totalBytes i"] kind_limits_headroom_nonneg [of i h c] by auto
qed

text \<open>The byte counts the program works with: integers that a double represents exactly.\<close>

definition byte_count :: "number \<Rightarrow> bool" where
  "byte_count x \<longleftrightarrow> x \<in> \<int> \<and> 0 \<le> x \<and> x \<le> 2 ^ 53"

definition plain_input :: "memory_input \<Rightarrow> bool" where
  "plain_input i \<longleftrightarrow> byte_count (mi_totalBytes i) \<and> byte_count (mi_usedBytes i)
     \<and> byte_count (mi_managedBytes i) \<and> (\<forall>w. mi_wiredLimitBytes i = Some w \<longrightarrow> byte_count w)"

lemma foreign_exact:
  assumes "plain_input i"
  shows "foreign_of i = max 0 (min (mi_usedBytes i - mi_managedBytes i) (mi_totalBytes i))"
proof -
  have "js_sub (mi_usedBytes i) (mi_managedBytes i) = mi_usedBytes i - mi_managedBytes i"
  proof (rule js_sub_Ints_exact)
    show "mi_usedBytes i \<in> \<int>" "mi_managedBytes i \<in> \<int>"
      using assms by (simp_all add: plain_input_def byte_count_def)
    show "\<bar>mi_usedBytes i - mi_managedBytes i\<bar> \<le> 2 ^ 53"
      using assms unfolding plain_input_def byte_count_def by linarith
  qed
  moreover have "0 \<le> mi_totalBytes i" using assms by (simp add: plain_input_def byte_count_def)
  ultimately show ?thesis by (auto simp: clamp_def min_def max_def)
qed

lemma foreign_Ints: "plain_input i \<Longrightarrow> foreign_of i \<in> \<int>"
  by (intro clamp_Ints js_sub_Ints) (simp_all add: plain_input_def byte_count_def)

lemma raw_clamped_exact:
  assumes plain: "plain_input i" and lim: "kind_limits i = Inr (h, c)"
  shows "clamp (raw_budget i h c) 0 (mi_totalBytes i)
       = max 0 (c - foreign_of i - mi_managedBytes i - h)"
proof -
  let ?f = "foreign_of i" and ?m = "mi_managedBytes i" and ?t = "mi_totalBytes i"
  have t: "?t \<in> \<int>" "0 \<le> ?t" "?t \<le> 2 ^ 53" and m: "?m \<in> \<int>" "0 \<le> ?m"
    using plain by (simp_all add: plain_input_def byte_count_def)
  have hc: "h \<in> \<int>" "c \<in> \<int>"
    using kind_limits_Ints [OF lim t(1)] plain by (auto simp: plain_input_def byte_count_def)
  have f: "?f \<in> \<int>" "0 \<le> ?f"
    using foreign_Ints [OF plain] clamp_bounds [OF t(2)] by simp_all
  have h: "0 \<le> h" using lim t(2) by (rule kind_limits_headroom_nonneg)
  have ct: "c \<le> ?t" using lim t by (rule kind_limits_ceiling)
  then have c53: "c \<le> 2 ^ 53" using t(3) by linarith
  show ?thesis
  proof (cases "0 < c - ?f - ?m - h")
    case True
    then have "raw_budget i h c = c - ?f - ?m - h"
      using hc f m h c53 by (intro raw_pos)
    then show ?thesis using True ct f m h by (simp add: clamp_def min_def max_def)
  next
    case False
    then have "\<not> 0 < raw_budget i h c"
      using raw_exact [of c ?f ?m h] hc f m h c53 by auto
    then show ?thesis using False t by (simp add: clamp_def min_def max_def)
  qed
qed

text \<open>The device of the first unit test: a 24 GiB card with 10 GiB used, 6 GiB of it ours.\<close>

definition card :: memory_input where
  "card = \<lparr>mi_kind = ''cuda'', mi_totalBytes = 24 * 1024 ^ 3, mi_usedBytes = 10 * 1024 ^ 3,
     mi_managedBytes = 6 * 1024 ^ 3, mi_wiredLimitBytes = None, mi_pressure = None,
     mi_interactive = None\<rparr>"

lemma card_plain: "plain_input card" "0 < mi_totalBytes card"
  by (simp_all add: card_def plain_input_def byte_count_def)

text \<open>The nearest double to 0.08, and the share of 24 GiB it gives.\<close>

lemma HEADROOM_FRAC_eval: "HEADROOM_FRAC = 5764607523034235 / 2 ^ 56"
  unfolding HEADROOM_FRAC_def by (subst fl_eval [of _ 56]) (simp_all add: rhe_def floor_frac_numeral)

lemma card_share: "share (24 * 1024 ^ 3) HEADROOM_FRAC = 2061584302"
proof -
  have e: "fl (24 * 1024 ^ 3 * (5764607523034235 / 2 ^ 56)) = 1080863910568919 / 524288"
    by (subst fl_eval [of _ 22]) (simp_all add: rhe_def floor_frac_numeral)
  show ?thesis
    unfolding share_def js_mul_def math_floor_def HEADROOM_FRAC_eval e
    by (simp add: floor_frac_numeral)
qed

lemma card_limits: "kind_limits card = Inr (2061584302, 24 * 1024 ^ 3)"
  using card_share by (simp add: kind_limits_def card_def HEADROOM_MIN_BYTES_def)

theorem budget_bounds_witness:
  "\<exists>b. computeBudget card = Inr b \<and> 0 \<le> mb_availableBytes b \<and> mb_availableBytes b \<le> 24 * 1024 ^ 3
     \<and> mb_foreignBytes b \<le> 24 * 1024 ^ 3"
proof -
  obtain b where b: "computeBudget card = Inr b" using computeBudget_positive [OF card_plain(2) card_limits] by simp
  moreover have "mb_totalBytes b = 24 * 1024 ^ 3"
    using b computeBudget_positive [OF card_plain(2) card_limits] by (auto simp: card_def)
  ultimately show ?thesis using budget_bounds [OF b] by auto
qed

lemma reserve_fits:
  assumes "plain_input i" and "computeBudget i = Inr b" and "0 < mb_availableBytes b"
  shows "mb_availableBytes b + mb_foreignBytes b + mb_managedBytes b
           + (if mi_kind i = ''cuda'' then mb_headroomBytes b else os_reserve i) \<le> mi_totalBytes i
       \<and> (mi_kind i = ''metal'' \<longrightarrow>
           mb_availableBytes b + mb_foreignBytes b + mb_managedBytes b \<le> wired_limit i)"
  using assms(2)
proof (cases rule: computeBudget_cases)
  case empty
  with assms(3) show ?thesis by simp
next
  case (positive h c)
  then have av: "mb_availableBytes b = max 0 (c - foreign_of i - mi_managedBytes i - h)"
    using raw_clamped_exact [OF assms(1)] assms(3) by (simp split: if_splits)
  then have sum: "mb_availableBytes b + mb_foreignBytes b + mb_managedBytes b + h = c"
    using positive assms(3) by simp
  from positive(2) show ?thesis
  proof (cases rule: kind_limits_cases)
    case metal
    let ?s = "js_sub (mi_totalBytes i) (os_reserve i)"
    have f0: "0 \<le> mb_foreignBytes b" and m0: "0 \<le> mb_managedBytes b"
      using positive clamp_bounds [of 0 "mi_totalBytes i"] assms(1)
      by (simp_all add: plain_input_def byte_count_def)
    have "0 < ?s" using sum metal f0 m0 assms(3) by linarith
    then have "?s = mi_totalBytes i - os_reserve i"
      using assms(1) by (intro js_sub_pos_exact(1)) (simp_all add: plain_input_def byte_count_def)
    then show ?thesis using sum metal by (simp add: min_def split: if_splits)
  qed (use sum positive in simp_all)
qed

lemma segments_fit:
  assumes "plain_input i" and "computeBudget i = Inr b" and "0 < mb_availableBytes b"
  shows "mb_availableBytes b + mb_foreignBytes b + mb_managedBytes b + mb_headroomBytes b \<le> mb_totalBytes b"
  using assms(2)
proof (cases rule: computeBudget_cases)
  case (positive h c)
  note r = conjunct1 [OF reserve_fits [OF assms]]
  have "mb_headroomBytes b \<le> (if mi_kind i = ''cuda'' then mb_headroomBytes b else os_reserve i)"
    using positive(2) by (cases rule: kind_limits_cases) (simp_all add: positive(6))
  then show ?thesis using r positive(3) by linarith
qed (use assms(3) in simp)

text \<open>(C1) No overcommitment. Whenever memory is offered at all, what is offered together with what
  is in use leaves the whole reserve of the device untouched: the headroom on a cuda device, the
  operating-system reserve on metal and cpu devices, and on metal it also stays below the wired
  limit.\<close>

theorem budget_leaves_reserve:
  assumes "plain_input i" and "computeBudget i = Inr b" and "0 < mb_availableBytes b"
  shows "mb_availableBytes b + mb_foreignBytes b + mb_managedBytes b
           + (if mi_kind i = ''cuda'' then mb_headroomBytes b else os_reserve i) \<le> mi_totalBytes i
       \<and> (mi_kind i = ''metal'' \<longrightarrow>
           mb_availableBytes b + mb_foreignBytes b + mb_managedBytes b \<le> wired_limit i)"
  using reserve_fits [OF assms] .

theorem budget_leaves_reserve_witness:
  "\<exists>b. computeBudget card = Inr b \<and> 0 < mb_availableBytes b
     \<and> mb_availableBytes b + mb_foreignBytes b + mb_managedBytes b + mb_headroomBytes b
         \<le> 24 * 1024 ^ 3"
proof -
  note eq = computeBudget_positive [OF card_plain(2) card_limits]
  obtain b where b: "computeBudget card = Inr b" and "b = projr (computeBudget card)"
    using eq by simp
  have pos: "0 < mb_availableBytes b"
    using b eq raw_clamped_exact [OF card_plain(1) card_limits] foreign_exact [OF card_plain(1)]
    by (auto simp: card_def)
  show ?thesis
    using budget_leaves_reserve [OF card_plain(1) b pos] b pos by (auto simp: card_def)
qed

lemma fraction_error:
  assumes "1 \<le> p" and "p < 50"
  shows "\<bar>fl (of_int p / 100) - of_int p / 100\<bar> \<le> of_int p / 100 / 2 ^ 53"
    and "1 / 200 \<le> fl (of_int p / 100)"
proof -
  have p: "1 / 100 \<le> (of_int p / 100 :: rat)" using assms(1) by simp
  have "1 / 2 ^ 1022 \<le> (1 / 100 :: rat)" by simp
  then show e: "\<bar>fl (of_int p / 100) - of_int p / 100\<bar> \<le> of_int p / 100 / 2 ^ 53"
    using p by (intro fl_error) (rule order_trans)
  have "of_int p / 100 / 2 ^ 53 \<le> (of_int p / 100 :: rat) / 2"
    using assms(1) by (simp add: field_simps)
  with e p show "1 / 200 \<le> fl (of_int p / 100)" by linarith
qed

lemma product_error:
  fixes t :: int
  assumes "1 \<le> t" and "t \<le> 2 ^ 53" and "1 \<le> p" and "p < 50"
  shows "\<bar>js_mul (of_int t) (fl (of_int p / 100)) - of_int t * of_int p / 100\<bar> < 1"
proof -
  define c where "c = fl (of_int p / 100 :: rat)"
  define q :: rat where "q = of_int p / 100"
  define u :: rat where "u = of_int t"
  have c: "\<bar>c - q\<bar> \<le> q / 2 ^ 53" "1 / 200 \<le> c"
    using fraction_error [OF assms(3,4)] by (simp_all add: c_def q_def)
  have q: "0 < q" "q \<le> 49 / 100" using assms(3,4) by (simp_all add: q_def)
  have u: "1 \<le> u" "u \<le> 2 ^ 53"
    using assms(1,2) unfolding u_def by (simp, metis of_int_le_iff of_int_numeral of_int_power)
  have "u * \<bar>c - q\<bar> \<le> 2 ^ 53 * (q / 2 ^ 53)" using u c q by (intro mult_mono) simp_all
  moreover have "\<bar>u * c - u * q\<bar> = u * \<bar>c - q\<bar>"
    using u by (simp add: abs_mult flip: right_diff_distrib)
  ultimately have e1: "\<bar>u * c - u * q\<bar> \<le> 49 / 100" using q by simp
  have "q / 2 ^ 53 \<le> 1 / 100" using q(2) by simp
  then have c1: "c \<le> 1 / 2" using c(1) q by linarith
  have "1 / 2 ^ 1022 \<le> (1 * (1 / 200) :: rat)" by simp
  also have "\<dots> \<le> u * c" using u c by (intro mult_mono) simp_all
  finally have "1 / 2 ^ 1022 \<le> u * c" .
  then have "\<bar>fl (u * c) - u * c\<bar> \<le> u * c / 2 ^ 53" by (rule fl_error)
  also have "u * c / 2 ^ 53 \<le> 2 ^ 53 * (1 / 2) / 2 ^ 53"
    using u c c1 by (intro divide_right_mono mult_mono) simp_all
  finally have "\<bar>fl (u * c) - u * c\<bar> \<le> 1 / 2" by simp
  with e1 have "\<bar>fl (u * c) - u * q\<bar> < 1" by linarith
  then show ?thesis by (simp add: js_mul_def c_def q_def u_def)
qed

text \<open>The reserves are the documented percentages: for every device of at most \<open>2\<^sup>5\<^sup>3\<close> bytes
  the share computed in floating point with the double nearest to \<open>p / 100\<close> is within one byte
  of the exact integer part of \<open>p\<close> percent of the memory, for the percentages 8, 15 and 30 the
  code uses and every other one below 50.\<close>

theorem share_accuracy:
  fixes t :: int
  assumes "0 \<le> t" and "t \<le> 2 ^ 53" and "1 \<le> p" and "p < 50"
  shows "\<bar>share (of_int t) (fl (of_int p / 100)) - of_int (t * p div 100)\<bar> \<le> 1"
proof (cases "t = 0")
  case True
  then show ?thesis by (simp add: share_def js_mul_def math_floor_def)
next
  case False
  let ?a = "js_mul (of_int t) (fl (of_int p / 100))"
  have "\<bar>?a - of_int t * of_int p / 100\<bar> < 1"
    using assms False by (intro product_error) simp_all
  then have "\<bar>\<lfloor>?a\<rfloor> - \<lfloor>of_int t * of_int p / 100 :: rat\<rfloor>\<bar> \<le> 1" by linarith
  moreover have "\<lfloor>of_int t * of_int p / 100 :: rat\<rfloor> = t * p div 100"
    using floor_divide_of_int_eq [of "t * p" 100, where 'a = rat] by simp
  ultimately show ?thesis
    unfolding share_def math_floor_def by (metis of_int_1 of_int_abs of_int_diff of_int_le_iff)
qed

theorem share_accuracy_witness:
  "\<bar>share (of_int (24 * 1024 ^ 3)) HEADROOM_FRAC - of_int (24 * 1024 ^ 3 * 8 div 100)\<bar> \<le> 1"
  using share_accuracy [of "24 * 1024 ^ 3" 8] unfolding HEADROOM_FRAC_def by simp

lemma wired_limit_update [simp]:
  "wired_limit (i\<lparr>mi_usedBytes := u\<rparr>) = wired_limit i"
  "wired_limit (i\<lparr>mi_interactive := x\<rparr>) = wired_limit i"
  by (simp_all add: wired_limit_def split: option.split)

lemma kind_limits_used: "kind_limits (i\<lparr>mi_usedBytes := u\<rparr>) = kind_limits i"
  by (simp add: kind_limits_def os_reserve_def)

lemma available_eq:
  assumes "computeBudget i = Inr b"
  shows "mb_availableBytes b =
    (if mi_totalBytes i \<le> 0 \<or> pressure_of i \<noteq> ''normal'' then 0
     else case kind_limits i of Inr (h, c) \<Rightarrow> clamp (raw_budget i h c) 0 (mi_totalBytes i)
        | Inl e \<Rightarrow> 0)"
  using assms by (cases rule: computeBudget_cases) auto

lemma computeBudget_returns:
  "(\<exists>b. computeBudget i = Inr b) \<longleftrightarrow>
     mi_totalBytes i \<le> 0 \<or> mi_kind i \<in> {''cuda'', ''metal'', ''cpu''}"
proof (cases "mi_totalBytes i \<le> 0")
  case True
  then show ?thesis by (simp add: computeBudget_empty)
next
  case False
  then show ?thesis
    using kind_limits_error [of i]
    by (cases "kind_limits i") (auto simp: computeBudget_def Let_def)
qed

lemma os_reserve_interactive:
  assumes "0 \<le> mi_totalBytes i"
  shows "os_reserve i \<le> os_reserve (i\<lparr>mi_interactive := Some True\<rparr>)"
  using share_mono [OF assms frac_order] by (auto simp: os_reserve_def Let_def)

lemma kind_limits_interactive:
  assumes "kind_limits i = Inr (h, c)" and "0 \<le> mi_totalBytes i"
  obtains h' c' where "kind_limits (i\<lparr>mi_interactive := Some True\<rparr>) = Inr (h', c')"
    and "h \<le> h'" and "c' \<le> c"
proof -
  note less = os_reserve_interactive [OF assms(2)]
  from assms(1) show ?thesis
  proof (cases rule: kind_limits_cases)
    case metal
    then show ?thesis
      using less js_sub_mono [OF order_refl less]
      by (intro that) (auto simp: kind_limits_def min_le_iff_disj)
  qed (use less in \<open>auto intro!: that simp: kind_limits_def\<close>)
qed

text \<open>Other processes can only take memory away: if the device reports more memory in use and
  nothing else changes, the budget still exists and never offers more than before. The same
  holds for flagging the machine as somebody's daily driver.\<close>

theorem budget_antimono:
  assumes "computeBudget i = Inr b" and "mi_usedBytes i \<le> u"
  shows "\<exists>b' b''. computeBudget (i\<lparr>mi_usedBytes := u\<rparr>) = Inr b'
    \<and> mb_availableBytes b' \<le> mb_availableBytes b
    \<and> computeBudget (i\<lparr>mi_interactive := Some True\<rparr>) = Inr b''
    \<and> mb_availableBytes b'' \<le> mb_availableBytes b"
proof -
  have ret: "mi_totalBytes i \<le> 0 \<or> mi_kind i \<in> {''cuda'', ''metal'', ''cpu''}"
    using assms(1) computeBudget_returns [of i] by blast
  obtain b' where b': "computeBudget (i\<lparr>mi_usedBytes := u\<rparr>) = Inr b'"
    using ret computeBudget_returns [of "i\<lparr>mi_usedBytes := u\<rparr>"] by auto
  obtain b'' where b'': "computeBudget (i\<lparr>mi_interactive := Some True\<rparr>) = Inr b''"
    using ret computeBudget_returns [of "i\<lparr>mi_interactive := Some True\<rparr>"] by auto
  have "mb_availableBytes b' \<le> mb_availableBytes b"
  proof (cases "kind_limits i")
    case (Inr hc)
    have "foreign_of i \<le> foreign_of (i\<lparr>mi_usedBytes := u\<rparr>)"
      using assms(2) by (simp add: clamp_mono js_sub_mono)
    then show ?thesis
      using Inr unfolding available_eq [OF assms(1)] available_eq [OF b'] kind_limits_used
      by (cases hc) (auto intro!: clamp_mono js_sub_mono)
  qed (simp add: available_eq [OF assms(1)] available_eq [OF b'] kind_limits_used)
  moreover have "mb_availableBytes b'' \<le> mb_availableBytes b"
    using assms(1)
  proof (cases rule: computeBudget_cases)
    case empty
    then show ?thesis by (simp add: available_eq [OF b''])
  next
    case (positive h c)
    obtain h' c' where "kind_limits (i\<lparr>mi_interactive := Some True\<rparr>) = Inr (h', c')"
      and "h \<le> h'" and "c' \<le> c"
      using positive by (auto elim: kind_limits_interactive)
    with positive show ?thesis
      by (auto simp: available_eq [OF b''] intro!: clamp_mono js_sub_mono)
  qed
  ultimately show ?thesis using b' b'' by blast
qed

theorem budget_antimono_witness:
  "\<exists>b b'. computeBudget card = Inr b \<and> computeBudget (card\<lparr>mi_usedBytes := 20 * 1024 ^ 3\<rparr>) = Inr b'
     \<and> mb_availableBytes b' \<le> mb_availableBytes b"
proof -
  obtain b where b: "computeBudget card = Inr b"
    using computeBudget_positive [OF card_plain(2) card_limits] by blast
  have "mi_usedBytes card \<le> 20 * 1024 ^ 3" by (simp add: card_def)
  then show ?thesis using budget_antimono [OF b] b by blast
qed

text \<open>Every outcome besides a regular budget: \<open>computeBudget\<close> throws exactly for a device
  with memory whose kind it does not know, naming the kind; a device without memory gets the zero
  budget and is never schedulable; any pressure other than normal makes the device
  unschedulable with nothing available.\<close>

theorem budget_edge_cases:
  "(\<forall>e. computeBudget i = Inl e \<longleftrightarrow>
       0 < mi_totalBytes i \<and> mi_kind i \<notin> {''cuda'', ''metal'', ''cpu''}
       \<and> e = JsError (''unknown device kind: '' @ mi_kind i))
   \<and> (\<forall>b. computeBudget i = Inr b \<longrightarrow>
       (mb_schedulable b \<longleftrightarrow> 0 < mi_totalBytes i \<and> pressure_of i = ''normal'')
       \<and> (\<not> mb_schedulable b \<longrightarrow> mb_availableBytes b = 0))"
proof (intro conjI allI impI)
  fix e
  show "computeBudget i = Inl e \<longleftrightarrow>
       0 < mi_totalBytes i \<and> mi_kind i \<notin> {''cuda'', ''metal'', ''cpu''}
       \<and> e = JsError (''unknown device kind: '' @ mi_kind i)"
    using kind_limits_error [of i e]
    by (auto simp: computeBudget_def Let_def split: sum.splits)
next
  fix b assume "computeBudget i = Inr b"
  then show "mb_schedulable b \<longleftrightarrow> 0 < mi_totalBytes i \<and> pressure_of i = ''normal''"
    and "\<not> mb_schedulable b \<Longrightarrow> mb_availableBytes b = 0"
    by (cases rule: computeBudget_cases; simp)+
qed

theorem budget_edge_cases_witness:
  "computeBudget \<lparr>mi_kind = ''npu'', mi_totalBytes = 1, mi_usedBytes = 0, mi_managedBytes = 0,
     mi_wiredLimitBytes = None, mi_pressure = None, mi_interactive = None\<rparr>
   = Inl (JsError ''unknown device kind: npu'')"
  using budget_edge_cases [of "\<lparr>mi_kind = ''npu'', mi_totalBytes = 1, mi_usedBytes = 0,
     mi_managedBytes = 0, mi_wiredLimitBytes = None, mi_pressure = None, mi_interactive = None\<rparr>"]
  by simp

text \<open>All byte figures of a budget are integers when the inputs are: what \<open>deviceView\<close> needs.\<close>

lemma budget_Ints:
  assumes "computeBudget i = Inr b"
    and "mi_totalBytes i \<in> \<int>" and "mi_usedBytes i \<in> \<int>" and "mi_managedBytes i \<in> \<int>"
    and "\<And>w. mi_wiredLimitBytes i = Some w \<Longrightarrow> w \<in> \<int>"
  shows "mb_totalBytes b \<in> \<int>" and "mb_managedBytes b \<in> \<int>" and "mb_foreignBytes b \<in> \<int>"
    and "mb_headroomBytes b \<in> \<int>" and "mb_availableBytes b \<in> \<int>"
proof -
  from assms(1) have "mb_totalBytes b \<in> \<int> \<and> mb_managedBytes b \<in> \<int> \<and> mb_foreignBytes b \<in> \<int>
    \<and> mb_headroomBytes b \<in> \<int> \<and> mb_availableBytes b \<in> \<int>"
  proof (cases rule: computeBudget_cases)
    case empty
    then show ?thesis by simp
  next
    case (positive h c)
    have "h \<in> \<int>" "c \<in> \<int>" using kind_limits_Ints [OF positive(2) assms(2)] assms(5) by auto
    moreover have "foreign_of i \<in> \<int>" using assms(2-4) by (intro clamp_Ints js_sub_Ints) simp_all
    ultimately show ?thesis
      using positive assms(2-4) by (simp add: clamp_Ints js_sub_Ints)
  qed
  then show "mb_totalBytes b \<in> \<int>" and "mb_managedBytes b \<in> \<int>" and "mb_foreignBytes b \<in> \<int>"
    and "mb_headroomBytes b \<in> \<int>" and "mb_availableBytes b \<in> \<int>" by simp_all
qed

end
