(* ===== verification/Wire.thy ===== *)
theory Wire
  imports Proto Memory Integrity
begin

text \<open>
  The translation between messages and rows: \<open>apps/control-plane/src/domain/wire.ts\<close>. The two
  tables are association lists in the order of the object literals; a lookup reads own
  properties. \<open>deviceView\<close> computes the memory budget on doubles and turns its figures into
  \<open>bigint\<close>s, which throws a \<open>RangeError\<close> for a figure that is not an integer: the theorems show
  that no stored row can trigger it, and that what it yields fits the \<open>uint64\<close> fields of the view.
\<close>

section \<open>The component\<close>

definition KINDS :: "(string \<times> enum) list" where
  "KINDS = [(''cpu'', DEVICE_KIND_CPU), (''cuda'', DEVICE_KIND_CUDA), (''metal'', DEVICE_KIND_METAL)]"

definition PRESSURES :: "(string \<times> enum) list" where
  "PRESSURES = [(''normal'', MEMORY_PRESSURE_NORMAL), (''warn'', MEMORY_PRESSURE_WARN),
                (''critical'', MEMORY_PRESSURE_CRITICAL)]"

definition nameOf :: "(string \<times> 'v) list \<Rightarrow> 'v \<Rightarrow> string option" where
  "nameOf table v = find (\<lambda>name. map_of table name = Some v) (map fst table)"

definition kindName :: "enum \<Rightarrow> string option" where
  "kindName = nameOf KINDS"

definition pressureName :: "enum \<Rightarrow> string option" where
  "pressureName = nameOf PRESSURES"

definition hostColumns :: "host_info option \<Rightarrow> host_columns" where
  "hostColumns host =
     \<lparr>hc_hostname = (case host of Some h \<Rightarrow> h_hostname h | None \<Rightarrow> []),
      hc_platform = (case host of Some h \<Rightarrow> h_platform h | None \<Rightarrow> []),
      hc_arch = (case host of Some h \<Rightarrow> h_arch h | None \<Rightarrow> []),
      hc_osVersion = (case host of Some h \<Rightarrow> h_osVersion h | None \<Rightarrow> []),
      hc_agentVersion = (case host of Some h \<Rightarrow> h_agentVersion h | None \<Rightarrow> []),
      hc_totalMemoryBytes = (case host of Some h \<Rightarrow> uint (h_totalMemoryBytes h) | None \<Rightarrow> 0),
      hc_cpuCores = (case host of Some h \<Rightarrow> uint (h_cpuCores h) | None \<Rightarrow> 0)\<rparr>"

text \<open>\<open>BigInt(x)\<close> in an expression: its value, or the thrown \<open>RangeError\<close>.\<close>

definition to_bigint :: "number \<Rightarrow> error + int" where
  "to_bigint x = (case BigInt x of None \<Rightarrow> Inl RangeError | Some n \<Rightarrow> Inr n)"

definition budget_input :: "device_row \<Rightarrow> memory_input" where
  "budget_input d =
     \<lparr>mi_kind = d_kind d, mi_totalBytes = Number_bigint (d_totalBytes d),
      mi_usedBytes = Number_bigint (d_lastUsedBytes d),
      mi_managedBytes = Number_bigint (d_lastManagedBytes d),
      mi_wiredLimitBytes = Some (Number_bigint (d_wiredLimitBytes d)),
      mi_pressure = Some (d_lastPressure d), mi_interactive = Some (d_interactive d)\<rparr>"

definition deviceView :: "device_row \<Rightarrow> error + device_view" where
  "deviceView d =
     (case computeBudget (budget_input d) of
        Inl e \<Rightarrow> Inl e
      | Inr budget \<Rightarrow>
          (case map_result to_bigint [mb_totalBytes budget, mb_managedBytes budget,
               mb_foreignBytes budget, mb_headroomBytes budget, mb_availableBytes budget] of
             Inr [t, m, f, h, a] \<Rightarrow>
               Inr \<lparr>dv_id = d_id d, dv_localId = d_localId d,
                    dv_kind = (case map_of KINDS (d_kind d) of Some k \<Rightarrow> k | None \<Rightarrow> DEVICE_KIND_UNSPECIFIED),
                    dv_name = d_name d, dv_totalBytes = t, dv_managedBytes = m, dv_foreignBytes = f,
                    dv_headroomBytes = h, dv_availableBytes = a, dv_utilization = d_lastUtilization d,
                    dv_pressure = (case map_of PRESSURES (d_lastPressure d) of Some p \<Rightarrow> p
                                   | None \<Rightarrow> MEMORY_PRESSURE_NORMAL),
                    dv_schedulable = mb_schedulable budget\<rparr>
           | _ \<Rightarrow> Inl RangeError))"

definition nodeView :: "node_row \<Rightarrow> device_row list \<Rightarrow> error + node_view" where
  "nodeView n deviceRows =
     (case to_bigint (of_int (case n_lastSeenAt n of Some t \<Rightarrow> t | None \<Rightarrow> 0)) of
        Inl e \<Rightarrow> Inl e
      | Inr seen \<Rightarrow>
          (case map_result deviceView deviceRows of
             Inl e \<Rightarrow> Inl e
           | Inr views \<Rightarrow>
               Inr \<lparr>nv_id = n_id n, nv_name = n_name n, nv_status = n_status n, nv_lastSeenUnixMs = seen,
                    nv_host = Some \<lparr>hc_hostname = n_hostname n, hc_platform = n_platform n, hc_arch = n_arch n,
                               hc_osVersion = n_osVersion n, hc_agentVersion = n_agentVersion n,
                               hc_totalMemoryBytes = n_totalMemoryBytes n, hc_cpuCores = n_cpuCores n\<rparr>,
                    nv_devices = views\<rparr>))"

section \<open>Names of enumeration members\<close>

lemma kindName_eq:
  "kindName k = (if k = 1 then Some ''cpu'' else if k = 2 then Some ''cuda'' else if k = 3 then Some ''metal'' else None)"
  by (simp add: kindName_def nameOf_def KINDS_def enum_defs)

lemma pressureName_eq:
  "pressureName p =
     (if p = 1 then Some ''normal'' else if p = 2 then Some ''warn'' else if p = 3 then Some ''critical'' else None)"
  by (simp add: pressureName_def nameOf_def PRESSURES_def enum_defs)

text \<open>The stored names and the numbers on the wire translate back and forth without loss: a
  number has a name exactly when the table has that name for it, and \<open>UNSPECIFIED\<close> and every number
  this build does not know have none.\<close>

theorem names_roundtrip:
  "(kindName k = Some name \<longleftrightarrow> map_of KINDS name = Some k)
   \<and> (pressureName k = Some name \<longleftrightarrow> map_of PRESSURES name = Some k)
   \<and> kindName DEVICE_KIND_UNSPECIFIED = None \<and> pressureName MEMORY_PRESSURE_UNSPECIFIED = None"
  by (auto simp: kindName_eq pressureName_eq KINDS_def PRESSURES_def enum_defs)

lemma kindName_kinds: "kindName k = Some name \<Longrightarrow> name \<in> {''cpu'', ''cuda'', ''metal''}"
  by (simp add: kindName_eq split: if_splits)

lemma pressureName_pressures: "pressureName k = Some name \<Longrightarrow> name \<in> {''normal'', ''warn'', ''critical''}"
  by (simp add: pressureName_eq split: if_splits)

section \<open>A device view exists and fits the message\<close>

lemma to_bigint_Ints: "x \<in> \<int> \<Longrightarrow> to_bigint x = Inr \<lfloor>x\<rfloor>"
  by (simp add: to_bigint_def BigInt_Ints)

lemma share_le: "0 \<le> t \<Longrightarrow> t \<le> 2 ^ 63 \<Longrightarrow> 0 \<le> c \<Longrightarrow> c \<le> 1 \<Longrightarrow> share t c \<le> 2 ^ 63"
proof -
  assume a: "0 \<le> t" "t \<le> 2 ^ 63" "0 \<le> c" "c \<le> 1"
  have "t * c \<le> t * 1" using a by (intro mult_left_mono) simp_all
  then have "t * c \<le> 2 ^ 63" using a(2) by linarith
  then have "fl (t * c) \<le> 2 ^ 63" using fl_mono fl_pow2 by metis
  moreover have "math_floor x \<le> x" for x by (simp add: math_floor_def)
  ultimately show ?thesis by (simp add: share_def js_mul_def) (meson order_trans)
qed

lemma fractions_le_1:
  "HEADROOM_FRAC \<le> 1" "OS_RESERVE_FRAC \<le> 1" "INTERACTIVE_RESERVE_FRAC \<le> 1"
proof -
  have "fl x \<le> 1" if "x \<le> 1" for x using fl_mono [OF that] fl_pow2 [of 0] by simp
  then show "HEADROOM_FRAC \<le> 1" "OS_RESERVE_FRAC \<le> 1" "INTERACTIVE_RESERVE_FRAC \<le> 1"
    by (simp_all add: HEADROOM_FRAC_def OS_RESERVE_FRAC_def INTERACTIVE_RESERVE_FRAC_def)
qed

lemma headroom_le:
  assumes "kind_limits i = Inr (h, c)" and "0 \<le> mi_totalBytes i" and "mi_totalBytes i \<le> 2 ^ 63"
  shows "h \<le> 2 ^ 63"
proof -
  have "os_reserve i \<le> 2 ^ 63"
    using share_le [OF assms(2,3)] fractions_le_1
    by (simp add: os_reserve_def OS_RESERVE_MIN_BYTES_def)
  moreover have "max HEADROOM_MIN_BYTES (share (mi_totalBytes i) HEADROOM_FRAC) \<le> 2 ^ 63"
    using share_le [OF assms(2,3)] fractions_le_1 by (simp add: HEADROOM_MIN_BYTES_def)
  ultimately show ?thesis using assms(1) by (auto elim!: kind_limits_cases)
qed

lemma budget_input_bounds:
  assumes "device_ok d"
  shows "0 \<le> mi_totalBytes (budget_input d)" "mi_totalBytes (budget_input d) \<le> 2 ^ 63"
    "0 \<le> mi_managedBytes (budget_input d)" "mi_managedBytes (budget_input d) \<le> 2 ^ 63"
  using assms Number_bigint_le_pow2 [of _ 63] by (simp_all add: device_ok_def budget_input_def)

lemma budget_input_returns:
  assumes "device_ok d"
  shows "\<exists>b. computeBudget (budget_input d) = Inr b"
proof (cases "computeBudget (budget_input d)")
  case (Inl e)
  then have "kind_limits (budget_input d) = Inl e"
    by (auto simp: computeBudget_def Let_def split: if_splits sum.splits)
  with assms show ?thesis by (auto simp: kind_limits_error budget_input_def device_ok_def)
qed simp

lemma budget_input_view:
  assumes "device_ok d" and b: "computeBudget (budget_input d) = Inr b"
  shows "deviceView d =
     Inr \<lparr>dv_id = d_id d, dv_localId = d_localId d, dv_kind = the (map_of KINDS (d_kind d)),
          dv_name = d_name d, dv_totalBytes = \<lfloor>mb_totalBytes b\<rfloor>, dv_managedBytes = \<lfloor>mb_managedBytes b\<rfloor>,
          dv_foreignBytes = \<lfloor>mb_foreignBytes b\<rfloor>, dv_headroomBytes = \<lfloor>mb_headroomBytes b\<rfloor>,
          dv_availableBytes = \<lfloor>mb_availableBytes b\<rfloor>, dv_utilization = d_lastUtilization d,
          dv_pressure = the (map_of PRESSURES (d_lastPressure d)), dv_schedulable = mb_schedulable b\<rparr>"
proof -
  have "mb_totalBytes b \<in> \<int>" "mb_managedBytes b \<in> \<int>" "mb_foreignBytes b \<in> \<int>"
    "mb_headroomBytes b \<in> \<int>" "mb_availableBytes b \<in> \<int>"
    by (rule budget_Ints [OF b]; simp add: budget_input_def; fail)+
  then have m: "map_result to_bigint [mb_totalBytes b, mb_managedBytes b, mb_foreignBytes b, mb_headroomBytes b,
      mb_availableBytes b] = Inr [\<lfloor>mb_totalBytes b\<rfloor>, \<lfloor>mb_managedBytes b\<rfloor>, \<lfloor>mb_foreignBytes b\<rfloor>,
      \<lfloor>mb_headroomBytes b\<rfloor>, \<lfloor>mb_availableBytes b\<rfloor>]"
    by (simp add: to_bigint_Ints)
  show ?thesis
    unfolding deviceView_def b using assms(1) m
    by (auto simp: device_ok_def KINDS_def PRESSURES_def)
qed

lemma budget_view_bounds:
  assumes ok: "device_ok d" and b: "computeBudget (budget_input d) = Inr b"
  shows "0 \<le> mb_availableBytes b" "mb_availableBytes b \<le> mb_totalBytes b" "mb_totalBytes b \<le> 2 ^ 63"
    "0 \<le> mb_foreignBytes b" "mb_foreignBytes b \<le> mb_totalBytes b"
    "0 \<le> mb_headroomBytes b" "mb_headroomBytes b \<le> 2 ^ 63"
    "0 \<le> mb_managedBytes b" "mb_managedBytes b \<le> 2 ^ 63"
proof -
  note i = budget_input_bounds [OF ok]
  have "0 \<le> mb_availableBytes b \<and> mb_availableBytes b \<le> mb_totalBytes b \<and> mb_totalBytes b \<le> 2 ^ 63
    \<and> 0 \<le> mb_foreignBytes b \<and> mb_foreignBytes b \<le> mb_totalBytes b
    \<and> 0 \<le> mb_headroomBytes b \<and> mb_headroomBytes b \<le> 2 ^ 63
    \<and> 0 \<le> mb_managedBytes b \<and> mb_managedBytes b \<le> 2 ^ 63"
    using b
  proof (cases rule: computeBudget_cases)
    case empty
    then show ?thesis by simp
  next
    case (positive h c)
    then show ?thesis
      using i clamp_bounds [of 0 "mi_totalBytes (budget_input d)"]
        kind_limits_headroom_nonneg [OF positive(2)] headroom_le [OF positive(2)] by auto
  qed
  then show "0 \<le> mb_availableBytes b" "mb_availableBytes b \<le> mb_totalBytes b" "mb_totalBytes b \<le> 2 ^ 63"
    "0 \<le> mb_foreignBytes b" "mb_foreignBytes b \<le> mb_totalBytes b"
    "0 \<le> mb_headroomBytes b" "mb_headroomBytes b \<le> 2 ^ 63"
    "0 \<le> mb_managedBytes b" "mb_managedBytes b \<le> 2 ^ 63" by simp_all
qed

lemma floor_uint64: "0 \<le> x \<Longrightarrow> x \<le> 2 ^ 63 \<Longrightarrow> uint64 \<lfloor>x :: rat\<rfloor>"
proof -
  assume "0 \<le> x" "x \<le> 2 ^ 63"
  then have "0 \<le> \<lfloor>x\<rfloor>" "\<lfloor>x\<rfloor> \<le> \<lfloor>2 ^ 63 :: rat\<rfloor>" by (simp_all add: floor_mono)
  then show ?thesis by (simp add: uint64_def)
qed

text \<open>The four figures of a device that offers memory share its total, for byte counts a double holds exactly.\<close>

lemma view_segments:
  assumes "device_ok d" and "d_totalBytes d \<le> 2 ^ 53" and "d_lastUsedBytes d \<le> 2 ^ 53"
    and "d_lastManagedBytes d \<le> 2 ^ 53" and "d_wiredLimitBytes d \<le> 2 ^ 53"
    and v: "deviceView d = Inr v" and "0 < dv_availableBytes v"
  shows "dv_availableBytes v + dv_foreignBytes v + dv_managedBytes v + dv_headroomBytes v \<le> dv_totalBytes v
       \<and> dv_totalBytes v \<le> 2 ^ 53 \<and> 0 \<le> dv_foreignBytes v \<and> 0 \<le> dv_managedBytes v \<and> 0 \<le> dv_headroomBytes v"
proof -
  obtain b where b: "computeBudget (budget_input d) = Inr b" using budget_input_returns [OF assms(1)] by blast
  note eq = budget_input_view [OF assms(1) b] and bd = budget_view_bounds [OF assms(1) b]
  have i: "mb_totalBytes b \<in> \<int>" "mb_managedBytes b \<in> \<int>" "mb_foreignBytes b \<in> \<int>"
    "mb_headroomBytes b \<in> \<int>" "mb_availableBytes b \<in> \<int>"
    by (rule budget_Ints [OF b]; simp add: budget_input_def; fail)+
  have plain: "plain_input (budget_input d)"
    using assms(1-5) by (simp add: plain_input_def byte_count_def budget_input_def device_ok_def) 
  have "0 < mb_availableBytes b" using assms(7) v eq i(5) by auto
  note f = segments_fit [OF plain b this]
  have t: "mb_totalBytes b \<le> 2 ^ 53"
    using b by (cases rule: computeBudget_cases) (use plain in \<open>simp_all add: plain_input_def byte_count_def\<close>)
  obtain T M F H A where w: "mb_totalBytes b = of_int T" "mb_managedBytes b = of_int M" "mb_foreignBytes b = of_int F"
    "mb_headroomBytes b = of_int H" "mb_availableBytes b = of_int A"
    using i by (auto elim!: Ints_cases)
  have "T \<le> 2 ^ 53" using t unfolding w by (metis of_int_le_iff of_int_numeral of_int_power)
  moreover have "A + F + M + H \<le> T" using f unfolding w by (simp flip: of_int_add)
  ultimately show ?thesis using v eq bd by (auto simp: w)
qed

text \<open>(C31) A stored device can always be shown: \<open>deviceView\<close> never throws for it, every byte count
  it puts into the view fits the \<open>uint64\<close> field (so encoding the response does not fail either),
  no more memory is offered than the device has, and the kind and pressure are never
  \<open>UNSPECIFIED\<close>.\<close>

theorem deviceView_total:
  assumes "device_ok d"
  shows "\<exists>v. deviceView d = Inr v \<and> dv_id v = d_id d \<and> dv_localId v = d_localId d
     \<and> uint64 (dv_totalBytes v) \<and> uint64 (dv_managedBytes v) \<and> uint64 (dv_foreignBytes v)
     \<and> uint64 (dv_headroomBytes v) \<and> uint64 (dv_availableBytes v)
     \<and> dv_availableBytes v \<le> dv_totalBytes v
     \<and> (dv_schedulable v \<longleftrightarrow> 0 < d_totalBytes d \<and> d_lastPressure d = ''normal'')
     \<and> kindName (dv_kind v) = Some (d_kind d) \<and> pressureName (dv_pressure v) = Some (d_lastPressure d)"
proof -
  obtain b where b: "computeBudget (budget_input d) = Inr b"
    using budget_input_returns [OF assms] by blast
  note v = budget_input_view [OF assms b]
  note r = budget_view_bounds [OF assms b]
  have names: "kindName (the (map_of KINDS (d_kind d))) = Some (d_kind d)"
    "pressureName (the (map_of PRESSURES (d_lastPressure d))) = Some (d_lastPressure d)"
    using assms by (auto simp: device_ok_def kindName_eq pressureName_eq KINDS_def PRESSURES_def enum_defs)
  have pos: "0 < mi_totalBytes (budget_input d) \<longleftrightarrow> 0 < d_totalBytes d"
  proof
    assume "0 < d_totalBytes d"
    then have "Number_bigint 1 \<le> Number_bigint (d_totalBytes d)" by (intro Number_bigint_mono) simp
    then show "0 < mi_totalBytes (budget_input d)" by (simp add: budget_input_def)
  next
    assume "0 < mi_totalBytes (budget_input d)"
    then show "0 < d_totalBytes d"
      using Number_bigint_mono [of "d_totalBytes d" 0]
      by (cases "d_totalBytes d \<le> 0") (simp_all add: budget_input_def)
  qed
  have sched: "mb_schedulable b \<longleftrightarrow> 0 < d_totalBytes d \<and> d_lastPressure d = ''normal''"
    unfolding pos [symmetric] using b
    by (cases rule: computeBudget_cases) (simp_all add: budget_input_def)
  have "uint64 \<lfloor>mb_totalBytes b\<rfloor>" "uint64 \<lfloor>mb_managedBytes b\<rfloor>" "uint64 \<lfloor>mb_foreignBytes b\<rfloor>"
    "uint64 \<lfloor>mb_headroomBytes b\<rfloor>" "uint64 \<lfloor>mb_availableBytes b\<rfloor>"
    using r by (auto intro!: floor_uint64)
  moreover have "\<lfloor>mb_availableBytes b\<rfloor> \<le> \<lfloor>mb_totalBytes b\<rfloor>" using r by (intro floor_mono)
  ultimately show ?thesis using v names sched by simp
qed

lemma nodeView_total:
  assumes "\<And>d. d \<in> set ds \<Longrightarrow> device_ok d"
  shows "\<exists>v. nodeView n ds = Inr v \<and> nv_id v = n_id n \<and> list_all2 (\<lambda>d w. deviceView d = Inr w) ds (nv_devices v)"
proof -
  obtain vs where vs: "map_result deviceView ds = Inr vs"
    using map_result_total [of ds deviceView] budget_input_returns budget_input_view assms by metis
  moreover have "to_bigint (of_int k) = Inr k" for k by (simp add: to_bigint_def)
  ultimately show ?thesis by (simp add: nodeView_def flip: map_result_Inr)
qed

section \<open>A stored device\<close>

definition demo_id :: uuid where
  "demo_id = ''00000000-0000-4000-8000-00000000000a''"

definition demo_device :: device_row where
  "demo_device = \<lparr>d_id = ''d1'', d_orgId = ''org_a'', d_nodeId = demo_id, d_localId = ''cuda:0'',
     d_kind = ''cuda'', d_index = 0, d_name = ''RTX 4090'', d_totalBytes = 24 * 1024 ^ 3,
     d_wiredLimitBytes = 0, d_driverVersion = ''550'', d_computeCapability = ''8.9'',
     d_interactive = False, d_lastUsedBytes = 2 * 1024 ^ 3, d_lastManagedBytes = 0,
     d_lastUtilization = 0, d_lastPressure = ''normal'', d_lastSampleAt = Some 1000,
     d_createdAt = 0\<rparr>"

lemma demo_device_ok: "device_ok demo_device"
  by (simp add: demo_device_def device_ok_def)

theorem deviceView_total_witness:
  "\<exists>v. deviceView demo_device = Inr v \<and> dv_schedulable v \<and> kindName (dv_kind v) = Some ''cuda''
     \<and> uint64 (dv_availableBytes v)"
  using deviceView_total [OF demo_device_ok] by (auto simp: demo_device_def)

end
