(* ===== verification/Nodes.thy ===== *)
theory Nodes
  imports Pairing Wire
begin

text \<open>
  The life of a node: \<open>apps/control-plane/src/domain/nodes.ts\<close>. Enrollment redeems a pairing code
  and inserts the node; the handlers of the connection stream mark it online, replace its
  inventory of devices and apply samples. Clock readings, the uuids the column defaults generate
  and the keyed hash are arguments. A parameter compared with a uuid column is read as a uuid
  first; texts, integers and dates are checked against their columns, as the server does.
\<close>

section \<open>Enrollment\<close>

record enroll_input =
  ei_pairingCode :: string
  ei_publicKey :: bytes
  ei_nodeName :: string
  ei_host :: host_columns

definition ALREADY_ENROLLED :: string where
  "ALREADY_ENROLLED = ''this key is already enrolled; re-install to get a new identity''"

definition isPublicKeyUniqueViolation :: "error \<Rightarrow> bool" where
  "isPublicKeyUniqueViolation err =
     (case err of PgError (Pg23505 constraint_name) \<Rightarrow> constraint_name = ''nodes_public_key_idx'' | _ \<Rightarrow> False)"

text \<open>\<open>a || b || c || "node"\<close> on strings: the first that is not empty.\<close>

definition node_name :: "enroll_input \<Rightarrow> string \<Rightarrow> string" where
  "node_name input nodeName =
     (if ei_nodeName input \<noteq> [] then ei_nodeName input
      else if nodeName \<noteq> [] then nodeName
      else if hc_hostname (ei_host input) \<noteq> [] then hc_hostname (ei_host input)
      else ''node'')"

definition new_node :: "uuid \<Rightarrow> millis \<Rightarrow> string \<Rightarrow> string \<Rightarrow> enroll_input \<Rightarrow> node_row" where
  "new_node fresh created orgId nodeName input =
     (let host = ei_host input in
      \<lparr>n_id = fresh, n_orgId = orgId, n_name = node_name input nodeName, n_status = ''offline'',
       n_platform = hc_platform host, n_arch = hc_arch host, n_osVersion = hc_osVersion host,
       n_agentVersion = hc_agentVersion host, n_hostname = hc_hostname host,
       n_totalMemoryBytes = hc_totalMemoryBytes host, n_cpuCores = hc_cpuCores host,
       n_publicKey = ei_publicKey input, n_siteId = None, n_lastSeenAt = None, n_createdAt = created\<rparr>)"

definition node_columns :: "node_row \<Rightarrow> pg_error + unit" where
  "node_columns n = check_columns [n_orgId n, n_name n, n_status n, n_platform n, n_arch n, n_osVersion n,
     n_agentVersion n, n_hostname n] [n_totalMemoryBytes n] [n_cpuCores n]"

definition enrollNode ::
  "conn \<Rightarrow> (string \<Rightarrow> string \<Rightarrow> string) \<Rightarrow> string \<Rightarrow> millis \<Rightarrow> millis \<Rightarrow> uuid \<Rightarrow> millis \<Rightarrow> enroll_input
   \<Rightarrow> (db, error, enroll_response) op" where
  "enrollNode owner hmac pepper claimed checked fresh created input =
     (if length (ei_publicKey input) \<noteq> 32
      then op_throw (EnrollmentError ''public key must be a 32-byte Ed25519 key'')
      else op_bind (op_get (\<lambda>s. first_row (sql_select owner n_orgId (\<lambda>r. n_publicKey r = ei_publicKey input) (t_nodes s))))
        (\<lambda>existing.
           if existing \<noteq> None then op_throw (EnrollmentError ALREADY_ENROLLED)
           else op_bind (redeemPairingCode owner hmac pepper claimed checked (ei_pairingCode input))
             (\<lambda>(orgId, nodeName).
                op_bind
                  (op_catch
                     (op_bind
                        (withOrg orgId (\<lambda>tx.
                           op_bind (pg_check (node_columns (new_node fresh created orgId nodeName input)))
                             (\<lambda>_. insert_node tx (new_node fresh created orgId nodeName input))))
                        (\<lambda>row. op_return (n_id row)))
                     (\<lambda>err. if isPublicKeyUniqueViolation err
                            then op_throw (EnrollmentError ALREADY_ENROLLED) else op_throw err))
                  (\<lambda>nodeId.
                     op_bind (op_get (\<lambda>s. first_row (filter (\<lambda>o1. o_id o1 = orgId) (t_organization s))))
                       (\<lambda>org. op_return
                          \<lparr>ers_nodeId = nodeId, ers_orgId = orgId,
                           ers_orgName = (case org of Some o1 \<Rightarrow> o_name o1 | None \<Rightarrow> [])\<rparr>)))))"

section \<open>The handlers of the stream\<close>

definition host_checks :: "host_columns \<Rightarrow> pg_error + unit" where
  "host_checks h = check_columns [hc_hostname h, hc_platform h, hc_arch h, hc_osVersion h, hc_agentVersion h]
     [hc_totalMemoryBytes h] [hc_cpuCores h]"

definition set_host :: "host_columns \<Rightarrow> node_row \<Rightarrow> node_row" where
  "set_host h n = n\<lparr>n_hostname := hc_hostname h, n_platform := hc_platform h, n_arch := hc_arch h,
     n_osVersion := hc_osVersion h, n_agentVersion := hc_agentVersion h,
     n_totalMemoryBytes := hc_totalMemoryBytes h, n_cpuCores := hc_cpuCores h\<rparr>"

definition markNodeOnline :: "millis \<Rightarrow> string \<Rightarrow> string \<Rightarrow> host_columns \<Rightarrow> (db, error, unit) op" where
  "markNodeOnline now orgId nodeId host =
     withOrg orgId (\<lambda>tx.
       op_bind (pg_check (uuid_in nodeId)) (\<lambda>nid.
       op_bind (pg_check (host_checks host)) (\<lambda>_.
       op_bind (on_nodes (sql_update tx n_orgId (\<lambda>n. n_id n = nid)
                  (\<lambda>n. (set_host host n)\<lparr>n_status := ''online'', n_lastSeenAt := Some now\<rparr>)))
         (\<lambda>_. op_return ()))))"

text \<open>A reported device whose kind has a name, with that name.\<close>

definition known_devices :: "device list \<Rightarrow> (device \<times> string) list" where
  "known_devices reported =
     concat (map (\<lambda>d. case kindName (dev_kind d) of Some kind \<Rightarrow> [(d, kind)] | None \<Rightarrow> []) reported)"

definition device_checks :: "device \<Rightarrow> string \<Rightarrow> pg_error + unit" where
  "device_checks d kind = check_columns
     [dev_localId d, kind, dev_name d, dev_driverVersion d, dev_computeCapability d]
     [uint (dev_totalBytes d), uint (dev_wiredLimitBytes d)] [uint (dev_index d)]"

definition set_facts :: "device \<Rightarrow> string \<Rightarrow> device_row \<Rightarrow> device_row" where
  "set_facts d kind r =
     r\<lparr>d_kind := kind, d_index := uint (dev_index d), d_name := dev_name d,
       d_totalBytes := uint (dev_totalBytes d), d_wiredLimitBytes := uint (dev_wiredLimitBytes d),
       d_driverVersion := dev_driverVersion d, d_computeCapability := dev_computeCapability d\<rparr>"

text \<open>The row an insert creates, with the column defaults.\<close>

definition new_device :: "uuid \<Rightarrow> millis \<Rightarrow> string \<Rightarrow> uuid \<Rightarrow> device \<Rightarrow> string \<Rightarrow> device_row" where
  "new_device fresh created orgId nodeId d kind =
     set_facts d kind
       \<lparr>d_id = fresh, d_orgId = orgId, d_nodeId = nodeId, d_localId = dev_localId d, d_kind = [],
        d_index = 0, d_name = [], d_totalBytes = 0, d_wiredLimitBytes = 0, d_driverVersion = [],
        d_computeCapability = [], d_interactive = False, d_lastUsedBytes = 0, d_lastManagedBytes = 0,
        d_lastUtilization = 0, d_lastPressure = ''normal'', d_lastSampleAt = None, d_createdAt = created\<rparr>"

text \<open>\<open>fresh k\<close> is the uuid generated for the \<open>k\<close>-th insert of the loop.\<close>

definition recordInventory ::
  "(nat \<Rightarrow> uuid) \<Rightarrow> millis \<Rightarrow> string \<Rightarrow> string \<Rightarrow> device list \<Rightarrow> (db, error, unit) op" where
  "recordInventory fresh created orgId nodeId reported =
     (let known = known_devices reported; keep = map (\<lambda>(d, kind). dev_localId d) known in
      withOrg orgId (\<lambda>tx.
        op_bind
          (op_for (enumerate 0 known) (\<lambda>(k, d, kind).
             op_bind (pg_check (uuid_in nodeId)) (\<lambda>nid.
             op_bind (pg_check (device_checks d kind)) (\<lambda>_.
             upsert_device tx (new_device (fresh k) created orgId nid d kind) (set_facts d kind)))))
          (\<lambda>_.
             op_bind (pg_check (uuid_in nodeId)) (\<lambda>nid.
             on_devices (sql_delete tx d_orgId
               (if keep \<noteq> [] then (\<lambda>r. d_nodeId r = nid \<and> d_localId r \<notin> set keep)
                else (\<lambda>r. d_nodeId r = nid)))))))"

definition sample_checks :: "device_sample \<Rightarrow> pg_error + unit" where
  "sample_checks x = check_columns [s_localId x] [uint (s_usedBytes x), uint (s_managedBytes x)] []"

definition set_sample :: "device_sample \<Rightarrow> millis \<Rightarrow> device_row \<Rightarrow> device_row" where
  "set_sample x sampled r =
     r\<lparr>d_lastUsedBytes := uint (s_usedBytes x), d_lastManagedBytes := uint (s_managedBytes x),
       d_lastUtilization := pg_double (s_utilization x),
       d_lastPressure := (case pressureName (s_pressure x) of Some p \<Rightarrow> p | None \<Rightarrow> ''normal''),
       d_lastSampleAt := Some sampled\<rparr>"

text \<open>\<open>new Date(Number(s.sampledAtUnixMs))\<close>; turning an invalid date into text throws.\<close>

definition sample_date :: "device_sample \<Rightarrow> error + millis" where
  "sample_date x =
     (case new_Date (Number_bigint (sint (s_sampledAtUnixMs x))) of
        None \<Rightarrow> Inl RangeError
      | Some t \<Rightarrow> (case pg_timestamp t of Inl e \<Rightarrow> Inl (PgError e) | Inr t \<Rightarrow> Inr t))"

definition recordSamples :: "millis \<Rightarrow> string \<Rightarrow> string \<Rightarrow> device_sample list \<Rightarrow> (db, error, unit) op" where
  "recordSamples now orgId nodeId samples =
     withOrg orgId (\<lambda>tx.
       op_bind
         (op_for samples (\<lambda>x.
            op_bind (op_lift (sample_date x)) (\<lambda>sampled.
            op_bind (pg_check (uuid_in nodeId)) (\<lambda>nid.
            op_bind (pg_check (sample_checks x)) (\<lambda>_.
            op_bind (on_devices (sql_update tx d_orgId
                (\<lambda>r. d_nodeId r = nid \<and> d_localId r = s_localId x) (set_sample x sampled)))
              (\<lambda>_. op_return ()))))))
         (\<lambda>_.
            op_bind (pg_check (uuid_in nodeId)) (\<lambda>nid.
            op_bind (on_nodes (sql_update tx n_orgId (\<lambda>n. n_id n = nid)
                (\<lambda>n. n\<lparr>n_lastSeenAt := Some now, n_status := ''online''\<rparr>)))
              (\<lambda>_. op_return ()))))"

section \<open>Integrity\<close>

text \<open>The columns of a host that a message can carry.\<close>

definition host_ok :: "host_columns \<Rightarrow> bool" where
  "host_ok h \<longleftrightarrow> 0 \<le> hc_totalMemoryBytes h \<and> 0 \<le> hc_cpuCores h"

lemma hostColumns_ok [simp]: "host_ok (hostColumns host)"
  by (simp add: host_ok_def hostColumns_def split: option.split)

lemma new_node_ok:
  assumes "length (ei_publicKey input) = 32" and "host_ok (ei_host input)"
    and "node_columns (new_node fresh created org name input) = Inr u"
  shows "node_ok (new_node fresh created org name input)"
  using assms by (simp add: node_ok_def node_columns_def check_columns_Inr new_node_def Let_def
      host_ok_def pg_int8_def pg_int4_def)

lemma wf_enroll [wf_intros]:
  assumes "host_ok (ei_host input)"
  shows "keeps wf_db (enrollNode owner hmac pepper claimed checked fresh created input)"
proof (cases "length (ei_publicKey input) = 32")
  case True
  have ins: "keeps wf_db (withOrg org (\<lambda>tx.
      op_bind (pg_check (node_columns (new_node fresh created org nm input)))
        (\<lambda>_. insert_node tx (new_node fresh created org nm input))))" for org nm
    using new_node_ok [OF True assms] by (intro wf_withOrg keeps_check_bind wf_insert_node)
  show ?thesis
    unfolding enrollNode_def using True
    by (auto intro!: keeps_bind keeps_catch wf_redeem ins split: prod.splits)
qed (simp add: enrollNode_def)

lemma set_host_keys [simp]:
  "n_id (set_host h n) = n_id n" "n_orgId (set_host h n) = n_orgId n" "n_publicKey (set_host h n) = n_publicKey n"
  by (simp_all add: set_host_def)

lemma wf_markNodeOnline [wf_intros]: "host_ok h \<Longrightarrow> keeps wf_db (markNodeOnline now orgId nodeId h)"
  unfolding markNodeOnline_def
  by (intro wf_withOrg keeps_check_bind keeps_bind wf_update_nodes)
    (auto simp: host_checks_def check_columns_Inr node_ok_def set_host_def host_ok_def pg_int8_def pg_int4_def)

lemma known_devices_iff: "(d, kind) \<in> set (known_devices ds) \<longleftrightarrow> d \<in> set ds \<and> kindName (dev_kind d) = Some kind"
  by (force simp: known_devices_def split: option.splits)

lemma set_facts_keys [simp]:
  "d_id (set_facts d kind r) = d_id r" "d_orgId (set_facts d kind r) = d_orgId r"
  "d_nodeId (set_facts d kind r) = d_nodeId r" "d_localId (set_facts d kind r) = d_localId r"
  by (simp_all add: set_facts_def)

lemma new_device_keys [simp]:
  "d_id (new_device fresh created org nid d kind) = fresh"
  "d_orgId (new_device fresh created org nid d kind) = org"
  "d_nodeId (new_device fresh created org nid d kind) = nid"
  "d_localId (new_device fresh created org nid d kind) = dev_localId d"
  by (simp_all add: new_device_def)

lemma set_facts_ok:
  assumes "kindName (dev_kind d) = Some kind" and "device_checks d kind = Inr u"
  shows "device_ok r \<Longrightarrow> device_ok (set_facts d kind r)"
    and "device_ok (new_device fresh created org nid d kind)"
  using assms kindName_kinds [OF assms(1)]
  by (auto simp: device_ok_def set_facts_def new_device_def device_checks_def check_columns_Inr pg_int8_def)

lemma keeps_owns: "preserves t_nodes m \<Longrightarrow> keeps (owns org nid) m"
  by (auto simp: preserves_def keeps_def owns_def)

lemma enumerate_known:
  "(k, d, kind) \<in> set (enumerate 0 (known_devices ds)) \<Longrightarrow> kindName (dev_kind d) = Some kind"
proof -
  assume "(k, d, kind) \<in> set (enumerate 0 (known_devices ds))"
  then have "k < length (known_devices ds)" "known_devices ds ! k = (d, kind)"
    by (simp_all add: in_set_enumerate_eq)
  then have "(d, kind) \<in> set (known_devices ds)" using nth_mem [of k "known_devices ds"] by simp
  then show ?thesis by (simp add: known_devices_iff)
qed

lemma uuid_in_Inr: "uuid_in s = Inr x \<longleftrightarrow> isUuid s \<and> x = toLowerCase s"
  by (auto simp: uuid_in_def)

text \<open>
  An inventory keeps integrity when it is recorded for the organization the node belongs to: the
  foreign keys alone would accept a device that names another organization's node.
\<close>

lemma wf_recordInventory:
  "keeps (\<lambda>s. wf_db s \<and> owns orgId (toLowerCase nodeId) s) (recordInventory fresh created orgId nodeId reported)"
proof -
  let ?I = "\<lambda>s. wf_db s \<and> owns orgId (toLowerCase nodeId) s"
  have up: "keeps ?I (upsert_device tx (new_device fr created orgId (toLowerCase nodeId) d kind) (set_facts d kind))"
    if "kindName (dev_kind d) = Some kind" "device_checks d kind = Inr u" for tx fr d kind u
    using wf_upsert_device [of "set_facts d kind" "new_device fr created orgId (toLowerCase nodeId) d kind" tx]
      set_facts_ok [OF that] by simp
  have del: "keeps ?I (on_devices (sql_delete tx d_orgId P))" for tx P
    using wf_delete_devices [of tx P]
    by (auto simp: keeps_def on_table_def sql_delete_def owns_def)
  show ?thesis
    unfolding recordInventory_def Let_def
    by (intro wf_withOrg keeps_bind keeps_for)
      (auto split: prod.splits simp: uuid_in_Inr dest!: enumerate_known
        intro!: keeps_check_bind keeps_bind up del)
qed

lemma set_sample_keys [simp]:
  "d_id (set_sample x t r) = d_id r" "d_orgId (set_sample x t r) = d_orgId r"
  "d_nodeId (set_sample x t r) = d_nodeId r" "d_localId (set_sample x t r) = d_localId r"
  by (simp_all add: set_sample_def)

lemma set_sample_ok: "sample_checks x = Inr u \<Longrightarrow> device_ok r \<Longrightarrow> device_ok (set_sample x t r)"
  using pressureName_pressures [of "s_pressure x"]
  by (auto simp: sample_checks_def check_columns_Inr device_ok_def set_sample_def pg_int8_def
      split: option.split)

lemma wf_recordSamples [wf_intros]: "keeps wf_db (recordSamples now orgId nodeId samples)"
  unfolding recordSamples_def
  by (intro wf_withOrg keeps_bind keeps_for keeps_check_bind wf_update_devices wf_update_nodes
      keeps_lift keeps_return)
    (auto simp: set_sample_ok node_ok_def)

section \<open>Tenancy\<close>

interpretation online_scoped: org_confined "\<lambda>orgId. markNodeOnline now orgId nodeId host" for now nodeId host
proof unfold_locales
  fix org
  show "preserves (outside org) (markNodeOnline now org nodeId host)"
    unfolding markNodeOnline_def by (intro frame_intros)
  show "confined org (markNodeOnline now org nodeId host)"
    unfolding markNodeOnline_def
    by (intro confined_withOrg confined_bind confined_check nodes_tbl.update_confined confined_return)
qed

interpretation samples_scoped: org_confined "\<lambda>orgId. recordSamples now orgId nodeId samples" for now nodeId samples
proof unfold_locales
  fix org
  show "preserves (outside org) (recordSamples now org nodeId samples)"
    unfolding recordSamples_def by (intro frame_intros)
  show "confined org (recordSamples now org nodeId samples)"
    unfolding recordSamples_def
    by (intro confined_withOrg confined_bind confined_for confined_check confined_lift
        nodes_tbl.update_confined devices_tbl.update_confined confined_return)
qed

interpretation inventory_scoped: org_scoped "\<lambda>orgId. recordInventory fresh created orgId nodeId reported"
  for fresh created nodeId reported
proof unfold_locales
  fix org
  show "preserves (outside org) (recordInventory fresh created org nodeId reported)"
    unfolding recordInventory_def Let_def
    by (auto intro!: frame_intros split: prod.splits)
qed

end
