(* ===== verification/Enrollment.thy ===== *)
theory Enrollment
  imports Nodes
begin

text \<open>
  What enrollment guarantees (\<open>enrollNode\<close> in \<open>domain/nodes.ts\<close>): the complete table of its outcomes
  on a well-formed database, and from it that a key joins one organization only, that the
  organization is the one the code was minted for, and which failures spend the code.
\<close>

lemma redeem_state:
  assumes "wf_db s" and "redeemPairingCode OwnerConn hmac pepper claimed checked code s = (r, s')"
  shows "t_nodes s' = t_nodes s" and "t_organization s' = t_organization s" and "t_devices s' = t_devices s"
proof -
  from assms have "t_nodes s' = t_nodes s \<and> t_organization s' = t_organization s \<and> t_devices s' = t_devices s"
    by (cases rule: redeem_outcomes) (simp_all add: set_used_def)
  then show "t_nodes s' = t_nodes s" and "t_organization s' = t_organization s"
    and "t_devices s' = t_devices s" by simp_all
qed

lemma redeem_refused:
  assumes "wf_db s" and "redeemPairingCode OwnerConn hmac pepper claimed checked code s = (Inl e, s')"
  shows "s' = s" and "\<exists>msg. e = PairingCodeError msg"
  using assms redeem_cases [OF assms(1) refl, of hmac pepper claimed checked code]
  by (auto split: option.splits if_splits)

lemma redeem_org_exists:
  assumes "wf_db s" and "redeemPairingCode OwnerConn hmac pepper claimed checked code s = (Inr (org, nm), s')"
  shows "org \<in> set (map o_id (t_organization s))"
  using assms
proof (cases rule: redeem_outcomes)
  case (won r)
  then show ?thesis using wf_dbD(9) [OF assms(1)] first_row_filter_Some [OF won(1)] by simp
qed simp

abbreviation key_taken :: "bytes \<Rightarrow> db \<Rightarrow> bool" where
  "key_taken key s \<equiv> key \<in> set (map n_publicKey (t_nodes s))"

definition org_name :: "string \<Rightarrow> db \<Rightarrow> string" where
  "org_name org s = (case first_row (filter (\<lambda>o1. o_id o1 = org) (t_organization s)) of
     Some o1 \<Rightarrow> o_name o1 | None \<Rightarrow> [])"

text \<open>The outcomes of an enrollment, one line per branch.\<close>

lemma enroll_outcomes:
  assumes wf: "wf_db s"
  shows "enrollNode OwnerConn hmac pepper claimed checked fresh created input s =
    (if length (ei_publicKey input) \<noteq> 32
     then (Inl (EnrollmentError ''public key must be a 32-byte Ed25519 key''), s)
     else if key_taken (ei_publicKey input) s then (Inl (EnrollmentError ALREADY_ENROLLED), s)
     else (case redeemPairingCode OwnerConn hmac pepper claimed checked (ei_pairingCode input) s of
        (Inl e, _) \<Rightarrow> (Inl e, s)
      | (Inr (org, nm), s') \<Rightarrow>
          (case node_columns (new_node fresh created org nm input) of
             Inl e \<Rightarrow> (Inl (PgError e), s')
           | Inr _ \<Rightarrow>
               if fresh \<in> set (map n_id (t_nodes s)) then (Inl (PgError (Pg23505 ''nodes_pkey'')), s')
               else (Inr \<lparr>ers_nodeId = fresh, ers_orgId = org, ers_orgName = org_name org s\<rparr>,
                     s'\<lparr>t_nodes := t_nodes s @ [new_node fresh created org nm input]\<rparr>))))"
proof (cases "length (ei_publicKey input) = 32 \<and> \<not> key_taken (ei_publicKey input) s")
  case False
  have "filter (\<lambda>r. n_publicKey r = k) (t_nodes s) = [] \<longleftrightarrow> \<not> key_taken k s" for k
    by (auto simp: filter_empty_conv)
  then show ?thesis using False by (auto simp: enrollNode_def sql_select_def)
next
  case True
  then have sel: "sql_select OwnerConn n_orgId (\<lambda>r. n_publicKey r = ei_publicKey input) (t_nodes s) = []"
    by (force simp: sql_select_def filter_empty_conv)
  show ?thesis
  proof (cases "redeemPairingCode OwnerConn hmac pepper claimed checked (ei_pairingCode input) s")
    case (Pair r s')
    show ?thesis
    proof (cases r)
      case (Inl e)
      then show ?thesis
        using True sel Pair redeem_refused(1) [OF wf Pair [unfolded Inl]] by (simp add: enrollNode_def)
    next
      case (Inr v)
      obtain org nm where v: "v = (org, nm)" by (cases v)
      note red = Pair [unfolded Inr v]
      have "org \<in> set (map o_id (t_organization s))" using redeem_org_exists [OF wf red] .
      moreover have "n_publicKey (new_node fresh created org nm input) = ei_publicKey input"
        "n_orgId (new_node fresh created org nm input) = org"
        "n_id (new_node fresh created org nm input) = fresh"
        by (simp_all add: new_node_def Let_def)
      moreover have "\<not> isPublicKeyUniqueViolation (PgError e)"
        if "node_columns (new_node fresh created org nm input) = Inl e" for e
        using that by (auto simp: node_columns_def check_columns_def isPublicKeyUniqueViolation_def split: if_splits)
      ultimately show ?thesis
        using True sel red redeem_state [OF wf red]
        by (simp add: enrollNode_def bind_check withOrg_def transaction_def op_catch_def op_bind_def pg_check_def
            insert_node_def org_isolation_def org_name_def isPublicKeyUniqueViolation_def [of "PgError (Pg23505 _)"]
            split: sum.split)
    qed
  qed
qed

text \<open>(C3) A successful enrollment adds exactly one node, of the organization the redeemed code was
  minted for, under a key no node of any organization had, and offline; it spends that code and
  nothing else changes. The database stays well-formed, so no key ever belongs to two nodes.\<close>

theorem enroll_success:
  assumes "wf_db s" and "host_ok (ei_host input)"
    and "enrollNode OwnerConn hmac pepper claimed checked fresh created input s = (Inr resp, s')"
  shows "\<exists>r \<in> set (t_pairing s). \<exists>n. p_codeHash r = hashCode hmac pepper (ei_pairingCode input)
      \<and> p_usedAt r = None \<and> checked \<le> p_expiresAt r
      \<and> n_orgId n = p_orgId r \<and> n_publicKey n = ei_publicKey input \<and> n_status n = ''offline''
      \<and> n_name n \<noteq> []
      \<and> n_id n = ers_nodeId resp \<and> ers_orgId resp = p_orgId r
      \<and> \<not> key_taken (ei_publicKey input) s
      \<and> s' = (set_used (p_codeHash r) (Some claimed) s)\<lparr>t_nodes := t_nodes s @ [n]\<rparr> \<and> wf_db s'"
proof -
  have key: "length (ei_publicKey input) = 32" "\<not> key_taken (ei_publicKey input) s"
    using assms(3) enroll_outcomes [OF assms(1), of hmac pepper claimed checked fresh created input]
    by (auto split: if_splits)
  obtain org nm t where red: "redeemPairingCode OwnerConn hmac pepper claimed checked (ei_pairingCode input) s = (Inr (org, nm), t)"
    and res: "resp = \<lparr>ers_nodeId = fresh, ers_orgId = org, ers_orgName = org_name org s\<rparr>"
      "s' = t\<lparr>t_nodes := t_nodes s @ [new_node fresh created org nm input]\<rparr>"
    using assms(3) enroll_outcomes [OF assms(1), of hmac pepper claimed checked fresh created input] key
    by (auto split: if_splits sum.splits prod.splits)
  have wf': "wf_db s'" using keepsD [OF wf_enroll [OF assms(2)] assms(1,3)] .
  from assms(1) red show ?thesis
  proof (cases rule: redeem_outcomes)
    case (won r)
    let ?n = "new_node fresh created org nm input"
    have r: "r \<in> set (t_pairing s)" "p_codeHash r = hashCode hmac pepper (ei_pairingCode input)"
      using first_row_filter_Some [OF won(1)] by simp_all
    have "n_orgId ?n = p_orgId r \<and> n_publicKey ?n = ei_publicKey input \<and> n_status ?n = ''offline''
        \<and> n_name ?n \<noteq> [] \<and> n_id ?n = ers_nodeId resp \<and> ers_orgId resp = p_orgId r"
      using won(4) res(1) by (simp add: new_node_def node_name_def Let_def)
    moreover have "s' = (set_used (p_codeHash r) (Some claimed) s)\<lparr>t_nodes := t_nodes s @ [?n]\<rparr>"
      using res(2) won(5) r(2) by simp
    ultimately show ?thesis using r won(2,3) key(2) wf' by blast
  qed simp
qed

text \<open>A refused enrollment never adds a node. A key of the wrong length, a key that is already
  enrolled and a code that is not accepted leave the database as it was (an enrolled machine does
  not burn a code); only when the node's own data does not fit its columns has the code been spent.\<close>

theorem enroll_failure:
  assumes "wf_db s"
    and "enrollNode OwnerConn hmac pepper claimed checked fresh created input s = (Inl e, s')"
  shows "t_nodes s' = t_nodes s \<and> t_devices s' = t_devices s
     \<and> (length (ei_publicKey input) \<noteq> 32 \<or> key_taken (ei_publicKey input) s \<longrightarrow>
          s' = s \<and> (\<exists>msg. e = EnrollmentError msg))
     \<and> ((\<exists>msg. e = PairingCodeError msg) \<longrightarrow> s' = s)
     \<and> (s' = s \<or> s' = set_used (hashCode hmac pepper (ei_pairingCode input)) (Some claimed) s
          \<and> (\<exists>pg. e = PgError pg))"
proof (cases "redeemPairingCode OwnerConn hmac pepper claimed checked (ei_pairingCode input) s")
  case (Pair r t)
  note out = enroll_outcomes [OF assms(1), of hmac pepper claimed checked fresh created input]
  from assms(1) Pair show ?thesis
  proof (cases rule: redeem_outcomes)
    case (refused e')
    then show ?thesis using assms(2) out Pair by (auto split: if_splits)
  next
    case (won q)
    have "t_nodes t = t_nodes s" "t_devices t = t_devices s" using redeem_state [OF assms(1) Pair] by simp_all
    then show ?thesis
      using assms(2) out Pair won by (auto split: if_splits sum.splits)
  qed
qed

section \<open>An enrollment on the sample fleet\<close>

definition demo_input :: enroll_input where
  "demo_input = \<lparr>ei_pairingCode = ''abcd-efgh'', ei_publicKey = replicate 32 7, ei_nodeName = [],
     ei_host = hostColumns None\<rparr>"

definition demo_node :: node_row where
  "demo_node = new_node demo_id 2000 ''org_a'' ''four-ninety'' demo_input"

definition demo_enrolled :: db where
  "demo_enrolled = demo_db\<lparr>t_nodes := [demo_node], t_pairing := [demo_code\<lparr>p_usedAt := Some 1000\<rparr>]\<rparr>"

lemma demo_redeem:
  "redeemPairingCode OwnerConn demo_hmac [] 1000 1000 ''abcd-efgh'' demo_db
     = (Inr (''org_a'', ''four-ninety''), demo_db\<lparr>t_pairing := [demo_code\<lparr>p_usedAt := Some 1000\<rparr>]\<rparr>)"
  using redeem_cases [OF demo_wf demo_hash [symmetric], of "[]" 1000 1000]
  by (simp add: set_used_def demo_db_def demo_code_def)

lemma demo_enroll:
  "enrollNode OwnerConn demo_hmac [] 1000 1000 demo_id 2000 demo_input demo_db
     = (Inr \<lparr>ers_nodeId = demo_id, ers_orgId = ''org_a'', ers_orgName = ''Fleet''\<rparr>, demo_enrolled)"
proof -
  have "node_columns demo_node = Inr ()" by code_simp
  moreover have "\<not> key_taken (ei_publicKey demo_input) demo_db" "length (ei_publicKey demo_input) = 32"
    "ei_pairingCode demo_input = ''abcd-efgh''"
    by (simp_all add: demo_db_def demo_input_def)
  moreover have "org_name ''org_a'' demo_db = ''Fleet''" "t_nodes demo_db = []"
    by (simp_all add: org_name_def demo_db_def demo_org_def)
  ultimately show ?thesis
    using enroll_outcomes [OF demo_wf, of demo_hmac "[]" 1000 1000 demo_id 2000 demo_input]
    by (simp add: demo_redeem demo_node_def demo_enrolled_def del: replicate_Suc)
qed

theorem enroll_success_witness:
  "wf_db demo_enrolled \<and> enrollNode OwnerConn demo_hmac [] 1000 1000 demo_id 2000 demo_input demo_db
     = (Inr \<lparr>ers_nodeId = demo_id, ers_orgId = ''org_a'', ers_orgName = ''Fleet''\<rparr>, demo_enrolled)"
proof -
  have "host_ok (ei_host demo_input)" by (simp add: demo_input_def)
  then show ?thesis using enroll_success [OF demo_wf _ demo_enroll] demo_enroll by blast
qed

theorem enroll_failure_witness:
  "enrollNode OwnerConn demo_hmac [] 1000 1000 demo_id 2000 (demo_input\<lparr>ei_pairingCode := ''QQQQ-QQQQ''\<rparr>) demo_db
     = (Inl (PairingCodeError ''unknown pairing code''), demo_db)
   \<and> t_nodes demo_db = []"
proof -
  let ?i = "demo_input\<lparr>ei_pairingCode := ''QQQQ-QQQQ''\<rparr>"
  have h: "hashCode demo_hmac [] ''QQQQ-QQQQ'' = ''QQQQQQQQ''" by code_simp
  have "redeemPairingCode OwnerConn demo_hmac [] 1000 1000 ''QQQQ-QQQQ'' demo_db
      = (Inl (PairingCodeError ''unknown pairing code''), demo_db)"
    using redeem_cases [OF demo_wf h [symmetric], of 1000 1000] by (simp add: demo_db_def demo_code_def)
  then have "fst (enrollNode OwnerConn demo_hmac [] 1000 1000 demo_id 2000 ?i demo_db)
      = Inl (PairingCodeError ''unknown pairing code'')"
    using enroll_outcomes [OF demo_wf, of demo_hmac "[]" 1000 1000 demo_id 2000 ?i]
    by (simp add: demo_db_def demo_input_def)
  then obtain t where t: "enrollNode OwnerConn demo_hmac [] 1000 1000 demo_id 2000 ?i demo_db
      = (Inl (PairingCodeError ''unknown pairing code''), t)" by (metis prod.collapse)
  from enroll_failure [OF demo_wf t] show ?thesis using t by (simp add: demo_db_def)
qed

end
