(* ===== verification/Inventory.thy ===== *)
theory Inventory
  imports Enrollment
begin

text \<open>
  What a node's reports do to the stored devices (\<open>recordInventory\<close> and \<open>recordSamples\<close> in
  \<open>domain/nodes.ts\<close>). The devices are read as a table keyed by node and local id. The locale
  \<open>keyed_table\<close> is the interface of such a table under "insert or update on conflict"; its client
  lemmas describe the table after a whole report, and the interpretation on the rows of the
  \<open>devices\<close> table carries them over to the loop of the handler.
\<close>

section \<open>A table with insert-or-update\<close>

locale keyed_table =
  fixes key :: "'r \<Rightarrow> 'k"
    and lookup :: "'t \<Rightarrow> 'k \<Rightarrow> 'r option"
    and upsert :: "'r \<Rightarrow> ('r \<Rightarrow> 'r) \<Rightarrow> 't \<Rightarrow> 't"
  assumes lookup_upsert: "(\<And>r. key (g r) = key r) \<Longrightarrow>
      lookup (upsert row g t) k =
        (if k = key row then Some (case lookup t k of None \<Rightarrow> row | Some r \<Rightarrow> g r) else lookup t k)"
begin

text \<open>The effect of a report \<open>xs\<close> on one key.\<close>

definition entry_after :: "('x \<Rightarrow> 'r) \<Rightarrow> ('x \<Rightarrow> 'r \<Rightarrow> 'r) \<Rightarrow> 'k \<Rightarrow> 'x list \<Rightarrow> 'r option \<Rightarrow> 'r option" where
  "entry_after row g k xs =
     fold (\<lambda>x v. if k = key (row x) then Some (case v of None \<Rightarrow> row x | Some r \<Rightarrow> g x r) else v) xs"

lemma entry_after_snoc:
  "entry_after row g k (xs @ [x]) v =
     (if k = key (row x) then Some (case entry_after row g k xs v of None \<Rightarrow> row x | Some r \<Rightarrow> g x r)
      else entry_after row g k xs v)"
  by (simp add: entry_after_def)

lemma lookup_fold:
  assumes "\<And>x r. key (g x r) = key r"
  shows "lookup (fold (\<lambda>x. upsert (row x) (g x)) xs t) k = entry_after row g k xs (lookup t k)"
  by (induction xs arbitrary: t) (simp_all add: entry_after_def lookup_upsert assms)

text \<open>What the update sets is what the last report of that key said.\<close>

lemma entry_facts:
  assumes "\<And>x. facts (row x) = F x" and "\<And>x r. facts (g x r) = F x"
  shows "map_option facts (entry_after row g k xs v) =
    (case find (\<lambda>x. k = key (row x)) (rev xs) of None \<Rightarrow> map_option facts v | Some x \<Rightarrow> Some (F x))"
proof (induction xs rule: rev_induct)
  case Nil
  then show ?case by (simp add: entry_after_def)
next
  case (snoc x xs)
  then show ?case using assms by (simp add: entry_after_def split: option.split)
qed

text \<open>What the update leaves alone survives in an existing row, and has its default in a new one.\<close>

lemma entry_kept:
  assumes "\<And>x r. kept (g x r) = kept r"
  shows "\<exists>r'. entry_after row g k xs (Some r) = Some r' \<and> kept r' = kept r"
  by (induction xs rule: rev_induct) (auto simp: entry_after_def assms)

lemma entry_default:
  assumes "\<And>x r. kept (g x r) = kept r" and "\<And>x. kept (row x) = c"
  shows "entry_after row g k xs None = Some r' \<Longrightarrow> kept r' = c"
  by (induction xs arbitrary: r' rule: rev_induct)
    (auto simp: entry_after_def assms split: if_splits option.splits)

end

section \<open>The devices as such a table\<close>

definition row_at :: "('r \<Rightarrow> 'k) \<Rightarrow> 'r list \<Rightarrow> 'k \<Rightarrow> 'r option" where
  "row_at f t k = first_row (filter (\<lambda>r. f r = k) t)"

definition upsert_rows :: "('r \<Rightarrow> 'k) \<Rightarrow> 'r \<Rightarrow> ('r \<Rightarrow> 'r) \<Rightarrow> 'r list \<Rightarrow> 'r list" where
  "upsert_rows f row g t =
     (if list_ex (\<lambda>r. f row = f r) t then map (\<lambda>r. if f row = f r then g r else r) t
      else t @ [row])"

lemma row_at_map:
  assumes "\<And>d. f (g d) = f d"
  shows "row_at f (map (\<lambda>d. if P d then g d else d) t) k
      = map_option (\<lambda>d. if P d then g d else d) (row_at f t k)"
  by (induction t) (use assms in \<open>auto simp: row_at_def\<close>)

lemma row_at_append: "row_at f (t @ [r]) k =
    (case row_at f t k of Some d \<Rightarrow> Some d | None \<Rightarrow> if f r = k then Some r else None)"
  by (induction t) (auto simp: row_at_def split: option.splits)

lemma row_at_key: "row_at f t k = Some d \<Longrightarrow> f d = k \<and> d \<in> set t"
  unfolding row_at_def by (blast dest: first_row_filter_Some)

lemma row_at_None: "row_at f t k = None \<longleftrightarrow> (\<forall>d \<in> set t. f d \<noteq> k)"
  by (auto simp: row_at_def filter_empty_conv)

lemma row_at_unique: "distinct (map f t) \<Longrightarrow> d \<in> set t \<Longrightarrow> row_at f t (f d) = Some d"
  by (simp add: row_at_def distinct_map_filter_unique)

lemma row_at_upsert:
  assumes g: "\<And>r. f (g r) = f r"
  shows "row_at f (upsert_rows f row g t) k =
      (if k = f row then Some (case row_at f t k of None \<Rightarrow> row | Some r \<Rightarrow> g r) else row_at f t k)"
proof (cases "list_ex (\<lambda>r. f row = f r) t")
  case True
  then have ne: "row_at f t (f row) \<noteq> None"
    by (auto simp: row_at_None list_ex_iff)
  show ?thesis
  proof (cases "row_at f t k")
    case None
    with ne True show ?thesis by (auto simp: upsert_rows_def row_at_map [of f g, OF g])
  next
    case (Some d)
    then show ?thesis
      using True row_at_key [OF Some] by (auto simp: upsert_rows_def row_at_map [of f g, OF g])
  qed
next
  case False
  then have "row_at f t (f row) = None"
    by (auto simp: row_at_None list_ex_iff)
  with False show ?thesis by (auto simp: upsert_rows_def row_at_append split: option.splits)
qed

interpretation devices_by_slot: keyed_table slot "row_at slot" "upsert_rows slot"
  by unfold_locales (rule row_at_upsert)

abbreviation device_at :: "db \<Rightarrow> uuid \<Rightarrow> string \<Rightarrow> device_row option" where
  "device_at s nid lid \<equiv> row_at slot (t_devices s) (nid, lid)"

lemma upsert_rows_slot:
  "upsert_rows slot row g t =
     (if list_ex (same_device row) t then map (\<lambda>d. if same_device row d then g d else d) t else t @ [row])"
proof -
  have "(\<lambda>r. slot row = slot r) = same_device row" by (simp add: same_device_def fun_eq_iff)
  then show ?thesis unfolding upsert_rows_def by metis
qed

lemma upsert_success:
  "upsert_device c row g s = (Inr u, t) \<Longrightarrow> t = s\<lparr>t_devices := upsert_rows slot row g (t_devices s)\<rparr>"
  by (auto simp: upsert_device_def upsert_rows_slot split: if_splits)

section \<open>The inventory of a node\<close>

text \<open>The columns an inventory report sets, and those only samples and the owner set.\<close>

definition device_facts :: "device_row \<Rightarrow> string \<times> int \<times> string \<times> int \<times> int \<times> string \<times> string" where
  "device_facts r = (d_kind r, d_index r, d_name r, d_totalBytes r, d_wiredLimitBytes r,
     d_driverVersion r, d_computeCapability r)"

definition telemetry :: "device_row \<Rightarrow> bool \<times> int \<times> int \<times> 64 word \<times> string \<times> millis option" where
  "telemetry r = (d_interactive r, d_lastUsedBytes r, d_lastManagedBytes r, d_lastUtilization r,
     d_lastPressure r, d_lastSampleAt r)"

definition no_telemetry :: "bool \<times> int \<times> int \<times> 64 word \<times> string \<times> millis option" where
  "no_telemetry = (False, 0, 0, 0, ''normal'', None)"

definition reported_facts :: "device \<times> string \<Rightarrow> string \<times> int \<times> string \<times> int \<times> int \<times> string \<times> string" where
  "reported_facts = (\<lambda>(d, kind). (kind, uint (dev_index d), dev_name d, uint (dev_totalBytes d),
     uint (dev_wiredLimitBytes d), dev_driverVersion d, dev_computeCapability d))"

text \<open>The last device of a report under a local id, among those of a known kind.\<close>

definition last_report :: "string \<Rightarrow> device list \<Rightarrow> (device \<times> string) option" where
  "last_report lid reported = find (\<lambda>(d, kind). dev_localId d = lid) (rev (known_devices reported))"

lemma set_facts_views [simp]:
  "device_facts (set_facts d kind r) = reported_facts (d, kind)" "telemetry (set_facts d kind r) = telemetry r"
  "device_facts (new_device f c org nid d kind) = reported_facts (d, kind)"
  "telemetry (new_device f c org nid d kind) = no_telemetry"
  by (simp_all add: set_facts_def new_device_def device_facts_def telemetry_def reported_facts_def no_telemetry_def)

abbreviation report_row :: "(nat \<Rightarrow> uuid) \<Rightarrow> millis \<Rightarrow> string \<Rightarrow> uuid \<Rightarrow> nat \<times> device \<times> string \<Rightarrow> device_row" where
  "report_row fresh created org nid \<equiv> (\<lambda>(k, d, kind). new_device (fresh k) created org nid d kind)"

abbreviation report_set :: "nat \<times> device \<times> string \<Rightarrow> device_row \<Rightarrow> device_row" where
  "report_set \<equiv> (\<lambda>(k, d, kind). set_facts d kind)"

text \<open>The rows a successful report leaves, before and after the deletion.\<close>

definition reported_rows :: "(nat \<Rightarrow> uuid) \<Rightarrow> millis \<Rightarrow> string \<Rightarrow> uuid \<Rightarrow> device list \<Rightarrow> device_row list \<Rightarrow> device_row list" where
  "reported_rows fresh created org nid reported =
     fold (\<lambda>x. upsert_rows slot (report_row fresh created org nid x) (report_set x)) (enumerate 0 (known_devices reported))"

lemma fold_devices: "fold (\<lambda>x s. s\<lparr>t_devices := f x (t_devices s)\<rparr>) xs s = s\<lparr>t_devices := fold f xs (t_devices s)\<rparr>"
  by (induction xs arbitrary: s) simp_all

lemma inventory_success:
  assumes "recordInventory fresh created orgId nodeId reported s = (Inr u, s')"
  defines "nid \<equiv> toLowerCase nodeId"
  shows "s' = s\<lparr>t_devices := filter (\<lambda>r. \<not> (d_orgId r = orgId \<and> d_nodeId r = nid
           \<and> d_localId r \<notin> set (map (\<lambda>(d, kind). dev_localId d) (known_devices reported))))
         (reported_rows fresh created orgId nid reported (t_devices s))\<rparr>"
proof -
  let ?known = "known_devices reported"
  let ?tx = "AppConn (Some orgId)"
  let ?body = "\<lambda>(k, d, kind).
             op_bind (pg_check (uuid_in nodeId)) (\<lambda>nid.
             op_bind (pg_check (device_checks d kind)) (\<lambda>_.
             upsert_device ?tx (new_device (fresh k) created orgId nid d kind) (set_facts d kind)))"
  let ?upd = "\<lambda>x s. s\<lparr>t_devices := upsert_rows slot (report_row fresh created orgId nid x) (report_set x) (t_devices s)\<rparr>"
  obtain v s1 where loop: "op_for (enumerate 0 ?known) ?body s = (Inr v, s1)"
    and del: "op_bind (pg_check (uuid_in nodeId)) (\<lambda>nid.
             on_devices (sql_delete ?tx d_orgId
               (if map (\<lambda>(d, kind). dev_localId d) ?known \<noteq> []
                then (\<lambda>r. d_nodeId r = nid \<and> d_localId r \<notin> set (map (\<lambda>(d, kind). dev_localId d) ?known))
                else (\<lambda>r. d_nodeId r = nid)))) s1 = (Inr u, s')"
    using assms(1) unfolding recordInventory_def Let_def withOrg_def transaction_success
    by (rule op_bind_success)
  have "s1 = fold ?upd (enumerate 0 ?known) s"
    by (rule op_for_fold [OF loop])
      (auto simp: bind_check uuid_in_Inr nid_def dest!: upsert_success split: sum.splits prod.splits)
  then have s1: "s1 = s\<lparr>t_devices := reported_rows fresh created orgId nid reported (t_devices s)\<rparr>"
    unfolding reported_rows_def
    by (simp only: fold_devices [of "\<lambda>x. upsert_rows slot (report_row fresh created orgId nid x) (report_set x)"])
  have P: "(if map (\<lambda>(d, kind). dev_localId d) ?known \<noteq> []
      then (\<lambda>r. d_nodeId r = nid \<and> d_localId r \<notin> set (map (\<lambda>(d, kind). dev_localId d) ?known))
      else (\<lambda>r. d_nodeId r = nid)) = (\<lambda>r. d_nodeId r = nid \<and> d_localId r \<notin> set (map (\<lambda>(d, kind). dev_localId d) ?known))" for nid
    by auto
  show ?thesis
    using del [unfolded P]
    by (simp add: s1 bind_check uuid_in_Inr nid_def on_table_def sql_delete_def org_isolation_def uuid_in_def
        split: if_splits)
qed

lemma row_at_filter:
  "row_at f (filter (\<lambda>d. P (f d)) t) k = (if P k then row_at f t k else None)"
  by (induction t) (auto simp: row_at_def)

text \<open>On a well-formed database the deletion sees every device of the node.\<close>

lemma upsert_rows_all:
  assumes "\<And>x r. Q r \<Longrightarrow> Q (g x r)" and "\<And>x. Q (row x)" and "\<forall>r \<in> set t. Q r"
  shows "\<forall>r \<in> set (fold (\<lambda>x. upsert_rows f (row x) (g x)) xs t). Q r"
  using assms(3)
proof (induction xs arbitrary: t)
  case (Cons x xs)
  have "\<forall>r \<in> set (upsert_rows f (row x) (g x) t). Q r"
    using Cons.prems assms(1,2) by (auto simp: upsert_rows_def)
  then show ?case using Cons.IH by simp
qed simp

lemma reported_rows_org:
  assumes "wf_db s" and "owns orgId nid s"
    and "d \<in> set (reported_rows fresh created orgId nid reported (t_devices s))" and "d_nodeId d = nid"
  shows "d_orgId d = orgId"
proof -
  have "\<forall>d \<in> set (t_devices s). d_nodeId d = nid \<longrightarrow> d_orgId d = orgId"
    using assms(1,2) wf_dbD(8) [OF assms(1)] unfolding owns_def by metis
  then have "\<forall>d \<in> set (reported_rows fresh created orgId nid reported (t_devices s)). d_nodeId d = nid \<longrightarrow> d_orgId d = orgId"
    unfolding reported_rows_def by (intro upsert_rows_all) (simp_all split: prod.split)
  then show ?thesis using assms(3,4) by blast
qed

lemma inventory_entries:
  assumes wf: "wf_db s" and own: "owns orgId (toLowerCase nodeId) s"
    and ok: "recordInventory fresh created orgId nodeId reported s = (Inr u, s')"
  defines "nid \<equiv> toLowerCase nodeId"
  shows "row_at slot (t_devices s') (n, lid) =
    (if n = nid \<and> last_report lid reported = None then None
     else devices_by_slot.entry_after (report_row fresh created orgId nid) report_set (n, lid)
        (enumerate 0 (known_devices reported)) (device_at s n lid))"
proof -
  let ?keep = "set (map (\<lambda>(d, kind). dev_localId d) (known_devices reported))"
  let ?rows = "reported_rows fresh created orgId nid reported (t_devices s)"
  note s' = inventory_success [OF ok, folded nid_def]
  have rows_org: "\<And>d. d \<in> set ?rows \<Longrightarrow> d_nodeId d = nid \<Longrightarrow> d_orgId d = orgId"
    using reported_rows_org [OF wf own] by (simp add: nid_def)
  have none: "last_report lid reported = None \<longleftrightarrow> lid \<notin> ?keep" for lid
    unfolding last_report_def find_None_iff by auto
  have kept: "t_devices s' = filter (\<lambda>d. \<not> (fst (slot d) = nid \<and> snd (slot d) \<notin> ?keep)) ?rows"
    if "\<And>d. d \<in> set ?rows \<Longrightarrow> d_nodeId d = nid \<Longrightarrow> d_orgId d = orgId"
  proof -
    have "filter (\<lambda>r. \<not> (d_orgId r = orgId \<and> d_nodeId r = nid \<and> d_localId r \<notin> ?keep)) ?rows
        = filter (\<lambda>d. \<not> (fst (slot d) = nid \<and> snd (slot d) \<notin> ?keep)) ?rows"
      by (rule filter_cong [OF refl]) (use that in force)
    moreover have "t_devices s' = filter (\<lambda>r. \<not> (d_orgId r = orgId \<and> d_nodeId r = nid \<and> d_localId r \<notin> ?keep)) ?rows"
      by (subst s') simp
    ultimately show ?thesis by (rule trans [rotated])
  qed
  have loop: "row_at slot ?rows (n, lid) =
      devices_by_slot.entry_after (report_row fresh created orgId nid) report_set (n, lid)
        (enumerate 0 (known_devices reported)) (device_at s n lid)" for n lid
    unfolding reported_rows_def by (rule devices_by_slot.lookup_fold) (simp split: prod.split)
  have "row_at slot (t_devices s') (n, lid) =
      (if n = nid \<and> lid \<notin> ?keep then None else row_at slot ?rows (n, lid))"
    using row_at_filter [of slot "\<lambda>x. \<not> (fst x = nid \<and> snd x \<notin> ?keep)" ?rows "(n, lid)"] kept [OF rows_org]
    by simp
  then show ?thesis by (simp only: none loop)
qed

lemma find_map: "find P (map f xs) = map_option f (find (\<lambda>x. P (f x)) xs)"
  by (induction xs) simp_all

lemma find_enumerate: "map_option snd (find (\<lambda>x. P (snd x)) (rev (enumerate n xs))) = find P (rev xs)"
  using find_map [of P snd "rev (enumerate n xs)"] by (simp add: rev_map [symmetric])

lemma last_report_entry:
  "map_option snd (find (\<lambda>x. (nid, lid) = slot (report_row fresh created org nid x))
     (rev (enumerate 0 (known_devices reported)))) = last_report lid reported"
proof -
  have "(\<lambda>x. (nid, lid) = slot (report_row fresh created org nid x)) = (\<lambda>x. (\<lambda>(d, kind). dev_localId d = lid) (snd x))"
    by (auto simp: fun_eq_iff split: prod.splits)
  then show ?thesis unfolding last_report_def using find_enumerate by metis
qed

lemma inventory_rows:
  assumes "wf_db s" and "owns orgId (toLowerCase nodeId) s"
    and "recordInventory fresh created orgId nodeId reported s = (Inr u, s')"
  shows "map_option device_facts (device_at s' (toLowerCase nodeId) lid)
           = map_option reported_facts (last_report lid reported)
    \<and> (case device_at s (toLowerCase nodeId) lid of
         Some old \<Rightarrow> \<forall>new. device_at s' (toLowerCase nodeId) lid = Some new \<longrightarrow>
           d_id new = d_id old \<and> telemetry new = telemetry old
       | None \<Rightarrow> \<forall>new. device_at s' (toLowerCase nodeId) lid = Some new \<longrightarrow> telemetry new = no_telemetry)
    \<and> (nid' \<noteq> toLowerCase nodeId \<longrightarrow> device_at s' nid' lid = device_at s nid' lid)
    \<and> s' = s\<lparr>t_devices := t_devices s'\<rparr>"
proof (intro conjI impI)
  let ?nid = "toLowerCase nodeId"
  let ?row = "report_row fresh created orgId ?nid" and ?xs = "enumerate 0 (known_devices reported)"
  note e = inventory_entries [OF assms]
  note last = last_report_entry [of ?nid lid fresh created orgId reported]
  have facts: "map_option device_facts (devices_by_slot.entry_after ?row report_set (?nid, lid) ?xs v) =
    (case find (\<lambda>x. (?nid, lid) = slot (?row x)) (rev ?xs) of None \<Rightarrow> map_option device_facts v
     | Some x \<Rightarrow> Some (reported_facts (snd x)))" for v
    by (rule devices_by_slot.entry_facts) (simp_all split: prod.split)
  show "map_option device_facts (device_at s' ?nid lid) = map_option reported_facts (last_report lid reported)"
    using e [of ?nid lid] facts last by (auto split: option.splits)
  show "case device_at s ?nid lid of
         Some old \<Rightarrow> \<forall>new. device_at s' ?nid lid = Some new \<longrightarrow> d_id new = d_id old \<and> telemetry new = telemetry old
       | None \<Rightarrow> \<forall>new. device_at s' ?nid lid = Some new \<longrightarrow> telemetry new = no_telemetry"
  proof (cases "device_at s ?nid lid")
    case None
    have "telemetry r = no_telemetry"
      if "devices_by_slot.entry_after ?row report_set (?nid, lid) ?xs None = Some r" for r
      by (rule devices_by_slot.entry_default [OF _ _ that]) (simp_all split: prod.split)
    with None show ?thesis using e [of ?nid lid] by simp
  next
    case (Some old)
    then obtain r where "devices_by_slot.entry_after ?row report_set (?nid, lid) ?xs (Some old) = Some r"
      "(d_id r, telemetry r) = (d_id old, telemetry old)"
      using devices_by_slot.entry_kept [of "\<lambda>r. (d_id r, telemetry r)" report_set ?row "(?nid, lid)" ?xs old]
      by (auto split: prod.splits)
    with Some show ?thesis using e [of ?nid lid] by simp
  qed
  show "device_at s' nid' lid = device_at s nid' lid" if "nid' \<noteq> ?nid"
  proof -
    have "devices_by_slot.entry_after ?row report_set (nid', lid) xs v = v" for xs v
      using that by (induction xs arbitrary: v) (auto simp: devices_by_slot.entry_after_def split: prod.split)
    then show ?thesis using e [of nid' lid] that by simp
  qed
  show "s' = s\<lparr>t_devices := t_devices s'\<rparr>"
  proof -
    obtain t where "s' = s\<lparr>t_devices := t\<rparr>" using inventory_success [OF assms(3)] by blast
    then show ?thesis by simp
  qed
qed

text \<open>(C7) After an inventory report the stored devices of the node are exactly the reported ones of a
  known kind: each local id of the report has a row with the facts of its last mention, and a device
  no longer reported is gone (all of them after an empty report). A device that stays keeps its id
  and the measurements of its last sample, a new one starts without any, and no device of another
  node changes.\<close>

theorem inventory_exact:
  assumes "wf_db s" and "owns orgId (toLowerCase nodeId) s"
    and "recordInventory fresh created orgId nodeId reported s = (Inr u, s')"
  shows "map_option device_facts (device_at s' (toLowerCase nodeId) lid)
           = map_option reported_facts (last_report lid reported)
    \<and> (case device_at s (toLowerCase nodeId) lid of
         Some old \<Rightarrow> \<forall>new. device_at s' (toLowerCase nodeId) lid = Some new \<longrightarrow>
           d_id new = d_id old \<and> telemetry new = telemetry old
       | None \<Rightarrow> \<forall>new. device_at s' (toLowerCase nodeId) lid = Some new \<longrightarrow> telemetry new = no_telemetry)
    \<and> (nid' \<noteq> toLowerCase nodeId \<longrightarrow> device_at s' nid' lid = device_at s nid' lid)
    \<and> s' = s\<lparr>t_devices := t_devices s'\<rparr>"
  using assms by (rule inventory_rows)

section \<open>A report that succeeds\<close>

text \<open>
  The other half: a report is recorded whenever the node exists in the organization, every value
  fits its column and the generated ids are new.
\<close>

lemma op_for_each: "op_for xs f s = (Inr u, t) \<Longrightarrow> x \<in> set xs \<Longrightarrow> \<exists>s t. f x s = (Inr (), t)"
  by (induction xs arbitrary: s) (simp, force elim!: op_bind_success)

definition ready :: "(nat \<Rightarrow> uuid) \<Rightarrow> string \<Rightarrow> uuid \<Rightarrow> nat \<Rightarrow> db \<Rightarrow> bool" where
  "ready fresh org nid k s \<longleftrightarrow> wf_db s \<and> (\<exists>n \<in> set (t_nodes s). n_id n = nid \<and> n_orgId n = org)
     \<and> (\<forall>j \<ge> k. fresh j \<notin> set (map d_id (t_devices s)))"

lemma ready_owns: "ready fresh org nid k s \<Longrightarrow> owns org nid s"
  unfolding ready_def owns_def using wf_node_unique by metis

lemma ready_upsert:
  assumes r: "ready fresh org nid k s" and inj: "inj fresh"
    and d: "kindName (dev_kind d) = Some kind" "device_checks d kind = Inr u"
  shows "\<exists>t. upsert_device (AppConn (Some org)) (new_device (fresh k) created org nid d kind) (set_facts d kind) s = (Inr (), t)
     \<and> ready fresh org nid (Suc k) t"
proof -
  let ?row = "new_device (fresh k) created org nid d kind"
  let ?up = "upsert_device (AppConn (Some org)) ?row (set_facts d kind)"
  have wf: "wf_db s" and own: "owns org nid s" using r ready_owns [OF r] by (auto simp: ready_def)
  have same: "d_orgId x = org" if x: "x \<in> set (t_devices s)" "same_device ?row x" for x
    using wf_dbD(8) [OF wf x(1)] x(2) own by (auto simp: same_device_def owns_def)
  obtain n where n: "n \<in> set (t_nodes s)" "n_id n = nid" "n_orgId n = org" using r by (auto simp: ready_def)
  then have fk: "nid \<in> set (map n_id (t_nodes s))" "org \<in> set (map o_id (t_organization s))"
    using wf_dbD(7) [OF wf n(1)] by auto
  have fr: "fresh k \<notin> set (map d_id (t_devices s))" using r by (simp add: ready_def)
  have "list_all (\<lambda>x. same_device ?row x \<longrightarrow> d_orgId x = org) (t_devices s)"
    using same by (auto simp: list_all_iff)
  then have t: "?up s = (Inr (), s\<lparr>t_devices := upsert_rows slot ?row (set_facts d kind) (t_devices s)\<rparr>)"
    using fk fr by (simp add: upsert_device_def upsert_rows_slot org_isolation_def)
  let ?t = "s\<lparr>t_devices := upsert_rows slot ?row (set_facts d kind) (t_devices s)\<rparr>"
  have "wf_db ?t"
    using keepsD [OF wf_upsert_device [of "set_facts d kind" ?row] _ t] set_facts_ok [OF d] wf own by simp
  moreover have "fresh j \<notin> set (map d_id (upsert_rows slot ?row (set_facts d kind) (t_devices s)))" if "Suc k \<le> j" for j
  proof -
    have "fresh j \<notin> set (map d_id (t_devices s))" using r that by (simp add: ready_def)
    moreover have "fresh j \<noteq> fresh k" using inj that by (auto dest: injD)
    ultimately show ?thesis by (auto simp: upsert_rows_def)
  qed
  ultimately have "ready fresh org nid (Suc k) ?t" using n by (auto simp: ready_def)
  with t show ?thesis by blast
qed

lemma inventory_loop:
  assumes "ready fresh org (toLowerCase nodeId) k s" and "inj fresh" and "isUuid nodeId"
    and "\<And>d kind. (d, kind) \<in> set known \<Longrightarrow> kindName (dev_kind d) = Some kind \<and> device_checks d kind = Inr ()"
  shows "\<exists>t. op_for (enumerate k known) (\<lambda>(k, d, kind).
             op_bind (pg_check (uuid_in nodeId)) (\<lambda>nid.
             op_bind (pg_check (device_checks d kind)) (\<lambda>_.
             upsert_device (AppConn (Some org)) (new_device (fresh k) created org nid d kind) (set_facts d kind)))) s
       = (Inr (), t)"
  using assms(1,4)
proof (induction known arbitrary: k s)
  case (Cons x known)
  obtain d kind where x: "x = (d, kind)" by (cases x)
  have d: "kindName (dev_kind d) = Some kind" "device_checks d kind = Inr ()" using Cons.prems(2) x by auto
  obtain t where t: "upsert_device (AppConn (Some org)) (new_device (fresh k) created org (toLowerCase nodeId) d kind)
      (set_facts d kind) s = (Inr (), t)" and r: "ready fresh org (toLowerCase nodeId) (Suc k) t"
    using ready_upsert [OF Cons.prems(1) assms(2) d] by blast
  show ?case using Cons.IH [OF r] Cons.prems(2) assms(3) t d by (auto simp: x bind_check uuid_in_def)
qed simp

lemma inventory_returns:
  assumes "ready fresh orgId (toLowerCase nodeId) 0 s" and "inj fresh" and "isUuid nodeId"
    and "\<forall>(d, kind) \<in> set (known_devices reported). device_checks d kind = Inr ()"
  shows "\<exists>s'. recordInventory fresh created orgId nodeId reported s = (Inr (), s')"
proof -
  obtain t where "op_for (enumerate 0 (known_devices reported)) (\<lambda>(k, d, kind).
             op_bind (pg_check (uuid_in nodeId)) (\<lambda>nid.
             op_bind (pg_check (device_checks d kind)) (\<lambda>_.
             upsert_device (AppConn (Some orgId)) (new_device (fresh k) created orgId nid d kind) (set_facts d kind)))) s
       = (Inr (), t)"
    using inventory_loop [OF assms(1-3), of "known_devices reported" created] assms(4) known_devices_iff by fast
  then show ?thesis
    using assms(3) by (simp add: recordInventory_def withOrg_def transaction_def bind_check uuid_in_def
        on_table_def sql_delete_def Let_def)
qed

text \<open>(C28) A report is recorded exactly when every device of a known kind fits its columns (no zero
  byte in a text, byte counts below \<open>2\<^sup>6\<^sup>3\<close>, an index below \<open>2\<^sup>3\<^sup>1\<close>); one that does not makes the
  whole report fail and nothing of it is stored. Devices of an unknown kind never make a report
  fail.\<close>

theorem inventory_all_or_nothing:
  assumes "ready fresh orgId (toLowerCase nodeId) 0 s" and "inj fresh" and "isUuid nodeId"
  shows "if \<forall>(d, kind) \<in> set (known_devices reported). device_checks d kind = Inr ()
         then \<exists>s'. recordInventory fresh created orgId nodeId reported s = (Inr (), s')
         else \<exists>e. recordInventory fresh created orgId nodeId reported s = (Inl e, s)"
proof (cases "\<forall>(d, kind) \<in> set (known_devices reported). device_checks d kind = Inr ()")
  case True
  then show ?thesis using inventory_returns [OF assms] by simp
next
  case False
  obtain r s' where rs: "recordInventory fresh created orgId nodeId reported s = (r, s')"
    by (cases "recordInventory fresh created orgId nodeId reported s")
  show ?thesis
  proof (cases r)
    case (Inl e)
    then have "s' = s" using rs by (simp add: recordInventory_def withOrg_def Let_def transaction_throw)
    then show ?thesis using rs Inl False by (auto simp only: if_False)
  next
    case (Inr u)
    have "device_checks d kind = Inr ()" if mem: "(d, kind) \<in> set (known_devices reported)" for d kind
    proof -
      obtain k where "k < length (known_devices reported)" "known_devices reported ! k = (d, kind)"
        using mem by (auto simp: in_set_conv_nth)
      then have k: "(k, d, kind) \<in> set (enumerate 0 (known_devices reported))"
        by (simp add: in_set_enumerate_eq)
      obtain x t where "op_for (enumerate 0 (known_devices reported)) (\<lambda>(k, d, kind).
             op_bind (pg_check (uuid_in nodeId)) (\<lambda>nid.
             op_bind (pg_check (device_checks d kind)) (\<lambda>_.
             upsert_device (AppConn (Some orgId)) (new_device (fresh k) created orgId nid d kind) (set_facts d kind)))) s
           = (Inr x, t)"
        using rs [unfolded Inr recordInventory_def Let_def withOrg_def transaction_success]
        by (rule op_bind_success)
      from op_for_each [OF this k] show ?thesis
        using assms(3) by (cases "device_checks d kind") (auto simp: bind_check uuid_in_def)
    qed
    with False show ?thesis by blast
  qed
qed

section \<open>A batch of samples\<close>

lemma op_for_total:
  assumes "\<And>x s. x \<in> set xs \<Longrightarrow> if ok x then f x s = (Inr (), upd x s) else \<exists>e. f x s = (Inl e, s)"
  shows "if \<forall>x \<in> set xs. ok x then op_for xs f s = (Inr (), fold upd xs s) else \<exists>e t. op_for xs f s = (Inl e, t)"
  using assms
proof (induction xs arbitrary: s)
  case (Cons x xs)
  show ?case
  proof (cases "ok x")
    case True
    then have "f x s = (Inr (), upd x s)" using Cons.prems [of x s] by simp
    then show ?thesis using True Cons.IH [of "upd x s"] Cons.prems by (simp cong: if_cong)
  next
    case False
    then obtain e where "f x s = (Inl e, s)" using Cons.prems [of x s] by auto
    then show ?thesis using False by simp
  qed
qed simp

definition sample_fits :: "device_sample \<Rightarrow> bool" where
  "sample_fits x \<longleftrightarrow> (case sample_date x of Inr _ \<Rightarrow> sample_checks x = Inr () | Inl _ \<Rightarrow> False)"

definition sampled_at :: "device_sample \<Rightarrow> millis" where
  "sampled_at x = (case sample_date x of Inr t \<Rightarrow> t | Inl _ \<Rightarrow> 0)"

text \<open>The last sample of a batch for a local id.\<close>

definition last_sample :: "string \<Rightarrow> device_sample list \<Rightarrow> device_sample option" where
  "last_sample lid samples = find (\<lambda>x. s_localId x = lid) (rev samples)"

definition apply_sample :: "string \<Rightarrow> uuid \<Rightarrow> device_sample \<Rightarrow> device_row \<Rightarrow> device_row" where
  "apply_sample org nid x d =
     (if d_orgId d = org \<and> d_nodeId d = nid \<and> d_localId d = s_localId x then set_sample x (sampled_at x) d else d)"

lemma apply_sample_keys [simp]:
  "d_orgId (apply_sample org nid x d) = d_orgId d" "d_nodeId (apply_sample org nid x d) = d_nodeId d"
  "d_localId (apply_sample org nid x d) = d_localId d"
  by (simp_all add: apply_sample_def)

lemma set_sample_override: "set_sample y t (set_sample x t' d) = set_sample y t d"
  by (simp add: set_sample_def)

lemma fold_samples:
  "fold (apply_sample org nid) samples d =
     (if d_orgId d = org \<and> d_nodeId d = nid
      then (case last_sample (d_localId d) samples of None \<Rightarrow> d | Some x \<Rightarrow> set_sample x (sampled_at x) d)
      else d)"
proof (induction samples rule: rev_induct)
  case Nil
  then show ?case by (simp add: last_sample_def)
next
  case (snoc x xs)
  then show ?case
    by (auto simp: last_sample_def apply_sample_def set_sample_override split: option.splits)
qed

text \<open>The body of the loop over the samples, and the heartbeat after it.\<close>

abbreviation sample_body :: "string \<Rightarrow> string \<Rightarrow> device_sample \<Rightarrow> (db, error, unit) op" where
  "sample_body orgId nodeId x \<equiv>
     op_bind (op_lift (sample_date x)) (\<lambda>sampled.
     op_bind (pg_check (uuid_in nodeId)) (\<lambda>nid.
     op_bind (pg_check (sample_checks x)) (\<lambda>_.
     op_bind (on_devices (sql_update (AppConn (Some orgId)) d_orgId
         (\<lambda>r. d_nodeId r = nid \<and> d_localId r = s_localId x) (set_sample x sampled)))
       (\<lambda>_. op_return ()))))"

lemma sample_body_outcome:
  assumes "isUuid nodeId"
  shows "if sample_fits x
    then sample_body orgId nodeId x s = (Inr (), s\<lparr>t_devices := map (apply_sample orgId (toLowerCase nodeId) x) (t_devices s)\<rparr>)
    else \<exists>e. sample_body orgId nodeId x s = (Inl e, s)"
proof (cases "sample_date x")
  case (Inl e)
  then show ?thesis by (simp add: sample_fits_def op_bind_def)
next
  case (Inr t)
  have "map (\<lambda>r. if d_orgId r = orgId \<and> d_nodeId r = toLowerCase nodeId \<and> d_localId r = s_localId x
      then set_sample x t r else r) (t_devices s) = map (apply_sample orgId (toLowerCase nodeId) x) (t_devices s)"
    using Inr by (simp add: apply_sample_def sampled_at_def)
  with Inr show ?thesis
    using assms
    by (cases "sample_checks x")
      (simp_all add: sample_fits_def bind_check uuid_in_def op_bind_def on_table_def sql_update_def
        org_isolation_def list_all_iff pg_check_def)
qed

lemma heartbeat_outcome:
  assumes "isUuid nodeId"
  shows "op_bind (pg_check (uuid_in nodeId)) (\<lambda>nid.
      op_bind (on_nodes (sql_update (AppConn (Some orgId)) n_orgId (\<lambda>n. n_id n = nid)
          (\<lambda>n. n\<lparr>n_lastSeenAt := Some now, n_status := ''online''\<rparr>))) (\<lambda>_. op_return ())) t
    = (Inr (), t\<lparr>t_nodes := map (\<lambda>n. if n_orgId n = orgId \<and> n_id n = toLowerCase nodeId
        then n\<lparr>n_lastSeenAt := Some now, n_status := ''online''\<rparr> else n) (t_nodes t)\<rparr>)"
  using assms by (simp add: pg_check_def uuid_in_def op_bind_def on_table_def sql_update_def
      org_isolation_def list_all_iff)

lemma samples_outcome:
  assumes "isUuid nodeId"
  defines "nid \<equiv> toLowerCase nodeId"
  shows "if \<forall>x \<in> set samples. sample_fits x
    then recordSamples now orgId nodeId samples s = (Inr (),
      s\<lparr>t_devices := map (fold (apply_sample orgId nid) samples) (t_devices s),
        t_nodes := map (\<lambda>n. if n_orgId n = orgId \<and> n_id n = nid
                            then n\<lparr>n_lastSeenAt := Some now, n_status := ''online''\<rparr> else n) (t_nodes s)\<rparr>)
    else \<exists>e. recordSamples now orgId nodeId samples s = (Inl e, s)"
proof -
  let ?body = "sample_body orgId nodeId" and ?upd = "\<lambda>x s. s\<lparr>t_devices := map (apply_sample orgId nid x) (t_devices s)\<rparr>"
  have dev: "fold ?upd samples s = s\<lparr>t_devices := map (fold (apply_sample orgId nid) samples) (t_devices s)\<rparr>" for s
    by (induction samples arbitrary: s) (simp_all add: comp_def)
  have loop: "if \<forall>x \<in> set samples. sample_fits x then op_for samples ?body s = (Inr (), fold ?upd samples s)
      else \<exists>e t. op_for samples ?body s = (Inl e, t)"
    unfolding nid_def by (rule op_for_total) (rule sample_body_outcome [OF assms(1)])
  show ?thesis
  proof (cases "\<forall>x \<in> set samples. sample_fits x")
    case True
    then have "op_for samples ?body s = (Inr (), fold ?upd samples s)" using loop by (simp only: if_True)
    then show ?thesis
      unfolding recordSamples_def withOrg_def if_P [OF True]
      by (intro transaction_Inr) (simp only: op_bind_Inr heartbeat_outcome [OF assms(1)], simp add: dev [unfolded nid_def] nid_def)
  next
    case False
    then obtain e t where "op_for samples ?body s = (Inl e, t)" using loop by (auto simp only: if_False)
    then have "op_bind (op_for samples ?body) k s = (Inl e, t)" for k :: "unit \<Rightarrow> (db, error, unit) op"
      by (rule op_bind_Inl)
    then show ?thesis
      unfolding recordSamples_def withOrg_def if_not_P [OF False] by (intro exI [of _ e] transaction_Inl)
  qed
qed

lemma samples_applied:
  assumes "wf_db s" and "owns orgId (toLowerCase nodeId) s" and "isUuid nodeId"
  shows "if \<forall>x \<in> set samples. sample_fits x
    then \<exists>s'. recordSamples now orgId nodeId samples s = (Inr (), s')
      \<and> (\<forall>lid. device_at s' (toLowerCase nodeId) lid =
            map_option (\<lambda>d. case last_sample lid samples of None \<Rightarrow> d | Some x \<Rightarrow> set_sample x (sampled_at x) d)
              (device_at s (toLowerCase nodeId) lid))
      \<and> (\<forall>nid' lid. nid' \<noteq> toLowerCase nodeId \<longrightarrow> device_at s' nid' lid = device_at s nid' lid)
      \<and> t_nodes s' = map (\<lambda>n. if n_id n = toLowerCase nodeId
            then n\<lparr>n_lastSeenAt := Some now, n_status := ''online''\<rparr> else n) (t_nodes s)
    else \<exists>e. recordSamples now orgId nodeId samples s = (Inl e, s)"
proof (cases "\<forall>x \<in> set samples. sample_fits x")
  case False
  then show ?thesis using samples_outcome [OF assms(3), of samples now orgId s] by (simp only: if_False)
next
  case True
  let ?nid = "toLowerCase nodeId"
  let ?f = "fold (apply_sample orgId ?nid) samples"
  let ?s' = "s\<lparr>t_devices := map ?f (t_devices s),
        t_nodes := map (\<lambda>n. if n_orgId n = orgId \<and> n_id n = ?nid
                            then n\<lparr>n_lastSeenAt := Some now, n_status := ''online''\<rparr> else n) (t_nodes s)\<rparr>"
  have st: "recordSamples now orgId nodeId samples s = (Inr (), ?s')"
    using samples_outcome [OF assms(3), of samples now orgId s] True by (simp only: if_True)
  have slot: "slot (?f d) = slot d" for d
    by (simp add: fold_samples set_sample_def split: option.split)
  have at: "device_at ?s' n lid = map_option ?f (device_at s n lid)" for n lid
    using row_at_map [of slot ?f "\<lambda>_. True" "t_devices s" "(n, lid)"] slot by simp
  have org: "d_orgId d = orgId" if "device_at s ?nid lid = Some d" for d lid
    using row_at_key [OF that] wf_dbD(8) [OF assms(1), of d] assms(2) by (auto simp: owns_def)
  have "device_at ?s' ?nid lid =
      map_option (\<lambda>d. case last_sample lid samples of None \<Rightarrow> d | Some x \<Rightarrow> set_sample x (sampled_at x) d)
        (device_at s ?nid lid)" for lid
    unfolding at using org [of lid] row_at_key [of slot "t_devices s" "(?nid, lid)"]
    by (cases "device_at s ?nid lid") (auto simp: fold_samples)
  moreover have "device_at ?s' nid' lid = device_at s nid' lid" if "nid' \<noteq> ?nid" for nid' lid
    unfolding at using that row_at_key [of slot "t_devices s" "(nid', lid)"]
    by (cases "device_at s nid' lid") (auto simp: fold_samples)
  moreover have "t_nodes ?s' = map (\<lambda>n. if n_id n = ?nid
            then n\<lparr>n_lastSeenAt := Some now, n_status := ''online''\<rparr> else n) (t_nodes s)"
    using assms(2) by (auto simp: owns_def)
  ultimately show ?thesis unfolding if_P [OF True] using st by (intro exI [of _ ?s'] conjI allI impI)
qed

lemma set_sample_fields:
  "set_sample x t d =
     d\<lparr>d_lastUsedBytes := uint (s_usedBytes x), d_lastManagedBytes := uint (s_managedBytes x),
       d_lastUtilization := pg_double (s_utilization x),
       d_lastPressure := (if s_pressure x = MEMORY_PRESSURE_WARN then ''warn''
          else if s_pressure x = MEMORY_PRESSURE_CRITICAL then ''critical'' else ''normal''),
       d_lastSampleAt := Some t\<rparr>"
proof -
  have "(case pressureName (s_pressure x) of Some p \<Rightarrow> p | None \<Rightarrow> ''normal'') =
      (if s_pressure x = MEMORY_PRESSURE_WARN then ''warn''
       else if s_pressure x = MEMORY_PRESSURE_CRITICAL then ''critical'' else ''normal'')"
    by (simp add: pressureName_eq MEMORY_PRESSURE_WARN_def MEMORY_PRESSURE_CRITICAL_def)
  then show ?thesis unfolding set_sample_def by (simp only:)
qed

text \<open>(C19) A batch whose values fit is applied as a whole: every device of the node shows the last
  sample the batch has for it (an unknown pressure as normal) and keeps its row when it has none,
  samples for local ids the node does not have and devices of other nodes are not touched, and the
  node is online and seen now, even after an empty batch. If one value does not fit (a byte count
  of \<open>2\<^sup>6\<^sup>3\<close> or more, an impossible date) nothing of the batch is stored, the heartbeat included.\<close>

theorem samples_latest:
  assumes "wf_db s" and "owns orgId (toLowerCase nodeId) s" and "isUuid nodeId"
  shows "if \<forall>x \<in> set samples. sample_fits x
    then \<exists>s'. recordSamples now orgId nodeId samples s = (Inr (), s')
      \<and> (\<forall>lid. device_at s' (toLowerCase nodeId) lid =
            map_option (\<lambda>d. case last_sample lid samples of None \<Rightarrow> d | Some x \<Rightarrow>
                d\<lparr>d_lastUsedBytes := uint (s_usedBytes x), d_lastManagedBytes := uint (s_managedBytes x),
                  d_lastUtilization := pg_double (s_utilization x),
                  d_lastPressure := (if s_pressure x = MEMORY_PRESSURE_WARN then ''warn''
                     else if s_pressure x = MEMORY_PRESSURE_CRITICAL then ''critical'' else ''normal''),
                  d_lastSampleAt := Some (sampled_at x)\<rparr>)
              (device_at s (toLowerCase nodeId) lid))
      \<and> (\<forall>nid' lid. nid' \<noteq> toLowerCase nodeId \<longrightarrow> device_at s' nid' lid = device_at s nid' lid)
      \<and> t_nodes s' = map (\<lambda>n. if n_id n = toLowerCase nodeId
            then n\<lparr>n_lastSeenAt := Some now, n_status := ''online''\<rparr> else n) (t_nodes s)
    else \<exists>e. recordSamples now orgId nodeId samples s = (Inl e, s)"
  using samples_applied [OF assms, of samples now] unfolding set_sample_fields .

section \<open>Reports on the sample fleet\<close>

definition demo_fleet :: db where
  "demo_fleet = demo_enrolled\<lparr>t_devices := [demo_device]\<rparr>"

definition demo_report :: "device list" where
  "demo_report =
     [\<lparr>dev_localId = ''cuda:0'', dev_kind = 2, dev_index = 0, dev_name = ''RTX 4090 (new driver)'',
       dev_totalBytes = 25757220864, dev_driverVersion = ''560'', dev_computeCapability = ''8.9'', dev_wiredLimitBytes = 0\<rparr>,
      \<lparr>dev_localId = ''npu:0'', dev_kind = 9, dev_index = 0, dev_name = ''NPU'',
       dev_totalBytes = 0, dev_driverVersion = [], dev_computeCapability = [], dev_wiredLimitBytes = 0\<rparr>]"

definition demo_sample :: device_sample where
  "demo_sample = \<lparr>s_localId = ''cuda:0'', s_usedBytes = 1024, s_managedBytes = 0, s_utilization = 0,
     s_temperatureC = 0, s_powerWatts = 0, s_pressure = 2, s_sampledAtUnixMs = 5000\<rparr>"

lemma demo_id_uuid: "isUuid demo_id" "toLowerCase demo_id = demo_id"
  by code_simp+

lemma demo_node_fields [simp]: "n_id demo_node = demo_id" "n_orgId demo_node = ''org_a''"
  by (simp_all add: demo_node_def new_node_def Let_def)

lemma demo_fleet_wf: "wf_db demo_fleet"
proof -
  have "wf_db demo_enrolled"
    by (rule keepsD [OF wf_enroll demo_wf demo_enroll]) (simp add: demo_input_def)
  moreover have "t_nodes demo_enrolled = [demo_node]" by (simp add: demo_enrolled_def)
  ultimately show ?thesis
    unfolding demo_fleet_def
    by (intro wf_set_devices) (simp_all add: demo_device_ok, simp add: demo_device_def)
qed

lemma demo_owns: "owns ''org_a'' (toLowerCase demo_id) demo_fleet"
  by (simp add: owns_def demo_fleet_def demo_enrolled_def)

definition demo_fresh :: "nat \<Rightarrow> uuid" where
  "demo_fresh k = replicate k CHR ''f''"

lemma demo_ready: "ready demo_fresh ''org_a'' (toLowerCase demo_id) 0 demo_fleet" "inj demo_fresh"
proof -
  have "demo_fresh j \<noteq> ''d1''" for j
    by (cases j) (auto simp: demo_fresh_def)
  then show "ready demo_fresh ''org_a'' (toLowerCase demo_id) 0 demo_fleet"
    using demo_fleet_wf
    by (auto simp: ready_def demo_id_uuid demo_fleet_def demo_enrolled_def demo_device_def)
  show "inj demo_fresh"
    by (rule injI) (metis demo_fresh_def length_replicate)
qed

lemma demo_known: "known_devices demo_report = [(demo_report ! 0, ''cuda'')]"
  by (simp add: known_devices_def demo_report_def kindName_eq)

lemma demo_checks: "\<forall>(d, kind) \<in> set (known_devices demo_report). device_checks d kind = Inr ()"
proof -
  have "device_checks (demo_report ! 0) ''cuda'' = Inr ()" by code_simp
  then show ?thesis by (simp add: demo_known)
qed

lemma demo_sample_fits: "sample_fits demo_sample"
proof -
  have "sint (s_sampledAtUnixMs demo_sample) = 5000" by (simp add: demo_sample_def)
  then have "sample_date demo_sample = Inr 5000"
    using new_Date_of_int [of 5000] by (simp add: sample_date_def pg_timestamp_def)
  moreover have "sample_checks demo_sample = Inr ()" by code_simp
  ultimately show ?thesis by (simp add: sample_fits_def)
qed

theorem inventory_exact_witness:
  "\<exists>s'. recordInventory demo_fresh 7 ''org_a'' demo_id demo_report demo_fleet = (Inr (), s')
     \<and> map_option device_facts (device_at s' demo_id ''cuda:0'')
         = Some (''cuda'', 0, ''RTX 4090 (new driver)'', 25757220864, 0, ''560'', ''8.9'')
     \<and> device_at s' demo_id ''npu:0'' = None"
proof -
  obtain s' where s': "recordInventory demo_fresh 7 ''org_a'' demo_id demo_report demo_fleet = (Inr (), s')"
    using inventory_returns [OF demo_ready demo_id_uuid(1) demo_checks] by blast
  note e = inventory_exact [OF demo_fleet_wf demo_owns s', unfolded demo_id_uuid]
  have l: "last_report ''cuda:0'' demo_report = Some (demo_report ! 0, ''cuda'')"
    "last_report ''npu:0'' demo_report = None"
    by (simp_all add: last_report_def demo_known) (simp_all add: demo_report_def)
  show ?thesis
    using s' e [of "''cuda:0''"] e [of "''npu:0''"] unfolding l
    by (simp add: reported_facts_def demo_report_def)
qed

theorem inventory_all_or_nothing_witness:
  "\<exists>s'. recordInventory demo_fresh 7 ''org_a'' demo_id demo_report demo_fleet = (Inr (), s')"
  using inventory_all_or_nothing [OF demo_ready demo_id_uuid(1), of demo_report 7] demo_checks by simp

theorem samples_latest_witness:
  "\<exists>s'. recordSamples 6000 ''org_a'' demo_id [demo_sample] demo_fleet = (Inr (), s')
     \<and> map_option d_lastPressure (device_at s' demo_id ''cuda:0'') = Some ''warn''
     \<and> map n_status (t_nodes s') = [''online'']"
proof -
  have "\<forall>x \<in> set [demo_sample]. sample_fits x" using demo_sample_fits by simp
  then obtain s' where s': "recordSamples 6000 ''org_a'' demo_id [demo_sample] demo_fleet = (Inr (), s')"
    and d: "device_at s' demo_id ''cuda:0'' =
        map_option (\<lambda>d. case last_sample ''cuda:0'' [demo_sample] of None \<Rightarrow> d | Some x \<Rightarrow> set_sample x (sampled_at x) d)
          (device_at demo_fleet demo_id ''cuda:0'')"
    and n: "t_nodes s' = map (\<lambda>n. if n_id n = demo_id
            then n\<lparr>n_lastSeenAt := Some 6000, n_status := ''online''\<rparr> else n) (t_nodes demo_fleet)"
    using samples_latest [OF demo_fleet_wf demo_owns demo_id_uuid(1), of "[demo_sample]" 6000]
    unfolding demo_id_uuid set_sample_fields by auto
  have "device_at demo_fleet demo_id ''cuda:0'' = Some demo_device"
    by (simp add: row_at_def demo_fleet_def demo_device_def)
  then show ?thesis
    using s' d n by (simp add: last_sample_def demo_sample_def set_sample_def pressureName_eq
        demo_fleet_def demo_enrolled_def)
qed

end
