(* ===== verification/Node_Service.thy ===== *)
theory Node_Service
  imports Node_Auth Inventory
begin

text \<open>
  The agent's API: \<open>apps/control-plane/src/rpc/node-service.ts\<close>. The state of a connection handler is
  the database together with the nonce store. \<open>connect\<close> is an asynchronous generator: its model
  yields the messages sent, how the stream ended, and the state. Every received message carries
  the clock readings and generated ids of its processing.
\<close>

section \<open>The component\<close>

definition enroll_input_of :: "enroll_request \<Rightarrow> enroll_input" where
  "enroll_input_of req =
     \<lparr>ei_pairingCode = er_pairingCode req, ei_publicKey = er_publicKey req,
      ei_nodeName = er_nodeName req, ei_host = hostColumns (er_host req)\<rparr>"

definition enroll ::
  "conn \<Rightarrow> (string \<Rightarrow> string \<Rightarrow> string) \<Rightarrow> string \<Rightarrow> millis \<Rightarrow> millis \<Rightarrow> uuid \<Rightarrow> millis \<Rightarrow> enroll_request
   \<Rightarrow> (db, error, enroll_response) op" where
  "enroll owner hmac pepper claimed checked fresh created req =
     op_catch
       (enrollNode owner hmac pepper claimed checked fresh created (enroll_input_of req))
       (\<lambda>err. case err of
          PairingCodeError message \<Rightarrow> op_throw (ConnectError message InvalidArgument)
        | EnrollmentError message \<Rightarrow> op_throw (ConnectError message InvalidArgument)
        | _ \<Rightarrow> op_throw err)"

record received =
  rc_now :: millis
  rc_fresh :: "nat \<Rightarrow> uuid"
  rc_payload :: agent_message

text \<open>The body of the loop: one message of an authenticated connection.\<close>

definition handle_message :: "string \<Rightarrow> string \<Rightarrow> received \<Rightarrow> (db, error, unit) op" where
  "handle_message orgId nodeId m =
     (case rc_payload m of
        Hello h \<Rightarrow> markNodeOnline (rc_now m) orgId nodeId
          ((hostColumns (hello_host h))\<lparr>hc_agentVersion := hello_agentVersion h\<rparr>)
      | Inventory report \<Rightarrow> recordInventory (rc_fresh m) (rc_now m) orgId nodeId (ir_devices report)
      | Samples batch \<Rightarrow> recordSamples (rc_now m) orgId nodeId (sb_samples batch)
      | NoPayload \<Rightarrow> op_return ())"

definition connect ::
  "(bytes \<Rightarrow> 'key option) \<Rightarrow> ('key \<Rightarrow> string \<Rightarrow> bytes \<Rightarrow> bool option) \<Rightarrow> (string \<Rightarrow> bytes)
   \<Rightarrow> 'r redis_set \<Rightarrow> conn \<Rightarrow> number \<Rightarrow> number \<Rightarrow> millis \<Rightarrow> millis \<Rightarrow> string option \<Rightarrow> received list
   \<Rightarrow> db \<times> 'r \<Rightarrow> server_message list \<times> (error + unit) \<times> db \<times> 'r" where
  "connect ck vf b64 redis_set owner skew sampleInterval checked stored header requests = (\<lambda>(s, r).
     case authenticateNode ck vf b64 redis_set owner skew checked stored s header r of
       (Inl e, r') \<Rightarrow> ([], Inl e, s, r')
     | (Inr (nodeId, orgId), r') \<Rightarrow>
         (case op_for requests (handle_message orgId nodeId) s of
            (x, s') \<Rightarrow> ([HelloAck \<lparr>ha_nodeId = nodeId, ha_sampleIntervalMs = sampleInterval\<rparr>], x, s', r')))"

section \<open>Errors of an enrollment\<close>

text \<open>(C32) The operator running an enrollment is told the reason: whatever the code or the key is
  refused for comes back with its message as \<open>InvalidArgument\<close>, any other failure passes through,
  and mapping the error changes nothing of what was stored.\<close>

theorem enroll_reports_reason:
  assumes "wf_db s"
  shows "(case enrollNode OwnerConn hmac pepper claimed checked fresh created (enroll_input_of req) s of
      (Inr resp, t) \<Rightarrow> enroll OwnerConn hmac pepper claimed checked fresh created req s = (Inr resp, t) \<and> wf_db t
    | (Inl (PairingCodeError m), t) \<Rightarrow> m \<in> {''unknown pairing code'', ''pairing code already used'', ''pairing code expired''}
        \<and> enroll OwnerConn hmac pepper claimed checked fresh created req s = (Inl (ConnectError m InvalidArgument), s)
    | (Inl (EnrollmentError m), t) \<Rightarrow> m \<in> {''public key must be a 32-byte Ed25519 key'', ALREADY_ENROLLED}
        \<and> enroll OwnerConn hmac pepper claimed checked fresh created req s = (Inl (ConnectError m InvalidArgument), s)
    | (Inl e, t) \<Rightarrow> enroll OwnerConn hmac pepper claimed checked fresh created req s = (Inl e, t) \<and> (\<exists>pg. e = PgError pg))"
proof -
  let ?input = "enroll_input_of req"
  have wf: "keeps wf_db (enrollNode OwnerConn hmac pepper claimed checked fresh created ?input)"
    by (rule wf_enroll) (simp add: enroll_input_of_def)
  note out = enroll_outcomes [OF assms(1), of hmac pepper claimed checked fresh created ?input]
  have red: "\<exists>m. e = PairingCodeError m \<and> m \<in> {''unknown pairing code'', ''pairing code already used'', ''pairing code expired''}"
    if "redeemPairingCode OwnerConn hmac pepper claimed checked (ei_pairingCode ?input) s = (Inl e, t)" for e t
    using that redeem_cases [OF assms(1) refl, of hmac pepper claimed checked "ei_pairingCode ?input"]
    by (auto split: option.splits if_splits)
  obtain x t where en: "enrollNode OwnerConn hmac pepper claimed checked fresh created ?input s = (x, t)"
    by (cases "enrollNode OwnerConn hmac pepper claimed checked fresh created ?input s")
  have en': "enroll OwnerConn hmac pepper claimed checked fresh created req s =
      (case x of Inr resp \<Rightarrow> (Inr resp, t)
       | Inl (PairingCodeError m) \<Rightarrow> (Inl (ConnectError m InvalidArgument), t)
       | Inl (EnrollmentError m) \<Rightarrow> (Inl (ConnectError m InvalidArgument), t)
       | Inl e \<Rightarrow> (Inl e, t))"
    using en unfolding enroll_def by (auto simp: op_catch_def split: sum.splits error.splits)
  show ?thesis
  proof (cases x)
    case (Inr resp)
    then show ?thesis using en en' keepsD [OF wf assms(1)] by simp
  next
    case (Inl e)
    then consider m where "e = PairingCodeError m" "t = s" "m \<in> {''unknown pairing code'', ''pairing code already used'', ''pairing code expired''}"
      | m where "e = EnrollmentError m" "t = s" "m \<in> {''public key must be a 32-byte Ed25519 key'', ALREADY_ENROLLED}"
      | pg where "e = PgError pg"
      using out en red by (auto split: if_splits sum.splits prod.splits)
    then show ?thesis by cases (use en en' Inl in auto)
  qed
qed

section \<open>The stream\<close>

text \<open>An unauthenticated caller can never cause a write: when the header is refused, the stream
  ends with that error before a message is read, nothing has been sent and the database is
  unchanged. An authenticated stream begins with the acknowledgement naming the node.\<close>

theorem connect_authenticates_first:
  "(case authenticateNode ck vf b64 redis_set owner skew checked stored s header r of
      (Inl e, r') \<Rightarrow> connect ck vf b64 redis_set owner skew sampleInterval checked stored header requests (s, r) = ([], Inl e, s, r')
    | (Inr (nodeId, orgId), r') \<Rightarrow> (\<exists>x s'. connect ck vf b64 redis_set owner skew sampleInterval checked stored header requests (s, r)
          = ([HelloAck \<lparr>ha_nodeId = nodeId, ha_sampleIntervalMs = sampleInterval\<rparr>], x, s', r')))"
  by (auto simp: connect_def split: prod.splits sum.splits)

lemma hello_host_ok [simp]: "host_ok ((hostColumns h)\<lparr>hc_agentVersion := v\<rparr>)"
  using hostColumns_ok [of h] by (simp add: host_ok_def)

lemma preserves_t_nodes_inventory: "preserves t_nodes (recordInventory fresh created orgId nodeId ds)"
proof -
  have "preserves t_nodes (upsert_device c row g)" for c row g
    by (simp add: preserves_def upsert_device_def)
  moreover have "preserves t_nodes (on_devices st)" for st :: "device_row list \<Rightarrow> pg_error + device_row list \<times> unit"
    by (auto simp: preserves_def on_table_def split: sum.split)
  ultimately show ?thesis
    unfolding recordInventory_def Let_def withOrg_def
    by (auto intro!: preserves_transaction preserves_bind preserves_for split: prod.splits)
qed

text \<open>The node a connection is for exists in its organization, and stays.\<close>

definition has_node :: "string \<Rightarrow> uuid \<Rightarrow> db \<Rightarrow> bool" where
  "has_node org nid s \<longleftrightarrow> (\<exists>n \<in> set (t_nodes s). n_id n = nid \<and> n_orgId n = org)"

lemma has_node_owns: "wf_db s \<Longrightarrow> has_node org nid s \<Longrightarrow> owns org nid s"
  unfolding has_node_def owns_def using wf_node_unique by metis

lemma has_node_update:
  assumes "\<And>n. n_id (f n) = n_id n \<and> n_orgId (f n) = n_orgId n"
  shows "keeps (has_node org nid) (on_nodes (sql_update c n_orgId P f))"
proof (rule keeps_on_table)
  fix s t x assume h: "has_node org nid s" and "sql_update c n_orgId P f (t_nodes s) = Inr (t, x)"
  then have t: "t = map (\<lambda>r. if org_isolation c (n_orgId r) \<and> P r then f r else r) (t_nodes s)"
    using sql_update_rows by blast
  obtain n where n: "n \<in> set (t_nodes s)" "n_id n = nid" "n_orgId n = org" using h by (auto simp: has_node_def)
  let ?n = "if org_isolation c (n_orgId n) \<and> P n then f n else n"
  have "?n \<in> set t" unfolding t set_map using n(1) by (rule imageI)
  moreover have "n_id ?n = nid \<and> n_orgId ?n = org" using assms n by simp
  ultimately show "has_node org nid (s\<lparr>t_nodes := t\<rparr>)" unfolding has_node_def by auto
qed

lemma has_node_preserved: "preserves t_nodes m \<Longrightarrow> keeps (has_node org nid) m"
  by (auto simp: preserves_def keeps_def has_node_def)

lemma has_node_message: "keeps (has_node org nid) (handle_message orgId nodeId m)"
proof -
  have "preserves t_nodes (on_devices (sql_update c d_orgId P f))" for c P f
    by (auto simp: preserves_def on_table_def split: sum.split)
  then have dev: "keeps (has_node org nid) (on_devices (sql_update c d_orgId P f))" for c P f
    by (rule has_node_preserved)
  have "keeps (has_node org nid) (markNodeOnline now orgId nodeId h)" for now h
    unfolding markNodeOnline_def withOrg_def
    by (intro keeps_transaction keeps_bind keeps_check keeps_return has_node_update) simp
  moreover have "keeps (has_node org nid) (recordSamples now orgId nodeId xs)" for now xs
    unfolding recordSamples_def withOrg_def
    by (intro keeps_transaction keeps_bind keeps_for keeps_check keeps_return keeps_lift has_node_update dev) simp
  moreover have "keeps (has_node org nid) (recordInventory fr now orgId nodeId ds)" for fr now ds
    using preserves_t_nodes_inventory by (rule has_node_preserved)
  ultimately show ?thesis by (simp add: handle_message_def split: agent_message.split)
qed

lemma wf_message:
  "keeps (\<lambda>s. wf_db s \<and> has_node orgId (toLowerCase nodeId) s) (handle_message orgId nodeId m)"
proof (rule keepsI)
  fix s r t
  assume pre: "wf_db s \<and> has_node orgId (toLowerCase nodeId) s" and st: "handle_message orgId nodeId m s = (r, t)"
  have own: "wf_db s \<and> owns orgId (toLowerCase nodeId) s" using pre has_node_owns by blast
  have "wf_db t"
  proof (cases "rc_payload m")
    case (Inventory report)
    then show ?thesis
      using keepsD [OF wf_recordInventory own] st by (simp add: handle_message_def)
  qed (use pre st in \<open>auto simp: handle_message_def intro: keepsD [OF wf_markNodeOnline [OF hello_host_ok]] keepsD [OF wf_recordSamples]\<close>)
  then show "wf_db t \<and> has_node orgId (toLowerCase nodeId) t"
    using keepsD [OF has_node_message] pre st by blast
qed

lemma frame_message: "preserves (outside org) (handle_message org nodeId m)"
  by (simp add: handle_message_def online_scoped.frame inventory_scoped.frame samples_scoped.frame
      split: agent_message.split)

text \<open>(C15) A whole connection keeps the database well-formed and stays inside the node's organization:
  for any header and any messages, the database after it is well-formed and agrees with the one
  before on every row of every organization other than the node's own.\<close>

theorem connect_confined_to_node:
  assumes "wf_db s"
    and "connect ck vf b64 redis_set owner skew sampleInterval checked stored header requests (s, r) = (sent, x, s', r')"
  shows "wf_db s' \<and> (s' = s \<or> (\<exists>nodeId. \<exists>n \<in> set (t_nodes s). sent = [HelloAck \<lparr>ha_nodeId = nodeId, ha_sampleIntervalMs = sampleInterval\<rparr>]
       \<and> n_id n = toLowerCase nodeId \<and> outside (n_orgId n) s' = outside (n_orgId n) s))"
proof -
  obtain y r1 where au: "authenticateNode ck vf b64 redis_set owner skew checked stored s header r = (y, r1)"
    by (cases "authenticateNode ck vf b64 redis_set owner skew checked stored s header r")
  show ?thesis
  proof (cases y)
    case (Inl e)
    then show ?thesis using assms au by (simp add: connect_def)
  next
    case (Inr p)
    obtain nodeId orgId where p: "p = (nodeId, orgId)" by (cases p)
    obtain n where n: "n \<in> set (t_nodes s)" "n_id n = toLowerCase nodeId" "n_orgId n = orgId"
      using authenticate_success [OF au [unfolded Inr p]] by blast
    have loop: "op_for requests (handle_message orgId nodeId) s = (x, s')" and sent: "sent = [HelloAck \<lparr>ha_nodeId = nodeId, ha_sampleIntervalMs = sampleInterval\<rparr>]"
      using assms(2) au by (auto simp: connect_def Inr p split: prod.splits)
    have k: "keeps (\<lambda>s. wf_db s \<and> has_node orgId (toLowerCase nodeId) s) (op_for requests (handle_message orgId nodeId))"
      by (intro keeps_for wf_message)
    have "wf_db s \<and> has_node orgId (toLowerCase nodeId) s" using assms(1) n by (auto simp: has_node_def)
    from keepsD [OF k this loop] have "wf_db s'" by simp
    moreover have "preserves (outside orgId) (op_for requests (handle_message orgId nodeId))"
      by (intro preserves_for frame_message)
    then have "outside orgId s' = outside orgId s" using preservesD loop by metis
    ultimately show ?thesis using n sent by blast
  qed
qed

section \<open>Requests on the sample data\<close>

definition demo_request :: enroll_request where
  "demo_request = \<lparr>er_pairingCode = ''abcd-efgh'', er_publicKey = replicate 32 7, er_nodeName = [], er_host = None\<rparr>"

theorem enroll_reports_reason_witness:
  "enroll OwnerConn demo_hmac [] 1000 1000 demo_id 2000 demo_request demo_db
     = (Inr \<lparr>ers_nodeId = demo_id, ers_orgId = ''org_a'', ers_orgName = ''Fleet''\<rparr>, demo_enrolled)
   \<and> wf_db demo_enrolled"
proof -
  have "enroll_input_of demo_request = demo_input"
    by (simp add: enroll_input_of_def demo_request_def demo_input_def)
  then show ?thesis
    using enroll_reports_reason [OF demo_wf, of demo_hmac "[]" 1000 1000 demo_id 2000 demo_request] demo_enroll by simp
qed

theorem connect_confined_to_node_witness:
  "\<exists>x s' r'. connect Some sample_verify sample_base64 px_set OwnerConn 60000 5000 50000 50001 (Some sample_header)
       [\<lparr>rc_now = 50002, rc_fresh = \<lambda>_. [], rc_payload = Samples \<lparr>sb_samples = []\<rparr>\<rparr>] (auth_db, [])
     = ([HelloAck \<lparr>ha_nodeId = n_id auth_node, ha_sampleIntervalMs = 5000\<rparr>], x, s', r') \<and> wf_db s'"
proof -
  have a: "authenticateNode Some sample_verify sample_base64 px_set OwnerConn 60000 50000 50001 auth_db (Some sample_header) []
      = (Inr (n_id auth_node, ''org_a''), [(nonce_key (n_id auth_node) ''n1'', 50001 + 120000)])"
    by (rule sample_auth) (simp_all add: px_live_def)
  obtain sent x s' r' where c: "connect Some sample_verify sample_base64 px_set OwnerConn 60000 5000 50000 50001
      (Some sample_header) [\<lparr>rc_now = 50002, rc_fresh = \<lambda>_. [], rc_payload = Samples \<lparr>sb_samples = []\<rparr>\<rparr>] (auth_db, [])
      = (sent, x, s', r')" by (metis prod_cases4)
  have "sent = [HelloAck \<lparr>ha_nodeId = n_id auth_node, ha_sampleIntervalMs = 5000\<rparr>]"
    using c a by (auto simp: connect_def split: prod.splits)
  then show ?thesis using c connect_confined_to_node [OF auth_db_wf c] by blast
qed

end
