(* ===== verification/Sweeper.thy ===== *)
theory Sweeper
  imports Integrity
begin

text \<open>
  The offline sweeper: \<open>apps/control-plane/src/jobs/offline-sweeper.ts\<close>. Two updates on the owner's
  connection move silent nodes to \<open>degraded\<close> and \<open>offline\<close>. The thresholds are products of the sample
  interval; a cutoff before the representable dates throws, as \<open>toISOString\<close> does.
\<close>

section \<open>The component\<close>

definition DEGRADED_AFTER_MS :: "number \<Rightarrow> number" where
  "DEGRADED_AFTER_MS sampleInterval = js_mul sampleInterval 3"

definition OFFLINE_AFTER_MS :: "number \<Rightarrow> number" where
  "OFFLINE_AFTER_MS sampleInterval = js_mul sampleInterval 6"

text \<open>\<open>new Date(now.getTime() - ms)\<close> as a parameter of a statement.\<close>

definition cutoff :: "millis \<Rightarrow> number \<Rightarrow> (db, error, millis) op" where
  "cutoff now ms =
     (case new_Date (js_sub (of_int now) ms) of
        None \<Rightarrow> op_throw RangeError
      | Some t \<Rightarrow> pg_check (pg_timestamp t))"

text \<open>\<open>lt(lastSeenAt, t)\<close>: a null is never less.\<close>

definition seen_before :: "millis \<Rightarrow> node_row \<Rightarrow> bool" where
  "seen_before t n = (case n_lastSeenAt n of None \<Rightarrow> False | Some seen \<Rightarrow> seen < t)"

text \<open>The two statements, each with its cutoff; other requests may run between them.\<close>

definition offline_pass :: "conn \<Rightarrow> number \<Rightarrow> millis \<Rightarrow> (db, error, node_row list) op" where
  "offline_pass owner sampleInterval now =
     op_bind (cutoff now (OFFLINE_AFTER_MS sampleInterval)) (\<lambda>t.
       on_nodes (sql_update owner n_orgId (\<lambda>n. n_status n \<noteq> ''offline'' \<and> seen_before t n)
         (\<lambda>n. n\<lparr>n_status := ''offline''\<rparr>)))"

definition degraded_pass :: "conn \<Rightarrow> number \<Rightarrow> millis \<Rightarrow> (db, error, node_row list) op" where
  "degraded_pass owner sampleInterval now =
     op_bind (cutoff now (DEGRADED_AFTER_MS sampleInterval)) (\<lambda>t.
       on_nodes (sql_update owner n_orgId (\<lambda>n. n_status n = ''online'' \<and> seen_before t n)
         (\<lambda>n. n\<lparr>n_status := ''degraded''\<rparr>)))"

definition sweepOfflineNodes :: "conn \<Rightarrow> number \<Rightarrow> millis \<Rightarrow> (db, error, nat) op" where
  "sweepOfflineNodes owner sampleInterval now =
     op_bind (offline_pass owner sampleInterval now) (\<lambda>offline.
     op_bind (degraded_pass owner sampleInterval now) (\<lambda>degraded.
     op_return (length offline + length degraded)))"

section \<open>What a sweep does\<close>

lemma cutoff_keeps [simp]: "keeps I (cutoff now ms)"
  by (simp_all add: cutoff_def split: option.split)

lemma wf_passes [wf_intros]:
  "keeps wf_db (offline_pass owner interval now)" "keeps wf_db (degraded_pass owner interval now)"
  unfolding offline_pass_def degraded_pass_def
  by (intro keeps_bind wf_update_nodes cutoff_keeps; auto simp: node_ok_def)+

lemma wf_sweep [wf_intros]: "keeps wf_db (sweepOfflineNodes owner interval now)"
  unfolding sweepOfflineNodes_def by (intro keeps_bind keeps_return wf_passes)

text \<open>The contract: the status a node should have, as a function of how long it has been silent.\<close>

definition swept_status :: "int \<Rightarrow> millis \<Rightarrow> node_row \<Rightarrow> string" where
  "swept_status interval now n =
     (case n_lastSeenAt n of
        None \<Rightarrow> n_status n
      | Some seen \<Rightarrow>
          if now - seen > 6 * interval then ''offline''
          else if now - seen > 3 * interval \<and> n_status n = ''online'' then ''degraded''
          else n_status n)"

lemma cutoff_int:
  assumes "0 \<le> k" and "k \<le> 10 ^ 12" and "0 \<le> now" and "now \<le> 253402300799999"
  shows "cutoff now (of_int k) s = (Inr (now - k), s)"
proof -
  have "js_sub (of_int now) (of_int k) = of_int (now - k)" using assms by (intro js_sub_exact) simp
  moreover have "new_Date (of_int (now - k)) = Some (now - k)" using assms by (intro new_Date_of_int) simp
  ultimately show ?thesis using assms by (simp add: cutoff_def pg_timestamp_def pg_check_def)
qed

lemma owner_update_nodes:
  "on_nodes (sql_update OwnerConn n_orgId P f) s =
     (Inr (map f (filter P (t_nodes s))), s\<lparr>t_nodes := map (\<lambda>r. if P r then f r else r) (t_nodes s)\<rparr>)"
  by (simp add: on_table_def sql_update_def list_all_iff org_isolation_def)

lemma count_changes:
  "length (filter P t) + length (filter Q (map (\<lambda>n. if P n then f n else n) t))
     = length (filter (\<lambda>n. P n \<or> (\<not> P n \<and> Q n)) t)"
  if "\<And>n. P n \<Longrightarrow> \<not> Q (f n)"
  using that by (induction t) auto

lemma sweep_result:
  assumes "0 \<le> interval" and "interval \<le> 10 ^ 11" and "0 \<le> now" and "now \<le> 253402300799999"
  shows "sweepOfflineNodes OwnerConn (of_int interval) now s =
    (Inr (length (filter (\<lambda>n. n_status n \<noteq> swept_status interval now n) (t_nodes s))),
     s\<lparr>t_nodes := map (\<lambda>n. n\<lparr>n_status := swept_status interval now n\<rparr>) (t_nodes s)\<rparr>)"
proof -
  let ?P = "\<lambda>n. n_status n \<noteq> ''offline'' \<and> seen_before (now - 6 * interval) n"
  let ?Q = "\<lambda>n. n_status n = ''online'' \<and> seen_before (now - 3 * interval) n"
  let ?f = "\<lambda>n. n\<lparr>n_status := ''offline''\<rparr>" and ?g = "\<lambda>n. n\<lparr>n_status := ''degraded''\<rparr>"
  have ms: "OFFLINE_AFTER_MS (of_int interval) = of_int (6 * interval)"
    "DEGRADED_AFTER_MS (of_int interval) = of_int (3 * interval)"
    using assms fl_of_int [of "interval * 6"] fl_of_int [of "interval * 3"]
    by (simp_all add: OFFLINE_AFTER_MS_def DEGRADED_AFTER_MS_def js_mul_def)
  have cut: "cutoff now (of_int (6 * interval)) t = (Inr (now - 6 * interval), t)"
    "cutoff now (of_int (3 * interval)) t = (Inr (now - 3 * interval), t)" for t
    using assms by (intro cutoff_int; simp)+
  have row: "(if ?Q (if ?P n then ?f n else n) then ?g (if ?P n then ?f n else n) else (if ?P n then ?f n else n))
      = n\<lparr>n_status := swept_status interval now n\<rparr>" for n
    using assms(1) by (auto simp: swept_status_def seen_before_def split: option.splits)
  have num: "(?P n \<or> (\<not> ?P n \<and> ?Q n)) = (n_status n \<noteq> swept_status interval now n)" for n
    using assms(1) by (auto simp: swept_status_def seen_before_def split: option.splits)
  let ?h = "\<lambda>n. if ?P n then ?f n else n"
  have off: "offline_pass OwnerConn (of_int interval) now t =
      (Inr (map ?f (filter ?P (t_nodes t))), t\<lparr>t_nodes := map ?h (t_nodes t)\<rparr>)" for t
    unfolding offline_pass_def ms op_bind_Inr [OF cut(1)] owner_update_nodes ..
  have deg: "degraded_pass OwnerConn (of_int interval) now t =
      (Inr (map ?g (filter ?Q (t_nodes t))), t\<lparr>t_nodes := map (\<lambda>n. if ?Q n then ?g n else n) (t_nodes t)\<rparr>)" for t
    unfolding degraded_pass_def ms op_bind_Inr [OF cut(2)] owner_update_nodes ..
  have "sweepOfflineNodes OwnerConn (of_int interval) now s =
    (Inr (length (filter ?P (t_nodes s)) + length (filter ?Q (map ?h (t_nodes s)))),
     s\<lparr>t_nodes := map (\<lambda>n. if ?Q n then ?g n else n) (map ?h (t_nodes s))\<rparr>)"
    unfolding sweepOfflineNodes_def op_bind_Inr [OF off] op_bind_Inr [OF deg] op_return_apply by simp
  moreover have "length (filter ?P (t_nodes s)) + length (filter ?Q (map ?h (t_nodes s)))
      = length (filter (\<lambda>n. n_status n \<noteq> swept_status interval now n) (t_nodes s))"
    by (subst count_changes) (simp, simp only: num)
  moreover have "map (\<lambda>n. if ?Q n then ?g n else n) (map ?h (t_nodes s))
      = map (\<lambda>n. n\<lparr>n_status := swept_status interval now n\<rparr>) (t_nodes s)"
    by (simp only: map_map comp_def row)
  ultimately show ?thesis by (simp only:)
qed

text \<open>(C30) A sweep gives every node of the fleet the status its silence calls for, directly: offline
  beyond six sample intervals, degraded beyond three if it was online, otherwise unchanged; a node
  that has never been seen, an offline node and a node heard of within three intervals keep
  theirs. Only statuses change, and the number returned is the number of nodes that changed.\<close>

theorem sweep_exact:
  assumes "0 \<le> interval" and "interval \<le> 10 ^ 11" and "0 \<le> now" and "now \<le> 253402300799999"
  shows "sweepOfflineNodes OwnerConn (of_int interval) now s =
    (Inr (length (filter (\<lambda>n. n_status n \<noteq> swept_status interval now n) (t_nodes s))),
     s\<lparr>t_nodes := map (\<lambda>n. n\<lparr>n_status := swept_status interval now n\<rparr>) (t_nodes s)\<rparr>)"
  using assms by (rule sweep_result)

text \<open>A healthy node, one that has just gone quiet and one that has been gone for long.\<close>

definition sweep_node :: "string \<Rightarrow> millis option \<Rightarrow> node_row" where
  "sweep_node status seen = \<lparr>n_id = [], n_orgId = ''org_a'', n_name = ''n'', n_status = status, n_platform = [],
     n_arch = [], n_osVersion = [], n_agentVersion = [], n_hostname = [], n_totalMemoryBytes = 0,
     n_cpuCores = 0, n_publicKey = [], n_siteId = None, n_lastSeenAt = seen, n_createdAt = 0\<rparr>"

definition sweep_db :: db where
  "sweep_db = \<lparr>t_organization = [], t_nodes = [sweep_node ''online'' (Some 98000), sweep_node ''online'' (Some 80000),
     sweep_node ''online'' (Some 1000), sweep_node ''offline'' None], t_devices = [], t_pairing = []\<rparr>"

theorem sweep_exact_witness:
  "fst (sweepOfflineNodes OwnerConn 5000 100000 sweep_db) = Inr 2
   \<and> map n_status (t_nodes (snd (sweepOfflineNodes OwnerConn 5000 100000 sweep_db)))
      = [''online'', ''degraded'', ''offline'', ''offline'']"
  using sweep_exact [of 5000 100000 sweep_db] by (simp add: sweep_db_def sweep_node_def swept_status_def)

end
