(* ===== verification/Concurrency.thy ===== *)
theory Concurrency
  imports Node_Service Sweeper
begin

text \<open>
  The control plane under concurrency. Handlers run at the same time, and between two statements
  of one of them any number of statements of others may run; a single statement and a
  transaction are atomic. \<open>enroll_step\<close> cuts \<open>enrollNode\<close> and the redemption inside it into those
  atomic steps (\<open>domain/nodes.ts\<close>, \<open>domain/pairing.ts\<close>), and \<open>enroll_process_alone\<close> shows that a process left
  alone computes what the sequential definition does. \<open>sys_step\<close> is the whole system: enrollments
  in progress, minted codes, authenticated connections and their messages, and the sweeper, in
  any interleaving and with arbitrary clock readings.
\<close>

section \<open>An enrollment as a process\<close>

record job =
  j_request :: enroll_request
  j_fresh :: uuid
  j_created :: millis

definition j_input :: "job \<Rightarrow> enroll_input" where
  "j_input j = enroll_input_of (j_request j)"

lemma j_input_host [simp]: "host_ok (ei_host (j_input j))"
  by (simp add: j_input_def enroll_input_of_def)

datatype phase =
    Start
  | KeyChecked
  | Missed
  | Claimed pairing_row
  | Expired pairing_row
  | Redeemed pairing_row
  | Inserted pairing_row uuid
  | Done pairing_row enroll_response
  | Failed error
  | Spent pairing_row error

text \<open>One atomic step; \<open>clock\<close> is the reading of the step, if it takes one. The last three are final.\<close>

definition enroll_step ::
  "(string \<Rightarrow> string \<Rightarrow> string) \<Rightarrow> string \<Rightarrow> millis \<Rightarrow> job \<Rightarrow> phase \<Rightarrow> db \<Rightarrow> phase \<times> db" where
  "enroll_step hmac pepper clock j ph s =
     (let input = j_input j; hash = hashCode hmac pepper (ei_pairingCode input) in
      case ph of
        Start \<Rightarrow>
          (if length (ei_publicKey input) \<noteq> 32
           then Failed (EnrollmentError ''public key must be a 32-byte Ed25519 key'')
           else if first_row (sql_select OwnerConn n_orgId (\<lambda>r. n_publicKey r = ei_publicKey input) (t_nodes s)) \<noteq> None
           then Failed (EnrollmentError ALREADY_ENROLLED)
           else KeyChecked, s)
      | KeyChecked \<Rightarrow>
          (case on_pairing (sql_update OwnerConn p_orgId
                  (\<lambda>r. p_codeHash r = hash \<and> p_usedAt r = None) (\<lambda>r. r\<lparr>p_usedAt := Some clock\<rparr>)) s of
             (Inl e, s') \<Rightarrow> (Failed e, s')
           | (Inr rows, s') \<Rightarrow> (case first_row rows of None \<Rightarrow> Missed | Some row \<Rightarrow> Claimed row, s'))
      | Missed \<Rightarrow>
          (Failed (PairingCodeError
             (if first_row (sql_select OwnerConn p_orgId (\<lambda>r. p_codeHash r = hash) (t_pairing s)) \<noteq> None
              then ''pairing code already used'' else ''unknown pairing code'')), s)
      | Claimed row \<Rightarrow> (if p_expiresAt row < clock then Expired row else Redeemed row, s)
      | Expired row \<Rightarrow>
          (case on_pairing (sql_update OwnerConn p_orgId (\<lambda>r. p_id r = p_id row) (\<lambda>r. r\<lparr>p_usedAt := None\<rparr>)) s of
             (Inl e, s') \<Rightarrow> (Failed e, s')
           | (Inr _, s') \<Rightarrow> (Failed (PairingCodeError ''pairing code expired''), s'))
      | Redeemed row \<Rightarrow>
          (let n = new_node (j_fresh j) (j_created j) (p_orgId row) (p_nodeName row) input in
           case withOrg (p_orgId row) (\<lambda>tx. op_bind (pg_check (node_columns n)) (\<lambda>_. insert_node tx n)) s of
             (Inl e, s') \<Rightarrow> (Spent row (if isPublicKeyUniqueViolation e then EnrollmentError ALREADY_ENROLLED else e), s')
           | (Inr row', s') \<Rightarrow> (Inserted row (n_id row'), s'))
      | Inserted row nodeId \<Rightarrow>
          (Done row \<lparr>ers_nodeId = nodeId, ers_orgId = p_orgId row, ers_orgName = org_name (p_orgId row) s\<rparr>, s)
      | _ \<Rightarrow> (ph, s))"

fun phase_result :: "phase \<Rightarrow> (error + enroll_response) option" where
  "phase_result (Done row resp) = Some (Inr resp)"
| "phase_result (Failed e) = Some (Inl e)"
| "phase_result (Spent row e) = Some (Inl e)"
| "phase_result ph = None"

text \<open>The steps a process has left at most.\<close>

fun steps_left :: "phase \<Rightarrow> nat" where
  "steps_left Start = 5"
| "steps_left KeyChecked = 4"
| "steps_left Missed = 1"
| "steps_left (Claimed r) = 3"
| "steps_left (Redeemed r) = 2"
| "steps_left (Expired r) = 1"
| "steps_left (Inserted r n) = 1"
| "steps_left ph = 0"

lemma phase_result_final: "phase_result ph = None \<longleftrightarrow> steps_left ph \<noteq> 0"
  by (cases ph) simp_all

lemma enroll_step_final [simp]:
  "enroll_step hmac pepper c j (Failed e) s = (Failed e, s)"
  "enroll_step hmac pepper c j (Spent r e) s = (Spent r e, s)"
  "enroll_step hmac pepper c j (Done r resp) s = (Done r resp, s)"
  by (simp_all add: enroll_step_def Let_def)

text \<open>A process that runs alone, with the two clock readings of the sequential code.\<close>

fun run_alone :: "(string \<Rightarrow> string \<Rightarrow> string) \<Rightarrow> string \<Rightarrow> millis \<Rightarrow> millis \<Rightarrow> job \<Rightarrow> nat \<Rightarrow> phase \<Rightarrow> db \<Rightarrow> phase \<times> db" where
  "run_alone hmac pepper claimed checked j 0 ph s = (ph, s)"
| "run_alone hmac pepper claimed checked j (Suc k) ph s =
     (case enroll_step hmac pepper (if ph = KeyChecked then claimed else checked) j ph s of
        (ph', s') \<Rightarrow> run_alone hmac pepper claimed checked j k ph' s')"

lemma run_final: "phase_result ph \<noteq> None \<Longrightarrow> run_alone hmac pepper claimed checked j k ph s = (ph, s)"
  by (induction k; cases ph) (simp_all add: enroll_step_def Let_def)

lemma run_Suc:
  "run_alone hmac pepper claimed checked j (Suc k) ph s =
     run_alone hmac pepper claimed checked j k
       (fst (enroll_step hmac pepper (if ph = KeyChecked then claimed else checked) j ph s))
       (snd (enroll_step hmac pepper (if ph = KeyChecked then claimed else checked) j ph s))"
  by (simp split: prod.split)

text \<open>What the claim leaves of a redemption, and the insertion as one step.\<close>

lemma redeem_after_claim:
  assumes "on_pairing (sql_update OwnerConn p_orgId
       (\<lambda>r. p_codeHash r = hashCode hmac pepper code \<and> p_usedAt r = None) (\<lambda>r. r\<lparr>p_usedAt := Some claimed\<rparr>)) s
     = (Inr rows, s1)"
  shows "redeemPairingCode OwnerConn hmac pepper claimed checked code s =
     (case first_row rows of
        None \<Rightarrow> (Inl (PairingCodeError
          (if first_row (sql_select OwnerConn p_orgId (\<lambda>r. p_codeHash r = hashCode hmac pepper code) (t_pairing s1)) \<noteq> None
           then ''pairing code already used'' else ''unknown pairing code'')), s1)
      | Some row \<Rightarrow>
          if p_expiresAt row < checked then
            op_bind (on_pairing (sql_update OwnerConn p_orgId (\<lambda>r. p_id r = p_id row) (\<lambda>r. r\<lparr>p_usedAt := None\<rparr>)))
              (\<lambda>_. op_throw (PairingCodeError ''pairing code expired'')) s1
          else (Inr (p_orgId row, p_nodeName row), s1))"
  unfolding redeemPairingCode_def Let_def
  by (subst op_bind_Inr, rule assms) (simp split: option.split)

lemma enroll_step_insert:
  assumes "withOrg (p_orgId row) (\<lambda>tx. op_bind
       (pg_check (node_columns (new_node (j_fresh j) (j_created j) (p_orgId row) (p_nodeName row) (j_input j))))
       (\<lambda>_. insert_node tx (new_node (j_fresh j) (j_created j) (p_orgId row) (p_nodeName row) (j_input j)))) s = (x, s2)"
  shows "enroll_step hmac pepper clock j (Redeemed row) s =
     (case x of Inl e \<Rightarrow> Spent row (if isPublicKeyUniqueViolation e then EnrollmentError ALREADY_ENROLLED else e)
      | Inr row' \<Rightarrow> Inserted row (n_id row'), s2)"
  using assms by (cases x) (simp_all add: enroll_step_def)

text \<open>Left alone, the process ends after five steps with the answer and the database of \<open>enrollNode\<close>.\<close>

lemma enroll_process_alone:
  "case run_alone hmac pepper claimed checked j 5 Start s of
     (ph, s') \<Rightarrow> phase_result ph = Some (fst (enrollNode OwnerConn hmac pepper claimed checked (j_fresh j) (j_created j) (j_input j) s))
       \<and> s' = snd (enrollNode OwnerConn hmac pepper claimed checked (j_fresh j) (j_created j) (j_input j) s)"
proof -
  let ?in = "j_input j"
  let ?claim = "on_pairing (sql_update OwnerConn p_orgId
                  (\<lambda>r. p_codeHash r = hashCode hmac pepper (ei_pairingCode ?in) \<and> p_usedAt r = None)
                  (\<lambda>r. r\<lparr>p_usedAt := Some claimed\<rparr>)) s"
  consider (refused) "length (ei_publicKey ?in) \<noteq> 32
        \<or> sql_select OwnerConn n_orgId (\<lambda>r. n_publicKey r = ei_publicKey ?in) (t_nodes s) \<noteq> []"
    | (go) "length (ei_publicKey ?in) = 32"
        "sql_select OwnerConn n_orgId (\<lambda>r. n_publicKey r = ei_publicKey ?in) (t_nodes s) = []"
    by blast
  then show ?thesis
  proof cases
    case refused
    then show ?thesis
      by (cases "length (ei_publicKey ?in) = 32")
        (simp_all add: eval_nat_numeral run_Suc run_final enroll_step_def enrollNode_def del: run_alone.simps(2))
  next
    case go
    let ?rows = "map (\<lambda>r. r\<lparr>p_usedAt := Some claimed\<rparr>)
       (filter (\<lambda>r. p_codeHash r = hashCode hmac pepper (ei_pairingCode ?in) \<and> p_usedAt r = None) (t_pairing s))"
    obtain s1 where claim: "?claim = (Inr ?rows, s1)" by (simp add: owner_update)
    have st: "enroll_step hmac pepper c j Start s = (KeyChecked, s)" for c
      using go by (simp add: enroll_step_def)
    have cl: "enroll_step hmac pepper claimed j KeyChecked s
        = (case first_row ?rows of None \<Rightarrow> Missed | Some row \<Rightarrow> Claimed row, s1)"
      using claim by (simp add: enroll_step_def)
    note red = redeem_after_claim [OF claim, of checked]
    show ?thesis
    proof (cases "first_row ?rows")
      case None
      then have cl: "enroll_step hmac pepper claimed j KeyChecked s = (Missed, s1)" using cl by simp
      show ?thesis
        using go red None st cl
        by (simp add: eval_nat_numeral run_Suc run_final enrollNode_def enroll_step_def [where ph = Missed]
            del: run_alone.simps(2))
    next
      case (Some row)
      then have cl: "enroll_step hmac pepper claimed j KeyChecked s = (Claimed row, s1)" using cl by simp
      have ex: "enroll_step hmac pepper checked j (Claimed row) s1
          = (if p_expiresAt row < checked then Expired row else Redeemed row, s1)"
        by (simp add: enroll_step_def)
      show ?thesis
      proof (cases "p_expiresAt row < checked")
        case True
        then show ?thesis
          using go red Some st cl ex
          by (simp add: eval_nat_numeral run_Suc run_final enrollNode_def enroll_step_def [where ph = "Expired _"]
              owner_update op_bind_def del: run_alone.simps(2))
      next
        case False
        let ?n = "new_node (j_fresh j) (j_created j) (p_orgId row) (p_nodeName row) ?in"
        let ?ins = "withOrg (p_orgId row) (\<lambda>tx. op_bind (pg_check (node_columns ?n)) (\<lambda>_. insert_node tx ?n)) s1"
        obtain x s2 where ins: "?ins = (x, s2)" by (cases ?ins)
        note enroll_step_insert [OF ins, of hmac pepper checked]
        then show ?thesis
          using go red Some st cl ex False ins
          by (cases x)
            (simp_all add: eval_nat_numeral run_Suc run_final enrollNode_def enroll_step_def [where ph = "Inserted _ _"]
              op_catch_def op_bind_def [of "redeemPairingCode _ _ _ _ _ _"] op_bind_def [of "op_catch _ _"]
              op_bind_def [of "withOrg _ _"] org_name_def del: run_alone.simps(2))
      qed
    qed
  qed
qed

section \<open>The whole system\<close>

text \<open>
  The shared database, the phase of every enrollment and the authenticated connections, each the
  pair of node id and organization that \<open>authenticateNode\<close> returned.
\<close>

record sys =
  y_db :: db
  y_phase :: "nat \<Rightarrow> phase"
  y_conns :: "(string \<times> string) list"

text \<open>
  What the system runs with: the keyed hash and its pepper, the enrollment requests, and the
  parameters of node authentication.
\<close>

record ('key, 'r) deployment =
  su_hmac :: "string \<Rightarrow> string \<Rightarrow> string"
  su_pepper :: string
  su_jobs :: "nat \<Rightarrow> job"
  su_createPublicKey :: "bytes \<Rightarrow> 'key option"
  su_verify :: "'key \<Rightarrow> string \<Rightarrow> bytes \<Rightarrow> bool option"
  su_base64url :: "string \<Rightarrow> bytes"
  su_redis_set :: "'r redis_set"
  su_skew :: number

inductive sys_step :: "('key, 'r) deployment \<Rightarrow> sys \<Rightarrow> sys \<Rightarrow> bool" for u where
  enrolling: "enroll_step (su_hmac u) (su_pepper u) clock (su_jobs u p) (y_phase y p) (y_db y) = (ph, s')
    \<Longrightarrow> sys_step u y (y\<lparr>y_db := s', y_phase := (y_phase y)(p := ph)\<rparr>)"
| minting: "mintPairingCode (su_hmac u) (su_pepper u) ttl ri fresh created now orgId userId nodeName (y_db y) = (x, s')
    \<Longrightarrow> sys_step u y (y\<lparr>y_db := s'\<rparr>)"
| connecting: "authenticateNode (su_createPublicKey u) (su_verify u) (su_base64url u) (su_redis_set u) OwnerConn
      (su_skew u) checked stored (y_db y) header r = (Inr c, r')
    \<Longrightarrow> sys_step u y (y\<lparr>y_conns := c # y_conns y\<rparr>)"
| receiving: "(nodeId, orgId) \<in> set (y_conns y) \<Longrightarrow> handle_message orgId nodeId m (y_db y) = (x, s')
    \<Longrightarrow> sys_step u y (y\<lparr>y_db := s'\<rparr>)"
| sweeping: "offline_pass OwnerConn sampleInterval now (y_db y) = (x, s') \<or> degraded_pass OwnerConn sampleInterval now (y_db y) = (x, s')
    \<Longrightarrow> sys_step u y (y\<lparr>y_db := s'\<rparr>)"

text \<open>Before any request: a well-formed database, no enrollment begun, no connection.\<close>

definition sys_init :: "sys \<Rightarrow> bool" where
  "sys_init y \<longleftrightarrow> wf_db (y_db y) \<and> (\<forall>p. y_phase y p = Start) \<and> y_conns y = []"

section \<open>What every interleaving keeps\<close>

text \<open>The row of a code an enrollment has claimed and not released.\<close>

fun holder :: "phase \<Rightarrow> pairing_row option" where
  "holder (Claimed r) = Some r"
| "holder (Expired r) = Some r"
| "holder (Redeemed r) = Some r"
| "holder (Inserted r n) = Some r"
| "holder (Done r resp) = Some r"
| "holder (Spent r e) = Some r"
| "holder ph = None"

text \<open>The claim is recorded in the table.\<close>

definition held :: "db \<Rightarrow> pairing_row \<Rightarrow> bool" where
  "held s r \<longleftrightarrow> (\<exists>q \<in> set (t_pairing s). p_id q = p_id r \<and> p_codeHash q = p_codeHash r \<and> p_usedAt q \<noteq> None)"

text \<open>The node an enrollment has inserted is there, with its key and organization.\<close>

definition joined :: "db \<Rightarrow> enroll_input \<Rightarrow> phase \<Rightarrow> bool" where
  "joined s input ph =
     (case ph of
        Inserted r nid \<Rightarrow> list_ex (\<lambda>n. n_id n = nid \<and> n_orgId n = p_orgId r \<and> n_publicKey n = ei_publicKey input) (t_nodes s)
      | Done r resp \<Rightarrow> list_ex (\<lambda>n. n_id n = ers_nodeId resp \<and> n_orgId n = p_orgId r
            \<and> n_publicKey n = ei_publicKey input) (t_nodes s) \<and> ers_orgId resp = p_orgId r
      | _ \<Rightarrow> True)"

definition proc_ok :: "('key, 'r) deployment \<Rightarrow> db \<Rightarrow> job \<Rightarrow> phase \<Rightarrow> bool" where
  "proc_ok u s j ph \<longleftrightarrow>
     (\<forall>r. holder ph = Some r \<longrightarrow> p_codeHash r = hashCode (su_hmac u) (su_pepper u) (ei_pairingCode (j_input j)) \<and> held s r)
     \<and> (ph \<in> {KeyChecked, Missed} \<or> holder ph \<noteq> None \<longrightarrow> length (ei_publicKey (j_input j)) = 32)
     \<and> joined s (j_input j) ph"

definition sys_inv :: "('key, 'r) deployment \<Rightarrow> sys \<Rightarrow> bool" where
  "sys_inv u y \<longleftrightarrow> wf_db (y_db y)
     \<and> (\<forall>p. proc_ok u (y_db y) (su_jobs u p) (y_phase y p))
     \<and> (\<forall>p q r r'. holder (y_phase y p) = Some r \<longrightarrow> holder (y_phase y q) = Some r' \<longrightarrow> p_id r = p_id r' \<longrightarrow> p = q)
     \<and> (\<forall>(nodeId, orgId) \<in> set (y_conns y). has_node orgId (toLowerCase nodeId) (y_db y))"

text \<open>
  How a step of anyone changes what others rely on: nodes keep their id, organization and key, and
  a used code stays used.
\<close>

definition node_key :: "node_row \<Rightarrow> uuid \<times> string \<times> bytes" where
  "node_key n = (n_id n, n_orgId n, n_publicKey n)"

definition nodes_grow :: "db \<Rightarrow> db \<Rightarrow> bool" where
  "nodes_grow s s' \<longleftrightarrow> set (map node_key (t_nodes s)) \<subseteq> set (map node_key (t_nodes s'))"

definition codes_stay :: "db \<Rightarrow> db \<Rightarrow> bool" where
  "codes_stay s s' \<longleftrightarrow> {q \<in> set (t_pairing s). p_usedAt q \<noteq> None} \<subseteq> set (t_pairing s')"

lemma nodes_grow_refl [simp]: "nodes_grow s s"
  by (simp add: nodes_grow_def)

lemma codes_stay_refl [simp]: "codes_stay s s"
  by (auto simp: codes_stay_def)

lemma node_key_in: "x \<in> set (map node_key t) \<longleftrightarrow> (\<exists>n \<in> set t. (n_id n, n_orgId n, n_publicKey n) = x)"
  by (auto simp: node_key_def)

lemma has_node_grow: "nodes_grow s s' \<Longrightarrow> has_node org nid s \<Longrightarrow> has_node org nid s'"
  unfolding nodes_grow_def has_node_def subset_iff node_key_in by fastforce

lemma joined_grow:
  assumes "nodes_grow s s'" and "joined s input ph"
  shows "joined s' input ph"
proof -
  have "list_ex (\<lambda>n. n_id n = i \<and> n_orgId n = org \<and> n_publicKey n = k) (t_nodes s')"
    if "list_ex (\<lambda>n. n_id n = i \<and> n_orgId n = org \<and> n_publicKey n = k) (t_nodes s)" for i org k
    using that assms(1) unfolding nodes_grow_def list_ex_iff subset_iff node_key_in by fastforce
  then show ?thesis using assms(2) by (simp add: joined_def split: phase.splits)
qed

lemma held_stay: "codes_stay s s' \<Longrightarrow> held s r \<Longrightarrow> held s' r"
  unfolding codes_stay_def held_def by blast

lemma proc_ok_stay: "nodes_grow s s' \<Longrightarrow> codes_stay s s' \<Longrightarrow> proc_ok u s j ph \<Longrightarrow> proc_ok u s' j ph"
  using joined_grow held_stay unfolding proc_ok_def by blast

text \<open>A step of the environment: the invariant survives it whenever integrity does.\<close>

lemma sys_inv_env:
  assumes "sys_inv u y" and "wf_db s'" and "nodes_grow (y_db y) s'" and "codes_stay (y_db y) s'"
  shows "sys_inv u (y\<lparr>y_db := s'\<rparr>)"
  using assms proc_ok_stay [OF assms(3,4)] has_node_grow [OF assms(3)] unfolding sys_inv_def by fastforce

lemma grow_update:
  assumes "\<And>n. n_id (f n) = n_id n \<and> n_orgId (f n) = n_orgId n \<and> n_publicKey (f n) = n_publicKey n"
  shows "keeps (\<lambda>t. nodes_grow s t) (on_nodes (sql_update c n_orgId P f))"
proof (rule keeps_on_table)
  fix t t' x assume g: "nodes_grow s t" and "sql_update c n_orgId P f (t_nodes t) = Inr (t', x)"
  then have "t' = map (\<lambda>r. if org_isolation c (n_orgId r) \<and> P r then f r else r) (t_nodes t)"
    using sql_update_rows by blast
  then have "map node_key t' = map node_key (t_nodes t)" using assms by (simp add: node_key_def)
  then show "nodes_grow s (t\<lparr>t_nodes := t'\<rparr>)" using g by (simp add: nodes_grow_def)
qed

lemma grow_preserved: "preserves t_nodes m \<Longrightarrow> keeps (\<lambda>t. nodes_grow s t) m"
  by (auto simp: preserves_def keeps_def nodes_grow_def)

lemma on_devices_nodes: "preserves t_nodes (on_devices st)"
  by (auto simp: preserves_def on_table_def split: sum.split)

lemma on_devices_pairing: "preserves t_pairing (on_devices st)"
  by (auto simp: preserves_def on_table_def split: sum.split)

lemma on_nodes_pairing: "preserves t_pairing (on_nodes st)"
  by (auto simp: preserves_def on_table_def split: sum.split)

lemma message_grow: "keeps (\<lambda>t. nodes_grow s t) (handle_message orgId nodeId m)"
proof -
  have "keeps (\<lambda>t. nodes_grow s t) (markNodeOnline now orgId nodeId h)" for now h
    unfolding markNodeOnline_def withOrg_def
    by (intro keeps_transaction keeps_bind keeps_check keeps_return grow_update) simp
  moreover have "keeps (\<lambda>t. nodes_grow s t) (recordSamples now orgId nodeId xs)" for now xs
    unfolding recordSamples_def withOrg_def
    by (intro keeps_transaction keeps_bind keeps_for keeps_check keeps_return keeps_lift grow_update
        grow_preserved on_devices_nodes) simp
  moreover have "keeps (\<lambda>t. nodes_grow s t) (recordInventory fr now orgId nodeId ds)" for fr now ds
    using preserves_t_nodes_inventory by (rule grow_preserved)
  ultimately show ?thesis by (simp add: handle_message_def split: agent_message.split)
qed

lemma message_pairing: "preserves t_pairing (handle_message orgId nodeId m)"
proof -
  have "preserves t_pairing (upsert_device c row g)" for c row g
    by (simp add: preserves_def upsert_device_def)
  then have "preserves t_pairing (recordInventory fr now orgId nodeId ds)" for fr now ds
    unfolding recordInventory_def Let_def withOrg_def
    by (auto intro!: preserves_transaction preserves_bind preserves_for on_devices_pairing split: prod.splits)
  moreover have "preserves t_pairing (markNodeOnline now orgId nodeId h)" for now h
    unfolding markNodeOnline_def withOrg_def
    by (intro preserves_transaction preserves_bind frame_check preserves_return on_nodes_pairing)
  moreover have "preserves t_pairing (recordSamples now orgId nodeId xs)" for now xs
    unfolding recordSamples_def withOrg_def
    by (intro preserves_transaction preserves_bind preserves_for frame_check preserves_return preserves_lift
        on_devices_pairing on_nodes_pairing)
  ultimately show ?thesis by (simp add: handle_message_def split: agent_message.split)
qed

lemma cutoff_preserves [simp]: "preserves v (cutoff now ms)"
  by (simp add: cutoff_def split: option.split)

lemma sweep_grow: "keeps (\<lambda>t. nodes_grow s t) (offline_pass owner i now)" "keeps (\<lambda>t. nodes_grow s t) (degraded_pass owner i now)"
  unfolding offline_pass_def degraded_pass_def by (intro keeps_bind grow_update cutoff_keeps; simp)+

lemma sweep_pairing: "preserves t_pairing (offline_pass owner i now)" "preserves t_pairing (degraded_pass owner i now)"
  unfolding offline_pass_def degraded_pass_def by (intro preserves_bind on_nodes_pairing cutoff_preserves)+

lemma mint_effect:
  assumes "mintPairingCode hmac pepper ttl ri fresh created now orgId userId nodeName s = (x, s')"
  shows "t_nodes s' = t_nodes s" and "set (t_pairing s) \<subseteq> set (t_pairing s')"
proof -
  have "t_nodes s' = t_nodes s \<and> set (t_pairing s) \<subseteq> set (t_pairing s')"
  proof (cases x)
    case (Inr v)
    obtain code e where "v = (code, e)" by (cases v)
    then show ?thesis using mint_result(4) [of hmac pepper ttl ri fresh created now orgId userId nodeName s code e s'] assms Inr by auto
  next
    case (Inl e)
    have "s' = s"
      using assms Inl by (auto simp: mintPairingCode_def withOrg_def Let_def transaction_throw elim!: op_bind_cases split: option.splits)
    then show ?thesis by simp
  qed
  then show "t_nodes s' = t_nodes s" and "set (t_pairing s) \<subseteq> set (t_pairing s')" by simp_all
qed

section \<open>The steps of an enrollment keep the invariant\<close>

lemma claim_effect:
  assumes "enroll_step hmac pepper clock j KeyChecked s = (ph', s')"
  obtains (missed) "ph' = Missed" "s' = s"
    | (claimed) q where "q \<in> set (t_pairing s)" "p_usedAt q = None"
        "p_codeHash q = hashCode hmac pepper (ei_pairingCode (j_input j))"
        "ph' = Claimed (q\<lparr>p_usedAt := Some clock\<rparr>)"
        "s' = s\<lparr>t_pairing := map (\<lambda>r. if p_codeHash r = hashCode hmac pepper (ei_pairingCode (j_input j)) \<and> p_usedAt r = None
            then r\<lparr>p_usedAt := Some clock\<rparr> else r) (t_pairing s)\<rparr>"
proof (cases "filter (\<lambda>r. p_codeHash r = hashCode hmac pepper (ei_pairingCode (j_input j)) \<and> p_usedAt r = None) (t_pairing s)")
  case Nil
  then show ?thesis
    using assms claim_nothing [OF Nil] missed by (simp add: enroll_step_def owner_update)
next
  case (Cons q qs)
  then have "q \<in> set (filter (\<lambda>r. p_codeHash r = hashCode hmac pepper (ei_pairingCode (j_input j)) \<and> p_usedAt r = None) (t_pairing s))"
    by simp
  then have "q \<in> set (t_pairing s)" "p_usedAt q = None" "p_codeHash q = hashCode hmac pepper (ei_pairingCode (j_input j))"
    by simp_all
  then show ?thesis
    using assms Cons by (intro claimed [of q]) (auto simp: enroll_step_def owner_update)
qed

lemma release_effect:
  assumes "enroll_step hmac pepper clock j (Expired row) s = (ph', s')"
  shows "holder ph' = None" and "joined s' input ph'" and "ph' \<notin> {KeyChecked, Missed}"
    and "s' = s\<lparr>t_pairing := map (\<lambda>r. if p_id r = p_id row then r\<lparr>p_usedAt := None\<rparr> else r) (t_pairing s)\<rparr>"
  using assms by (auto simp: enroll_step_def owner_update joined_def)

lemma insert_effect:
  assumes "enroll_step hmac pepper clock j (Redeemed row) s = (ph', s')"
    and "length (ei_publicKey (j_input j)) = 32" and "wf_db s"
  shows "wf_db s'" and "nodes_grow s s'" and "t_pairing s' = t_pairing s"
    and "holder ph' = Some row" and "joined s' (j_input j) ph'"
proof -
  let ?n = "new_node (j_fresh j) (j_created j) (p_orgId row) (p_nodeName row) (j_input j)"
  let ?op = "withOrg (p_orgId row) (\<lambda>tx. op_bind (pg_check (node_columns ?n)) (\<lambda>_. insert_node tx ?n))"
  obtain x t where st: "?op s = (x, t)" by (cases "?op s")
  have eq: "s' = t" "ph' = (case x of Inl e \<Rightarrow> Spent row (if isPublicKeyUniqueViolation e then EnrollmentError ALREADY_ENROLLED else e)
      | Inr row' \<Rightarrow> Inserted row (n_id row'))"
    using assms(1) st by (auto simp: enroll_step_def Let_def split: sum.splits)
  have k: "keeps wf_db ?op"
    using new_node_ok [OF assms(2) j_input_host] by (intro wf_withOrg keeps_check_bind wf_insert_node)
  show "wf_db s'" unfolding eq(1) by (rule keepsD [OF k assms(3) st])
  have "t = s \<and> (\<exists>e. x = Inl e) \<or> t = s\<lparr>t_nodes := t_nodes s @ [?n]\<rparr> \<and> x = Inr ?n"
    using st by (cases x)
      (auto simp: withOrg_def transaction_throw transaction_success insert_node_def bind_check split: sum.splits if_splits)
  moreover have "n_id ?n = j_fresh j" "n_orgId ?n = p_orgId row" "n_publicKey ?n = ei_publicKey (j_input j)"
    by (simp_all add: new_node_def Let_def)
  ultimately show "nodes_grow s s'" "t_pairing s' = t_pairing s" "holder ph' = Some row" "joined s' (j_input j) ph'"
    using eq by (auto simp: nodes_grow_def joined_def)
qed

lemma quiet_effect:
  assumes "enroll_step hmac pepper clock j ph s = (ph', s')" and "ph \<noteq> KeyChecked" and "holder ph = None \<or> (\<forall>r. ph \<noteq> Expired r \<and> ph \<noteq> Redeemed r)"
  shows "s' = s" and "holder ph' = holder ph" and "joined s input ph \<Longrightarrow> joined s' input ph'"
    and "ph' = KeyChecked \<Longrightarrow> length (ei_publicKey (j_input j)) = 32" and "ph' \<noteq> Missed"
  using assms by (cases ph; auto simp: enroll_step_def joined_def Let_def split: if_splits)+

lemma release_other:
  assumes "held s r" and "p_id r \<noteq> p_id row"
  shows "held (s\<lparr>t_pairing := map (\<lambda>q. if p_id q = p_id row then q\<lparr>p_usedAt := None\<rparr> else q) (t_pairing s)\<rparr>) r"
proof -
  obtain q where q: "q \<in> set (t_pairing s)" "p_id q = p_id r" "p_codeHash q = p_codeHash r" "p_usedAt q \<noteq> None"
    using assms(1) by (auto simp: held_def)
  then have "(if p_id q = p_id row then q\<lparr>p_usedAt := None\<rparr> else q) = q" using assms(2) by simp
  then have "q \<in> set (map (\<lambda>q. if p_id q = p_id row then q\<lparr>p_usedAt := None\<rparr> else q) (t_pairing s))"
    unfolding set_map by (intro image_eqI [OF _ q(1)]) (rule sym)
  then show ?thesis using q by (auto simp: held_def)
qed

lemma wf_statement:
  "wf_db s \<Longrightarrow> (\<And>r. p_id (f r) = p_id r \<and> p_orgId (f r) = p_orgId r \<and> p_codeHash (f r) = p_codeHash r) \<Longrightarrow>
     wf_db (s\<lparr>t_pairing := map (\<lambda>r. if P r then f r else r) (t_pairing s)\<rparr>)"
  using keepsD [OF wf_update_pairing [of f OwnerConn P] _ owner_update] by blast

lemma sys_inv_phase:
  assumes inv: "sys_inv u y" and wf: "wf_db s'" and grow: "nodes_grow (y_db y) s'"
    and mine: "proc_ok u s' (su_jobs u p) ph"
    and others: "\<And>q r. q \<noteq> p \<Longrightarrow> holder (y_phase y q) = Some r \<Longrightarrow> held s' r"
    and sole: "\<And>q r r'. q \<noteq> p \<Longrightarrow> holder (y_phase y q) = Some r \<Longrightarrow> holder ph = Some r' \<Longrightarrow> p_id r \<noteq> p_id r'"
  shows "sys_inv u (y\<lparr>y_db := s', y_phase := (y_phase y)(p := ph)\<rparr>)"
proof -
  have old: "proc_ok u (y_db y) (su_jobs u q) (y_phase y q)" for q using inv by (simp add: sys_inv_def)
  have procs: "proc_ok u s' (su_jobs u q) (((y_phase y)(p := ph)) q)" for q
    using old [of q] others [of q] joined_grow [OF grow] mine unfolding proc_ok_def by (cases "q = p") auto
  have conns: "\<forall>(nodeId, orgId) \<in> set (y_conns y). has_node orgId (toLowerCase nodeId) s'"
    using inv has_node_grow [OF grow] by (auto simp: sys_inv_def)
  have uniq: "a = b" if "holder (((y_phase y)(p := ph)) a) = Some r" "holder (((y_phase y)(p := ph)) b) = Some r'"
    "p_id r = p_id r'" for a b r r'
  proof (cases "a = p \<or> b = p")
    case True
    then show ?thesis using that sole [of a r r'] sole [of b r' r] by (auto split: if_splits)
  next
    case False
    then show ?thesis using that inv by (simp add: sys_inv_def)
  qed
  have fields: "y_db (y\<lparr>y_db := s', y_phase := (y_phase y)(p := ph)\<rparr>) = s'"
    "y_phase (y\<lparr>y_db := s', y_phase := (y_phase y)(p := ph)\<rparr>) = (y_phase y)(p := ph)"
    "y_conns (y\<lparr>y_db := s', y_phase := (y_phase y)(p := ph)\<rparr>) = y_conns y" by simp_all
  show ?thesis
    unfolding sys_inv_def fields using wf procs uniq conns by blast
qed

lemma sys_invD:
  assumes "sys_inv u y"
  shows "wf_db (y_db y)" and "proc_ok u (y_db y) (su_jobs u q) (y_phase y q)"
    and "holder (y_phase y a) = Some r \<Longrightarrow> holder (y_phase y b) = Some r' \<Longrightarrow> p_id r = p_id r' \<Longrightarrow> a = b"
    and "holder (y_phase y q) = Some r \<Longrightarrow> held (y_db y) r"
  using assms by (auto simp: sys_inv_def proc_ok_def)

lemma sys_inv_quiet:
  assumes inv: "sys_inv u y"
    and st: "enroll_step (su_hmac u) (su_pepper u) clock (su_jobs u p) (y_phase y p) (y_db y) = (ph', s')"
    and quiet: "y_phase y p \<noteq> KeyChecked" "\<forall>r. y_phase y p \<noteq> Expired r \<and> y_phase y p \<noteq> Redeemed r"
  shows "sys_inv u (y\<lparr>y_db := s', y_phase := (y_phase y)(p := ph')\<rparr>)"
proof -
  note D = sys_invD [OF inv] and e = quiet_effect [OF st quiet(1) disjI2 [OF quiet(2)]]
  have "proc_ok u s' (su_jobs u p) ph'"
    using D(2) [of p] e(1,2,4,5) e(3) [of "j_input (su_jobs u p)"] by (auto simp: proc_ok_def)
  moreover have "p_id r \<noteq> p_id r'" if "q \<noteq> p" "holder (y_phase y q) = Some r" "holder ph' = Some r'" for q r r'
    using that D(3) [of q r p r'] e(2) by auto
  ultimately show ?thesis using D(1,4) by (intro sys_inv_phase [OF inv]) (auto simp: e(1))
qed

lemma sys_inv_release:
  assumes inv: "sys_inv u y" and row: "y_phase y p = Expired row"
    and st: "enroll_step (su_hmac u) (su_pepper u) clock (su_jobs u p) (Expired row) (y_db y) = (ph', s')"
  shows "sys_inv u (y\<lparr>y_db := s', y_phase := (y_phase y)(p := ph')\<rparr>)"
proof -
  note D = sys_invD [OF inv] and e = release_effect [OF st]
  have "wf_db s'" unfolding e(4) by (rule wf_statement [OF D(1)]) simp
  moreover have "nodes_grow (y_db y) s'" by (simp add: e(4) nodes_grow_def)
  moreover have "proc_ok u s' (su_jobs u p) ph'" using e(1,3) e(2) by (simp add: proc_ok_def)
  moreover have "held s' r" if "q \<noteq> p" "holder (y_phase y q) = Some r" for q r
    unfolding e(4) using that D(3) [of q r p row] row D(4) by (intro release_other) auto
  ultimately show ?thesis using e(1) by (intro sys_inv_phase [OF inv]) auto
qed

lemma sys_inv_insert:
  assumes inv: "sys_inv u y" and row: "y_phase y p = Redeemed row"
    and st: "enroll_step (su_hmac u) (su_pepper u) clock (su_jobs u p) (Redeemed row) (y_db y) = (ph', s')"
  shows "sys_inv u (y\<lparr>y_db := s', y_phase := (y_phase y)(p := ph')\<rparr>)"
proof -
  note D = sys_invD [OF inv]
  have len: "length (ei_publicKey (j_input (su_jobs u p))) = 32" using D(2) [of p] row by (simp add: proc_ok_def)
  note e = insert_effect [OF st len D(1)]
  have h: "held s' r" if "held (y_db y) r" for r using that e(3) by (simp add: held_def)
  have "proc_ok u s' (su_jobs u p) ph'" using D(2) [of p] row e(4,5) h len by (auto simp: proc_ok_def)
  moreover have "p_id r \<noteq> p_id r'" if "q \<noteq> p" "holder (y_phase y q) = Some r" "holder ph' = Some r'" for q r r'
    using that D(3) [of q r p r'] e(4) row by auto
  ultimately show ?thesis using e(1,2) h D(4) by (intro sys_inv_phase [OF inv]) auto
qed

text \<open>The claiming update keeps every code that is already used, and the row it claims is not one.\<close>

lemma claim_tables:
  fixes h :: string and clock :: millis
  defines "f \<equiv> \<lambda>r. if p_codeHash r = h \<and> p_usedAt r = None then r\<lparr>p_usedAt := Some clock\<rparr> else r"
  assumes q: "q \<in> set (t_pairing s)" "p_usedAt q = None" "p_codeHash q = h"
    and s': "s' = s\<lparr>t_pairing := map f (t_pairing s)\<rparr>"
  shows "codes_stay s s'" and "held s' (q\<lparr>p_usedAt := Some clock\<rparr>)" and "nodes_grow s s'"
proof -
  have t: "t_pairing s' = map f (t_pairing s)" "t_nodes s' = t_nodes s" by (simp_all add: s')
  show "codes_stay s s'"
  proof (unfold codes_stay_def, rule subsetI)
    fix r assume "r \<in> {q \<in> set (t_pairing s). p_usedAt q \<noteq> None}"
    then have r: "r \<in> set (t_pairing s)" "r = f r" by (auto simp: f_def)
    show "r \<in> set (t_pairing s')" unfolding t set_map by (rule image_eqI [where x = r]) (fact r)+
  qed
  have "f q \<in> set (t_pairing s')" unfolding t set_map using q(1) by (rule imageI)
  then have "q\<lparr>p_usedAt := Some clock\<rparr> \<in> set (t_pairing s')" using q(2,3) by (simp add: f_def)
  then show "held s' (q\<lparr>p_usedAt := Some clock\<rparr>)" unfolding held_def by (rule rev_bexI) simp
  show "nodes_grow s s'" by (simp add: t nodes_grow_def)
qed

lemma sys_inv_claim:
  assumes inv: "sys_inv u y" and row: "y_phase y p = KeyChecked"
    and st: "enroll_step (su_hmac u) (su_pepper u) clock (su_jobs u p) KeyChecked (y_db y) = (ph', s')"
  shows "sys_inv u (y\<lparr>y_db := s', y_phase := (y_phase y)(p := ph')\<rparr>)"
  using st
proof (cases rule: claim_effect)
  case missed
  then have "proc_ok u s' (su_jobs u p) ph'" using sys_invD(2) [OF inv, of p] row by (simp add: proc_ok_def joined_def)
  then show ?thesis using sys_invD [OF inv] missed by (intro sys_inv_phase [OF inv]) auto
next
  case (claimed q)
  note D = sys_invD [OF inv] and e = claim_tables [OF claimed(1,2,3,5)]
  have mine: "proc_ok u s' (su_jobs u p) ph'"
    using e(2) claimed(3,4) D(2) [of p] row by (simp add: proc_ok_def joined_def)
  have wf': "wf_db s'" unfolding claimed(5) by (rule wf_statement [OF D(1)]) simp
  show ?thesis
  proof (rule sys_inv_phase [OF inv wf' e(3) mine])
    show "held s' r" if "q \<noteq> p" "holder (y_phase y q) = Some r" for q r
      using held_stay [OF e(1) D(4)] that by blast
    show "p_id r \<noteq> p_id r'" if o: "a \<noteq> p" "holder (y_phase y a) = Some r" "holder ph' = Some r'" for a r r'
    proof
      assume "p_id r = p_id r'"
      then have "p_id r = p_id q" using o(3) claimed(4) by auto
      moreover obtain q' where "q' \<in> set (t_pairing (y_db y))" "p_id q' = p_id r" "p_usedAt q' \<noteq> None"
        using D(4) [OF o(2)] by (auto simp: held_def)
      ultimately show False
        using distinct_map_inj [OF wf_dbD(5) [OF D(1)], of q' q] claimed(1,2) by simp
    qed
  qed
qed

lemma sys_inv_enroll:
  assumes "sys_inv u y"
    and "enroll_step (su_hmac u) (su_pepper u) clock (su_jobs u p) (y_phase y p) (y_db y) = (ph', s')"
  shows "sys_inv u (y\<lparr>y_db := s', y_phase := (y_phase y)(p := ph')\<rparr>)"
proof -
  consider "y_phase y p = KeyChecked" | row where "y_phase y p = Expired row" | row where "y_phase y p = Redeemed row"
    | "y_phase y p \<noteq> KeyChecked" "\<forall>r. y_phase y p \<noteq> Expired r \<and> y_phase y p \<noteq> Redeemed r"
    by (cases "y_phase y p") auto
  then show ?thesis
    using assms by cases (auto intro: sys_inv_claim sys_inv_release sys_inv_insert sys_inv_quiet)
qed

inductive_cases sys_stepE: "sys_step u y y'"

lemma sys_inv_step: "sys_inv u y \<Longrightarrow> sys_step u y y' \<Longrightarrow> sys_inv u y'"
proof (erule sys_stepE)
  fix clock p ph s'
  assume "sys_inv u y" "y' = y\<lparr>y_db := s', y_phase := (y_phase y)(p := ph)\<rparr>"
    "enroll_step (su_hmac u) (su_pepper u) clock (su_jobs u p) (y_phase y p) (y_db y) = (ph, s')"
  then show "sys_inv u y'" using sys_inv_enroll by blast
next
  fix ttl ri fresh created now orgId userId nodeName x s'
  assume inv: "sys_inv u y" and y': "y' = y\<lparr>y_db := s'\<rparr>"
    and st: "mintPairingCode (su_hmac u) (su_pepper u) ttl ri fresh created now orgId userId nodeName (y_db y) = (x, s')"
  have "wf_db s'" using keepsD [OF wf_mint _ st] inv by (simp add: sys_inv_def)
  then show "sys_inv u y'"
    unfolding y' using mint_effect [OF st] by (intro sys_inv_env [OF inv]) (auto simp: nodes_grow_def codes_stay_def)
next
  fix checked stored header r c r'
  assume inv: "sys_inv u y" and y': "y' = y\<lparr>y_conns := c # y_conns y\<rparr>"
    and st: "authenticateNode (su_createPublicKey u) (su_verify u) (su_base64url u) (su_redis_set u) OwnerConn
      (su_skew u) checked stored (y_db y) header r = (Inr c, r')"
  obtain nodeId orgId where c: "c = (nodeId, orgId)" by (cases c)
  have "has_node orgId (toLowerCase nodeId) (y_db y)"
    using st unfolding c by (rule authenticate_success) (auto simp: has_node_def)
  then show "sys_inv u y'" using inv by (simp add: y' c sys_inv_def)
next
  fix nodeId orgId m x s'
  assume inv: "sys_inv u y" and y': "y' = y\<lparr>y_db := s'\<rparr>" and c: "(nodeId, orgId) \<in> set (y_conns y)"
    and st: "handle_message orgId nodeId m (y_db y) = (x, s')"
  have "wf_db (y_db y) \<and> has_node orgId (toLowerCase nodeId) (y_db y)" using inv c by (auto simp: sys_inv_def)
  then have "wf_db s'" using keepsD [OF wf_message _ st] by blast
  moreover have "nodes_grow (y_db y) s'" using keepsD [OF message_grow _ st, of "y_db y"] by simp
  moreover have "t_pairing s' = t_pairing (y_db y)" using preservesD [OF message_pairing st] .
  ultimately show "sys_inv u y'" unfolding y' by (intro sys_inv_env [OF inv]) (auto simp: codes_stay_def)
next
  fix sampleInterval now x s'
  assume inv: "sys_inv u y" and y': "y' = y\<lparr>y_db := s'\<rparr>"
    and st: "offline_pass OwnerConn sampleInterval now (y_db y) = (x, s') \<or> degraded_pass OwnerConn sampleInterval now (y_db y) = (x, s')"
  have wf: "wf_db (y_db y)" using inv by (simp add: sys_inv_def)
  have "wf_db s'" using st by (rule disjE) (erule keepsD [OF wf_passes(1) wf] keepsD [OF wf_passes(2) wf])+
  moreover have "nodes_grow (y_db y) s'"
    using st by (rule disjE) (erule keepsD [OF sweep_grow(1) nodes_grow_refl] keepsD [OF sweep_grow(2) nodes_grow_refl])+
  moreover have "t_pairing s' = t_pairing (y_db y)"
    using st by (rule disjE) (erule preservesD [OF sweep_pairing(1)] preservesD [OF sweep_pairing(2)])+
  ultimately show "sys_inv u y'" unfolding y' by (intro sys_inv_env [OF inv]) (auto simp: codes_stay_def)
qed

interpretation control_plane: invariant_system sys_init "sys_step u" "sys_inv u" for u
proof unfold_locales
  show "sys_init y \<Longrightarrow> sys_inv u y" for y
    by (simp add: sys_init_def sys_inv_def proc_ok_def joined_def)
qed (rule sys_inv_step)

text \<open>(C6) Integrity under concurrency: whatever enrollments, minted codes, connections, messages and
  sweeps interleave, statement by statement, every database that can be reached is well-formed:
  ids, public keys, device slots and code hashes are unique, every device belongs to an existing
  node and carries that node's organization, and every stored value is in its range.\<close>

theorem concurrent_integrity:
  assumes "sys_init y" and "(sys_step u)\<^sup>*\<^sup>* y y'"
  shows "wf_db (y_db y') \<and> (\<forall>(nodeId, orgId) \<in> set (y_conns y'). has_node orgId (toLowerCase nodeId) (y_db y'))"
  using control_plane.reachable_inv [OF assms(2,1)] by (simp add: sys_inv_def)

text \<open>(C4) At most one winner per code: of all enrollments that race for one code, however they spell
  it and however their statements interleave with each other and with the rest of the system, at
  most one succeeds; and one that succeeds has a node in the database, under its own key, in the
  organization of the code's row.\<close>

theorem concurrent_single_use:
  assumes "sys_init y" and "(sys_step u)\<^sup>*\<^sup>* y y'" and "y_phase y' p = Done r resp"
  shows "(y_phase y' q = Done r' resp' \<and>
        normalize (ei_pairingCode (j_input (su_jobs u q))) = normalize (ei_pairingCode (j_input (su_jobs u p))) \<longrightarrow> q = p)
     \<and> (\<exists>n \<in> set (t_nodes (y_db y')). n_id n = ers_nodeId resp \<and> n_orgId n = ers_orgId resp
          \<and> n_orgId n = p_orgId r \<and> n_publicKey n = ei_publicKey (j_input (su_jobs u p)))"
proof -
  have inv: "sys_inv u y'" using control_plane.reachable_inv [OF assms(2,1)] .
  have ok: "proc_ok u (y_db y') (su_jobs u a) (y_phase y' a)" for a using inv by (simp add: sys_inv_def)
  have "q = p" if q: "y_phase y' q = Done r' resp'"
    "normalize (ei_pairingCode (j_input (su_jobs u q))) = normalize (ei_pairingCode (j_input (su_jobs u p)))"
  proof -
    have h: "p_codeHash r = p_codeHash r'" "held (y_db y') r" "held (y_db y') r'"
      using ok [of p] ok [of q] assms(3) q by (simp_all add: proc_ok_def hashCode_def)
    obtain a b where "a \<in> set (t_pairing (y_db y'))" "p_id a = p_id r" "p_codeHash a = p_codeHash r"
      "b \<in> set (t_pairing (y_db y'))" "p_id b = p_id r'" "p_codeHash b = p_codeHash r'"
      using h(2,3) by (auto simp: held_def)
    then have "p_id r = p_id r'"
      using wf_pairing_unique [of "y_db y'" a b] inv h(1) by (simp add: sys_inv_def)
    then show ?thesis using inv assms(3) q(1) unfolding sys_inv_def by (metis holder.simps(5))
  qed
  moreover have "\<exists>n \<in> set (t_nodes (y_db y')). n_id n = ers_nodeId resp \<and> n_orgId n = ers_orgId resp
          \<and> n_orgId n = p_orgId r \<and> n_publicKey n = ei_publicKey (j_input (su_jobs u p))"
    using ok [of p] assms(3) by (auto simp: proc_ok_def joined_def list_ex_iff)
  ultimately show ?thesis by blast
qed

section \<open>Two machines racing for one code\<close>

definition race_job :: "8 word \<Rightarrow> uuid \<Rightarrow> string \<Rightarrow> job" where
  "race_job k fresh code = \<lparr>j_request = \<lparr>er_pairingCode = code, er_publicKey = replicate 32 k, er_nodeName = [], er_host = None\<rparr>,
     j_fresh = fresh, j_created = 2000\<rparr>"

definition race :: "(bytes, px_store) deployment" where
  "race = \<lparr>su_hmac = demo_hmac, su_pepper = [],
     su_jobs = (\<lambda>p. if p = 0 then race_job 7 demo_id ''abcd-efgh'' else race_job 8 ''n2'' ''ABCD EFGH''),
     su_createPublicKey = Some, su_verify = sample_verify, su_base64url = sample_base64, su_redis_set = px_set,
     su_skew = 60000\<rparr>"

definition race_start :: sys where
  "race_start = \<lparr>y_db = demo_db, y_phase = (\<lambda>_. Start), y_conns = []\<rparr>"

lemma race_init: "sys_init race_start"
  by (simp add: sys_init_def race_start_def demo_wf)

lemma race_input: "j_input (su_jobs race 0) = demo_input"
  by (simp add: race_def race_job_def j_input_def enroll_input_of_def demo_input_def)

text \<open>The first process alone: the statements of the sample enrollment.\<close>

lemma alone_reachable:
  "run_alone (su_hmac u) (su_pepper u) claimed checked (su_jobs u p) k (y_phase y p) (y_db y) = (ph, s) \<Longrightarrow>
     (sys_step u)\<^sup>*\<^sup>* y (y\<lparr>y_db := s, y_phase := (y_phase y)(p := ph)\<rparr>)"
proof (induction k arbitrary: y)
  case 0
  then have "y\<lparr>y_db := s, y_phase := (y_phase y)(p := ph)\<rparr> = y" by (cases y) (auto simp: fun_upd_idem)
  then show ?case by (simp only: rtranclp.rtrancl_refl)
next
  case (Suc k)
  obtain ph1 s1 where 1: "enroll_step (su_hmac u) (su_pepper u) (if y_phase y p = KeyChecked then claimed else checked)
      (su_jobs u p) (y_phase y p) (y_db y) = (ph1, s1)"
    by (cases "enroll_step (su_hmac u) (su_pepper u) (if y_phase y p = KeyChecked then claimed else checked)
      (su_jobs u p) (y_phase y p) (y_db y)")
  let ?y = "y\<lparr>y_db := s1, y_phase := (y_phase y)(p := ph1)\<rparr>"
  have "sys_step u y ?y" using 1 by (rule sys_step.enrolling)
  moreover have "(sys_step u)\<^sup>*\<^sup>* ?y (?y\<lparr>y_db := s, y_phase := (y_phase ?y)(p := ph)\<rparr>)"
    using Suc.prems 1 by (intro Suc.IH) simp
  moreover have "?y\<lparr>y_db := s, y_phase := (y_phase ?y)(p := ph)\<rparr> = y\<lparr>y_db := s, y_phase := (y_phase y)(p := ph)\<rparr>" by simp
  ultimately show ?case by (metis converse_rtranclp_into_rtranclp)
qed

lemma race_done:
  "\<exists>r resp. (sys_step race)\<^sup>*\<^sup>* race_start (race_start\<lparr>y_db := demo_enrolled, y_phase := (\<lambda>_. Start)(0 := Done r resp)\<rparr>)"
proof -
  let ?j = "su_jobs race 0"
  obtain ph s where run: "run_alone demo_hmac [] 1000 1000 ?j 5 Start demo_db = (ph, s)"
    by (cases "run_alone demo_hmac [] 1000 1000 ?j 5 Start demo_db")
  have j: "j_fresh ?j = demo_id" "j_created ?j = 2000" by (simp_all add: race_def race_job_def)
  have "phase_result ph = Some (Inr \<lparr>ers_nodeId = demo_id, ers_orgId = ''org_a'', ers_orgName = ''Fleet''\<rparr>)" "s = demo_enrolled"
    using enroll_process_alone [of demo_hmac "[]" 1000 1000 ?j demo_db] run demo_enroll by (simp_all add: j race_input)
  then obtain r resp where "ph = Done r resp" by (cases ph) auto
  moreover have "(sys_step race)\<^sup>*\<^sup>* race_start (race_start\<lparr>y_db := s, y_phase := (y_phase race_start)(0 := ph)\<rparr>)"
    using run by (intro alone_reachable [where k = 5]) (simp add: race_start_def race_def cong: if_cong)
  ultimately show ?thesis using \<open>s = demo_enrolled\<close> by (auto simp: race_start_def)
qed

theorem concurrent_integrity_witness:
  "\<exists>y. (sys_step race)\<^sup>*\<^sup>* race_start y \<and> y_db y = demo_enrolled \<and> wf_db (y_db y)"
proof -
  obtain r resp where "(sys_step race)\<^sup>*\<^sup>* race_start (race_start\<lparr>y_db := demo_enrolled, y_phase := (\<lambda>_. Start)(0 := Done r resp)\<rparr>)"
    using race_done by blast
  from concurrent_integrity [OF race_init this] this show ?thesis by (intro exI) auto
qed

theorem concurrent_single_use_witness:
  "\<exists>y r resp. (sys_step race)\<^sup>*\<^sup>* race_start y \<and> y_phase y 0 = Done r resp
     \<and> (\<exists>n \<in> set (t_nodes (y_db y)). n_id n = ers_nodeId resp \<and> n_orgId n = p_orgId r)"
proof -
  obtain r resp where reach: "(sys_step race)\<^sup>*\<^sup>* race_start (race_start\<lparr>y_db := demo_enrolled, y_phase := (\<lambda>_. Start)(0 := Done r resp)\<rparr>)"
    using race_done by blast
  have "y_phase (race_start\<lparr>y_db := demo_enrolled, y_phase := (\<lambda>_. Start)(0 := Done r resp)\<rparr>) 0 = Done r resp" by simp
  from concurrent_single_use [OF race_init reach this] this reach show ?thesis by blast
qed

end
