(* ===== verification/Race.thy ===== *)
theory Race
  imports Concurrency
begin

text \<open>
  How races for codes end. \<open>Concurrency\<close> shows what holds in every state that interleaved enrollments
  (\<open>enrollNode\<close> and \<open>redeemPairingCode\<close>, statement by statement) can reach; here the runs themselves: a
  trace records which enrollment ran a statement. Every enrollment is answered after five of its
  statements, and when all are, each code that was used up on the way is accounted for.
\<close>

section \<open>Traces\<close>

inductive sys_trace :: "('key, 'r) deployment \<Rightarrow> sys \<Rightarrow> nat list \<Rightarrow> sys \<Rightarrow> bool" for u y where
  begun: "sys_trace u y [] y"
| environment: "sys_trace u y ps y1 \<Longrightarrow> sys_step u y1 y2 \<Longrightarrow> y_phase y2 = y_phase y1 \<Longrightarrow> sys_trace u y ps y2"
| statement: "sys_trace u y ps y1 \<Longrightarrow>
    enroll_step (su_hmac u) (su_pepper u) clock (su_jobs u p) (y_phase y1 p) (y_db y1) = (ph, s') \<Longrightarrow>
    sys_trace u y (p # ps) (y1\<lparr>y_db := s', y_phase := (y_phase y1)(p := ph)\<rparr>)"

lemma trace_reaches: "sys_trace u y ps y' \<Longrightarrow> (sys_step u)\<^sup>*\<^sup>* y y'"
proof (induction rule: sys_trace.induct)
  case (environment ps y1 y2)
  then show ?case by simp
next
  case (statement ps y1 clock p ph s')
  show ?case by (rule rtranclp.rtrancl_into_rtrancl [OF statement.IH sys_step.enrolling [OF statement.hyps(2)]])
qed simp

text \<open>Every statement of an enrollment brings it closer to its answer.\<close>

lemma enroll_progress:
  "enroll_step hmac pepper clock j ph s = (ph', s') \<Longrightarrow>
     if steps_left ph = 0 then ph' = ph \<and> s' = s else steps_left ph' < steps_left ph"
  by (cases ph) (auto simp: enroll_step_def Let_def split: sum.splits prod.splits option.splits if_splits)

lemma trace_progress:
  assumes "sys_trace u y ps y'" and "y_phase y p = Start"
  shows "steps_left (y_phase y' p) \<le> 5 - count_list ps p" and "p \<notin> set ps \<Longrightarrow> y_phase y' p = Start"
proof -
  from assms have "steps_left (y_phase y' p) \<le> 5 - count_list ps p \<and> (p \<notin> set ps \<longrightarrow> y_phase y' p = Start)"
  proof (induction rule: sys_trace.induct)
    case (statement ps y1 clock q ph s')
    then show ?case using enroll_progress [OF statement.hyps(2)] by (cases "q = p") (auto split: if_splits)
  qed simp_all
  then show "steps_left (y_phase y' p) \<le> 5 - count_list ps p" and "p \<notin> set ps \<Longrightarrow> y_phase y' p = Start" by simp_all
qed

section \<open>No code is lost\<close>

text \<open>A used code was used from the start, or an enrollment has it.\<close>

definition used_in :: "db \<Rightarrow> uuid \<Rightarrow> bool" where
  "used_in s i \<longleftrightarrow> (\<exists>q \<in> set (t_pairing s). p_id q = i \<and> p_usedAt q \<noteq> None)"

definition accounted :: "sys \<Rightarrow> sys \<Rightarrow> bool" where
  "accounted y0 y \<longleftrightarrow> (\<forall>i. used_in (y_db y) i \<longrightarrow>
     used_in (y_db y0) i \<or> (\<exists>p r. holder (y_phase y p) = Some r \<and> p_id r = i))"

lemma accounted_env:
  "accounted y0 y \<Longrightarrow> (\<And>i. used_in (y_db y') i \<Longrightarrow> used_in (y_db y) i) \<Longrightarrow> y_phase y' = y_phase y \<Longrightarrow> accounted y0 y'"
  by (simp add: accounted_def)

lemma mint_used:
  assumes "mintPairingCode hmac pepper ttl ri fresh created now orgId userId nodeName s = (x, s')" and "used_in s' i"
  shows "used_in s i"
proof (cases x)
  case (Inr v)
  obtain code e where "v = (code, e)" by (cases v)
  then show ?thesis using mint_result(4) assms Inr by (fastforce simp: used_in_def)
next
  case (Inl e)
  have "s' = s"
    using assms(1) Inl by (auto simp: mintPairingCode_def withOrg_def Let_def transaction_throw elim!: op_bind_cases split: option.splits)
  then show ?thesis using assms(2) by simp
qed

lemma accounted_statement:
  assumes A: "accounted y0 y" and inv: "sys_inv u y"
    and st: "enroll_step (su_hmac u) (su_pepper u) clock (su_jobs u p) (y_phase y p) (y_db y) = (ph, s')"
  shows "accounted y0 (y\<lparr>y_db := s', y_phase := (y_phase y)(p := ph)\<rparr>)"
proof -
  let ?y = "y\<lparr>y_db := s', y_phase := (y_phase y)(p := ph)\<rparr>"
  have keep: "accounted y0 ?y"
    if mine: "\<And>r. holder (y_phase y p) = Some r \<Longrightarrow> used_in s' (p_id r) \<Longrightarrow> holder ph = Some r"
      and rows: "\<And>i. used_in s' i \<Longrightarrow> used_in (y_db y) i \<or> (\<exists>r. holder ph = Some r \<and> p_id r = i)"
    unfolding accounted_def
  proof (intro allI impI)
    fix i assume "used_in (y_db ?y) i"
    then have i: "used_in s' i" by simp
    consider "used_in (y_db y0) i" | r where "holder ph = Some r" "p_id r = i"
      | q r where "holder (y_phase y q) = Some r" "p_id r = i"
      using rows [OF i] A unfolding accounted_def by blast
    then show "used_in (y_db y0) i \<or> (\<exists>q r. holder (y_phase ?y q) = Some r \<and> p_id r = i)"
    proof cases
      case (3 q r)
      then have "holder (y_phase ?y q) = Some r" using mine [of r] i by (cases "q = p") auto
      then show ?thesis using 3(2) by blast
    qed auto
  qed
  consider "y_phase y p = KeyChecked" | row where "y_phase y p = Expired row" | row where "y_phase y p = Redeemed row"
    | "y_phase y p \<noteq> KeyChecked" "\<forall>r. y_phase y p \<noteq> Expired r \<and> y_phase y p \<noteq> Redeemed r"
    by (cases "y_phase y p") auto
  then show ?thesis
  proof cases
    case 1
    from st [unfolded 1] show ?thesis
    proof (cases rule: claim_effect)
      case (claimed q)
      have same: "p_id a = p_id q" if "a \<in> set (t_pairing (y_db y))" "p_codeHash a = p_codeHash q" for a
        using wf_pairing_unique [OF sys_invD(1) [OF inv] that(1) claimed(1) that(2)] by simp
      have "used_in (y_db y) i \<or> i = p_id q" if used: "used_in s' i" for i
      proof -
        from used obtain a where a: "a \<in> set (t_pairing (y_db y))"
          and b: "p_id a = i" "p_usedAt a \<noteq> None \<or> p_codeHash a = p_codeHash q"
          unfolding used_in_def claimed(5) claimed(3) [symmetric] by (auto split: if_splits)
        show ?thesis
        proof (cases "p_usedAt a")
          case None
          then show ?thesis using same [OF a] b by simp
        next
          case (Some x)
          then show ?thesis using a b(1) unfolding used_in_def by auto
        qed
      qed
      then show ?thesis using 1 claimed(4) by (intro keep) auto
    qed (use 1 in \<open>intro keep; simp\<close>)
  next
    case (2 row)
    note e = release_effect [OF st [unfolded 2]]
    show ?thesis using 2 by (intro keep) (auto simp: e(4) used_in_def split: if_splits)
  next
    case (3 row)
    have "length (ei_publicKey (j_input (su_jobs u p))) = 32" using sys_invD(2) [OF inv, of p] 3 by (simp add: proc_ok_def)
    note e = insert_effect [OF st [unfolded 3] this sys_invD(1) [OF inv]]
    show ?thesis using 3 e(3,4) by (intro keep) (simp_all add: used_in_def)
  next
    case 4
    note e = quiet_effect [OF st 4(1) disjI2 [OF 4(2)]]
    show ?thesis using e(1,2) by (intro keep) simp_all
  qed
qed

lemma step_used:
  assumes "sys_step u y y'" and "y_phase y' = y_phase y" and "sys_inv u y" and "accounted y0 y"
  shows "accounted y0 y'"
  using assms(1)
proof (cases rule: sys_step.cases)
  case (enrolling clock p ph s')
  then show ?thesis using accounted_statement [OF assms(4,3)] by blast
next
  case (minting ttl ri fresh created now orgId userId nodeName x s')
  then show ?thesis using mint_used by (intro accounted_env [OF assms(4)]) auto
next
  case (receiving nodeId orgId m x s')
  then show ?thesis using preservesD [OF message_pairing receiving(3)]
    by (intro accounted_env [OF assms(4)]) (auto simp: used_in_def)
next
  case (sweeping sampleInterval now x s')
  have "t_pairing s' = t_pairing (y_db y)"
    using sweeping(2) by (rule disjE) (erule preservesD [OF sweep_pairing(1)] preservesD [OF sweep_pairing(2)])+
  then show ?thesis using sweeping by (intro accounted_env [OF assms(4)]) (auto simp: used_in_def)
qed (intro accounted_env [OF assms(4)]; simp)

lemma trace_accounted:
  assumes "sys_trace u y ps y'" and "sys_init y"
  shows "accounted y y'"
  using assms
proof (induction rule: sys_trace.induct)
  case (environment ps y1 y2)
  then have "sys_inv u y1" using control_plane.reachable_inv [OF trace_reaches] by blast
  then show ?case using step_used environment by blast
next
  case (statement ps y1 clock p ph s')
  then have "sys_inv u y1" using control_plane.reachable_inv [OF trace_reaches] by blast
  then show ?case using accounted_statement statement by blast
qed (simp add: accounted_def)

text \<open>(C22) Every race settles. Whatever requests, messages and sweeps interleave, once each enrollment that has
  begun has run five statements, each has its answer; and no code is lost on the way: every code that is
  used then and was not at the beginning was taken by exactly one enrollment, which succeeded with it
  or whose node could not be stored. So an enrollment refused for its key, for an unknown or used code
  or for an expired one has left no code used, however the expired one was claimed and released.\<close>

theorem race_settles:
  assumes "sys_init y" and "sys_trace u y ps y'" and "\<And>p. p \<in> set ps \<Longrightarrow> 5 \<le> count_list ps p"
  shows "(\<forall>p. phase_result (y_phase y' p) \<noteq> None \<longleftrightarrow> p \<in> set ps)
     \<and> (\<forall>i. used_in (y_db y') i \<longrightarrow> used_in (y_db y) i
          \<or> (\<exists>!p. \<exists>r. p_id r = i \<and> ((\<exists>resp. y_phase y' p = Done r resp) \<or> (\<exists>e. y_phase y' p = Spent r e))))"
proof -
  have start: "y_phase y p = Start" for p using assms(1) by (simp add: sys_init_def)
  note prog = trace_progress [OF assms(2) start]
  have fin: "phase_result (y_phase y' p) \<noteq> None \<longleftrightarrow> p \<in> set ps" for p
    using prog [of p] assms(3) [of p] by (cases "p \<in> set ps") (auto simp: phase_result_final)
  have inv: "sys_inv u y'" using control_plane.reachable_inv [OF trace_reaches [OF assms(2)] assms(1)] .
  have last: "holder (y_phase y' p) = Some r \<longleftrightarrow> (\<exists>resp. y_phase y' p = Done r resp) \<or> (\<exists>e. y_phase y' p = Spent r e)" for p r
    using fin [of p] prog(2) [of p] by (cases "y_phase y' p") auto
  have "\<exists>!p. \<exists>r. p_id r = i \<and> holder (y_phase y' p) = Some r" if "used_in (y_db y') i" "\<not> used_in (y_db y) i" for i
    using trace_accounted [OF assms(2,1)] that sys_invD(3) [OF inv] unfolding accounted_def by metis
  then show ?thesis using fin unfolding last by blast
qed

section \<open>One machine enrolls\<close>

lemma alone_trace:
  "run_alone (su_hmac u) (su_pepper u) claimed checked (su_jobs u p) k (y_phase y p) (y_db y) = (ph, s) \<Longrightarrow>
     sys_trace u y0 ps y \<Longrightarrow> sys_trace u y0 (replicate k p @ ps) (y\<lparr>y_db := s, y_phase := (y_phase y)(p := ph)\<rparr>)"
proof (induction k arbitrary: y ps)
  case 0
  then have "y\<lparr>y_db := s, y_phase := (y_phase y)(p := ph)\<rparr> = y" by (cases y) (auto simp: fun_upd_idem)
  then show ?case using 0(2) by (simp only: replicate_0 append_Nil)
next
  case (Suc k)
  obtain ph1 s1 where 1: "enroll_step (su_hmac u) (su_pepper u) (if y_phase y p = KeyChecked then claimed else checked)
      (su_jobs u p) (y_phase y p) (y_db y) = (ph1, s1)"
    by (cases "enroll_step (su_hmac u) (su_pepper u) (if y_phase y p = KeyChecked then claimed else checked)
      (su_jobs u p) (y_phase y p) (y_db y)")
  let ?y = "y\<lparr>y_db := s1, y_phase := (y_phase y)(p := ph1)\<rparr>"
  have "sys_trace u y0 (replicate k p @ p # ps) (?y\<lparr>y_db := s, y_phase := (y_phase ?y)(p := ph)\<rparr>)"
    using Suc.prems(1) 1 by (intro Suc.IH sys_trace.statement [OF Suc.prems(2) 1]) simp
  moreover have "?y\<lparr>y_db := s, y_phase := (y_phase ?y)(p := ph)\<rparr> = y\<lparr>y_db := s, y_phase := (y_phase y)(p := ph)\<rparr>" by simp
  ultimately show ?case by (simp only: replicate_Suc append_Cons replicate_app_Cons_same)
qed

theorem race_settles_witness:
  "\<exists>y. sys_trace race race_start (replicate 5 0) y \<and> phase_result (y_phase y 0) \<noteq> None
     \<and> used_in (y_db y) (p_id demo_code) \<and> \<not> used_in (y_db race_start) (p_id demo_code)
     \<and> (\<exists>!p. \<exists>r. p_id r = p_id demo_code \<and> ((\<exists>resp. y_phase y p = Done r resp) \<or> (\<exists>e. y_phase y p = Spent r e)))"
proof -
  let ?j = "su_jobs race 0"
  obtain ph s where run: "run_alone demo_hmac [] 1000 1000 ?j 5 Start demo_db = (ph, s)"
    by (cases "run_alone demo_hmac [] 1000 1000 ?j 5 Start demo_db")
  have j: "j_fresh ?j = demo_id" "j_created ?j = 2000" by (simp_all add: race_def race_job_def)
  have s: "s = demo_enrolled"
    using enroll_process_alone [of demo_hmac "[]" 1000 1000 ?j demo_db] run demo_enroll by (simp add: j race_input)
  define y where "y = race_start\<lparr>y_db := s, y_phase := (y_phase race_start)(0 := ph)\<rparr>"
  have db: "y_db y = demo_enrolled" by (simp add: y_def s)
  have tr: "sys_trace race race_start (replicate 5 0) y"
    using alone_trace [of race 1000 1000 0 5 race_start ph s race_start "[]"] run sys_trace.begun [of race race_start]
    by (simp add: y_def race_start_def race_def cong: if_cong)
  have "5 \<le> count_list (replicate 5 (0 :: nat)) p" if "p \<in> set (replicate 5 0)" for p
    using that by (simp add: eval_nat_numeral)
  note settled = race_settles [OF race_init tr this]
  have used: "used_in (y_db y) (p_id demo_code)" "\<not> used_in (y_db race_start) (p_id demo_code)"
    by (simp_all add: db used_in_def demo_enrolled_def race_start_def demo_db_def demo_code_def)
  have "phase_result (y_phase y 0) \<noteq> None" using settled by simp
  moreover have "\<exists>!p. \<exists>r. p_id r = p_id demo_code \<and> ((\<exists>resp. y_phase y p = Done r resp) \<or> (\<exists>e. y_phase y p = Spent r e))"
    using settled used by blast
  ultimately show ?thesis using tr used by blast
qed

end
