(* ===== verification/History.thy ===== *)
theory History
  imports Node_Service Sweeper
begin

text \<open>
  The status of a node over time: how \<open>domain/nodes.ts\<close>, which marks a node online when it is heard of,
  and \<open>jobs/offline-sweeper.ts\<close>, which marks silent nodes, play together. A history is any sequence of
  messages handled for any nodes, whatever becomes of them, and of sweeps; the status a node ends
  with is a function of when it was last heard of and of the sweeps since.
\<close>

section \<open>Histories\<close>

datatype fleet_event = Message string string received | SweepAt millis

definition fleet_event_op :: "int \<Rightarrow> fleet_event \<Rightarrow> db \<Rightarrow> db" where
  "fleet_event_op interval ev s =
     (case ev of
        Message orgId nodeId m \<Rightarrow> snd (handle_message orgId nodeId m s)
      | SweepAt now \<Rightarrow> snd (sweepOfflineNodes OwnerConn (of_int interval) now s))"

fun fleet_run :: "int \<Rightarrow> fleet_event list \<Rightarrow> db \<Rightarrow> db" where
  "fleet_run interval [] s = s"
| "fleet_run interval (ev # evs) s = fleet_run interval evs (fleet_event_op interval ev s)"

text \<open>What of an event concerns a node: it was heard of, or a sweep looked at it.\<close>

datatype sign = Heard millis | Swept millis

definition hears :: "string \<Rightarrow> string \<Rightarrow> received \<Rightarrow> db \<Rightarrow> bool" where
  "hears orgId nodeId m s \<longleftrightarrow>
     (case rc_payload m of Hello _ \<Rightarrow> True | Samples _ \<Rightarrow> True | _ \<Rightarrow> False)
     \<and> \<not> isl (fst (handle_message orgId nodeId m s))"

definition sign_of :: "fleet_event \<Rightarrow> node_row \<Rightarrow> db \<Rightarrow> sign list" where
  "sign_of ev n s =
     (case ev of
        Message orgId nodeId m \<Rightarrow>
          if hears orgId nodeId m s \<and> n_id n = toLowerCase nodeId \<and> n_orgId n = orgId then [Heard (rc_now m)] else []
      | SweepAt now \<Rightarrow> [Swept now])"

fun signs :: "int \<Rightarrow> fleet_event list \<Rightarrow> node_row \<Rightarrow> db \<Rightarrow> sign list" where
  "signs interval [] n s = []"
| "signs interval (ev # evs) n s = sign_of ev n s @ signs interval evs n (fleet_event_op interval ev s)"

text \<open>When it was last heard of, with the sweeps since; and the status that goes with them.\<close>

fun sweep_times :: "sign list \<Rightarrow> millis list" where
  "sweep_times [] = []"
| "sweep_times (Heard t # tr) = sweep_times tr"
| "sweep_times (Swept t # tr) = t # sweep_times tr"

fun last_heard :: "sign list \<Rightarrow> (millis \<times> millis list) option" where
  "last_heard [] = None"
| "last_heard (Swept t # tr) = last_heard tr"
| "last_heard (Heard t # tr) = (case last_heard tr of None \<Rightarrow> Some (t, sweep_times tr) | Some x \<Rightarrow> Some x)"

definition silent_status :: "int \<Rightarrow> millis \<Rightarrow> millis list \<Rightarrow> string" where
  "silent_status interval seen sweeps =
     (if list_ex (\<lambda>now. now - seen > 6 * interval) sweeps then ''offline''
      else if list_ex (\<lambda>now. now - seen > 3 * interval) sweeps then ''degraded'' else ''online'')"

section \<open>What a message does to the rows of nodes\<close>

definition obs :: "node_row \<Rightarrow> string \<times> millis option" where
  "obs n = (n_status n, n_lastSeenAt n)"

lemma hello_rows:
  assumes "markNodeOnline now orgId nodeId host s = (r, t)"
  shows "t_nodes t = (if isl r then t_nodes s else
     map (\<lambda>n. if n_orgId n = orgId \<and> n_id n = toLowerCase nodeId
              then (set_host host n)\<lparr>n_status := ''online'', n_lastSeenAt := Some now\<rparr> else n) (t_nodes s))"
  using assms
  by (auto simp: markNodeOnline_def withOrg_def transaction_def bind_check uuid_in_def on_table_def op_bind_def
      op_return_def org_isolation_def split: sum.splits prod.splits if_splits dest!: sql_update_rows)

lemma samples_loop: "preserves t_nodes (on_devices st)" for st :: "device_row list \<Rightarrow> pg_error + device_row list \<times> 'a"
  by (auto simp: preserves_def on_table_def split: sum.split)

lemma preserves_pg_check [simp, intro]: "preserves v (pg_check x)"
  by (cases x) (simp_all add: pg_check_def)

lemma samples_rows:
  assumes "recordSamples now orgId nodeId xs s = (r, t)"
  shows "t_nodes t = (if isl r then t_nodes s else
     map (\<lambda>n. if n_orgId n = orgId \<and> n_id n = toLowerCase nodeId
              then n\<lparr>n_lastSeenAt := Some now, n_status := ''online''\<rparr> else n) (t_nodes s))"
proof -
  let ?loop = "\<lambda>tx. op_for xs (\<lambda>x. op_bind (op_lift (sample_date x)) (\<lambda>sampled.
      op_bind (pg_check (uuid_in nodeId)) (\<lambda>nid. op_bind (pg_check (sample_checks x)) (\<lambda>_.
      op_bind (on_devices (sql_update tx d_orgId (\<lambda>r. d_nodeId r = nid \<and> d_localId r = s_localId x) (set_sample x sampled)))
        (\<lambda>_. op_return ())))))"
  have loop: "preserves t_nodes (?loop tx)" for tx
    by (intro preserves_for preserves_bind samples_loop preserves_lift preserves_pg_check preserves_return)
  show ?thesis
    using assms preservesD [OF loop]
    by (auto simp: recordSamples_def withOrg_def transaction_def bind_check uuid_in_def on_table_def org_isolation_def
        elim!: op_bind_cases split: sum.splits prod.splits if_splits dest!: sql_update_rows)
qed

lemma message_rows:
  "\<exists>g. t_nodes (snd (handle_message orgId nodeId m s)) = map g (t_nodes s)
     \<and> (\<forall>n. n_id (g n) = n_id n \<and> n_orgId (g n) = n_orgId n
          \<and> obs (g n) = (if hears orgId nodeId m s \<and> n_id n = toLowerCase nodeId \<and> n_orgId n = orgId
                       then (''online'', Some (rc_now m)) else obs n))"
proof -
  obtain r t where st: "handle_message orgId nodeId m s = (r, t)" by (cases "handle_message orgId nodeId m s")
  have same: "\<not> hears orgId nodeId m s \<Longrightarrow> t_nodes t = t_nodes s \<Longrightarrow> ?thesis"
    using st by (intro exI [of _ "\<lambda>n. n"]) simp
  let ?hit = "\<lambda>n. n_orgId n = orgId \<and> n_id n = toLowerCase nodeId"
  show ?thesis
  proof (cases "rc_payload m")
    case (Hello h)
    then have rows: "t_nodes t = (if isl r then t_nodes s else map (\<lambda>n. if ?hit n
        then (set_host ((hostColumns (hello_host h))\<lparr>hc_agentVersion := hello_agentVersion h\<rparr>) n)
          \<lparr>n_status := ''online'', n_lastSeenAt := Some (rc_now m)\<rparr> else n) (t_nodes s))"
      using hello_rows [of "rc_now m" orgId nodeId] st by (simp add: handle_message_def)
    show ?thesis
    proof (cases "isl r")
      case False
      then have "hears orgId nodeId m s" using st Hello by (simp add: hears_def)
      then show ?thesis unfolding st snd_conv rows using False
        by (intro exI [of _ "\<lambda>n. if ?hit n
          then (set_host ((hostColumns (hello_host h))\<lparr>hc_agentVersion := hello_agentVersion h\<rparr>) n)
            \<lparr>n_status := ''online'', n_lastSeenAt := Some (rc_now m)\<rparr> else n"]) (auto simp: obs_def)
    qed (rule same; use rows st in \<open>simp add: hears_def\<close>)
  next
    case (Samples b)
    then have rows: "t_nodes t = (if isl r then t_nodes s else map (\<lambda>n. if ?hit n
        then n\<lparr>n_lastSeenAt := Some (rc_now m), n_status := ''online''\<rparr> else n) (t_nodes s))"
      using samples_rows [of "rc_now m" orgId nodeId] st by (simp add: handle_message_def)
    show ?thesis
    proof (cases "isl r")
      case False
      then have "hears orgId nodeId m s" using st Samples by (simp add: hears_def)
      then show ?thesis unfolding st snd_conv rows using False
        by (intro exI [of _ "\<lambda>n. if ?hit n
          then n\<lparr>n_lastSeenAt := Some (rc_now m), n_status := ''online''\<rparr> else n"]) (auto simp: obs_def)
    qed (rule same; use rows st in \<open>simp add: hears_def\<close>)
  next
    case (Inventory ds)
    then have "t_nodes t = t_nodes s"
      using st preservesD [OF preserves_t_nodes_inventory] by (simp add: handle_message_def)
    then show ?thesis by (intro same) (simp_all add: hears_def Inventory)
  next
    case NoPayload
    then have "t_nodes t = t_nodes s" using st by (simp add: handle_message_def)
    then show ?thesis by (intro same) (simp_all add: hears_def NoPayload)
  qed
qed

section \<open>What a history does\<close>

fun sign_step :: "int \<Rightarrow> sign \<Rightarrow> string \<times> millis option \<Rightarrow> string \<times> millis option" where
  "sign_step interval (Heard t) x = (''online'', Some t)"
| "sign_step interval (Swept now) (st, seen) =
     ((case seen of
         None \<Rightarrow> st
       | Some t \<Rightarrow> if now - t > 6 * interval then ''offline''
                  else if now - t > 3 * interval \<and> st = ''online'' then ''degraded'' else st), seen)"

definition events_ok :: "fleet_event list \<Rightarrow> bool" where
  "events_ok evs \<longleftrightarrow> (\<forall>now. SweepAt now \<in> set evs \<longrightarrow> 0 \<le> now \<and> now \<le> 253402300799999)"

lemma event_rows:
  assumes "0 \<le> k" and "k \<le> 10 ^ 11" and "events_ok [ev]"
  shows "\<exists>g. t_nodes (fleet_event_op k ev s) = map g (t_nodes s)
     \<and> (\<forall>n. n_id (g n) = n_id n \<and> n_orgId (g n) = n_orgId n
          \<and> obs (g n) = fold (sign_step k) (sign_of ev n s) (obs n))"
proof (cases ev)
  case (Message orgId nodeId m)
  obtain g where g: "t_nodes (snd (handle_message orgId nodeId m s)) = map g (t_nodes s)"
    "\<And>n. n_id (g n) = n_id n \<and> n_orgId (g n) = n_orgId n
      \<and> obs (g n) = (if hears orgId nodeId m s \<and> n_id n = toLowerCase nodeId \<and> n_orgId n = orgId
                   then (''online'', Some (rc_now m)) else obs n)"
    using message_rows [of orgId nodeId m s] by blast
  have "t_nodes (fleet_event_op k ev s) = map g (t_nodes s)" using g(1) by (simp add: Message fleet_event_op_def)
  moreover have "obs (g n) = fold (sign_step k) (sign_of ev n s) (obs n)" for n
    using g(2) [of n] by (simp add: Message sign_of_def)
  ultimately show ?thesis using g(2) by (intro exI [of _ g]) simp
next
  case (SweepAt now)
  then have t: "t_nodes (fleet_event_op k ev s) = map (\<lambda>n. n\<lparr>n_status := swept_status k now n\<rparr>) (t_nodes s)"
    using sweep_result [OF assms(1,2), of now s] assms(3) by (simp add: fleet_event_op_def events_ok_def)
  have "obs (n\<lparr>n_status := swept_status k now n\<rparr>) = fold (sign_step k) (sign_of ev n s) (obs n)" for n
    by (simp add: SweepAt obs_def sign_of_def swept_status_def split: option.split)
  then show ?thesis
    using t by (intro exI [of _ "\<lambda>n. n\<lparr>n_status := swept_status k now n\<rparr>"]) simp
qed

lemma signs_cong: "n_id n' = n_id n \<Longrightarrow> n_orgId n' = n_orgId n \<Longrightarrow> signs k evs n' s = signs k evs n s"
  by (induction evs arbitrary: s) (simp_all add: sign_of_def split: fleet_event.split)

lemma run_rows:
  assumes "0 \<le> k" and "k \<le> 10 ^ 11" and "events_ok evs"
  shows "\<exists>g. t_nodes (fleet_run k evs s) = map g (t_nodes s)
     \<and> (\<forall>n. n_id (g n) = n_id n \<and> n_orgId (g n) = n_orgId n
          \<and> obs (g n) = fold (sign_step k) (signs k evs n s) (obs n))"
  using assms(3)
proof (induction evs arbitrary: s)
  case Nil
  then show ?case by (intro exI [of _ "\<lambda>n. n"]) simp
next
  case (Cons ev evs)
  obtain g where g: "t_nodes (fleet_event_op k ev s) = map g (t_nodes s)"
    "\<And>n. n_id (g n) = n_id n \<and> n_orgId (g n) = n_orgId n \<and> obs (g n) = fold (sign_step k) (sign_of ev n s) (obs n)"
    using event_rows [OF assms(1,2), of ev s] Cons.prems unfolding events_ok_def by auto
  obtain h where h: "t_nodes (fleet_run k evs (fleet_event_op k ev s)) = map h (t_nodes (fleet_event_op k ev s))"
    "\<And>n. n_id (h n) = n_id n \<and> n_orgId (h n) = n_orgId n
       \<and> obs (h n) = fold (sign_step k) (signs k evs n (fleet_event_op k ev s)) (obs n)"
    using Cons.IH [of "fleet_event_op k ev s"] Cons.prems unfolding events_ok_def by auto
  show ?case
  proof (intro exI [of _ "h \<circ> g"] conjI allI)
    show "t_nodes (fleet_run k (ev # evs) s) = map (h \<circ> g) (t_nodes s)" using g(1) h(1) by simp
    fix n
    show "n_id ((h \<circ> g) n) = n_id n" "n_orgId ((h \<circ> g) n) = n_orgId n" using g(2) h(2) by simp_all
    show "obs ((h \<circ> g) n) = fold (sign_step k) (signs k (ev # evs) n s) (obs n)"
      using g(2) [of n] h(2) [of "g n"] signs_cong [of "g n" n k evs] by simp
  qed
qed

text \<open>The steps in closed form.\<close>

lemma fold_swept:
  assumes "0 \<le> k" and "last_heard tr = None"
  shows "fold (sign_step k) tr (silent_status k t ws, Some t) = (silent_status k t (ws @ sweep_times tr), Some t)"
  using assms(2)
proof (induction tr arbitrary: ws)
  case (Cons x tr)
  show ?case
  proof (cases x)
    case (Swept now)
    have "sign_step k x (silent_status k t ws, Some t) = (silent_status k t (ws @ [now]), Some t)"
      using assms(1) by (auto simp: Swept silent_status_def)
    then show ?thesis using Cons.IH [of "ws @ [now]"] Cons.prems Swept by simp
  qed (use Cons.prems in \<open>auto split: option.splits\<close>)
qed simp

lemma fold_signs:
  assumes "0 \<le> k"
  shows "fold (sign_step k) tr x = (case last_heard tr of
      None \<Rightarrow> (case snd x of None \<Rightarrow> x | Some t \<Rightarrow> fold (sign_step k) tr x)
    | Some (t, sweeps) \<Rightarrow> (silent_status k t sweeps, Some t))"
proof (induction tr arbitrary: x)
  case Nil
  then show ?case by (cases x) (auto split: option.split)
next
  case (Cons y tr)
  show ?case
  proof (cases y)
    case (Heard t)
    have "(''online'', Some t) = (silent_status k t [], Some t)" by (simp add: silent_status_def)
    then show ?thesis
      using fold_swept [OF assms, of tr t "[]"] Cons.IH [of "(''online'', Some t)"] Heard
      by (cases "last_heard tr") auto
  next
    case (Swept now)
    have "snd (sign_step k y x) = snd x" by (cases x) (simp add: Swept)
    moreover have "snd x = None \<Longrightarrow> sign_step k y x = x" by (cases x) (simp add: Swept)
    ultimately show ?thesis using Cons.IH [of "sign_step k y x"] Swept
      by (cases "last_heard tr"; cases "snd x") auto
  qed
qed

text \<open>(C9) A node's status follows its heartbeats. For a node that was just enrolled, after any history of
  messages of any nodes and any sweeps, the node is still there in its organization, and: if it was
  never heard of it is offline; otherwise it is offline when some sweep since it was last heard of
  came more than six intervals later, else degraded when one came more than three intervals later,
  else online. In particular a node heard of at most three intervals before every sweep is never
  shown as anything but online.\<close>

theorem status_follows_heartbeats:
  assumes "0 \<le> interval" and "interval \<le> 10 ^ 11" and "events_ok evs"
    and "n \<in> set (t_nodes s)" and "n_status n = ''offline''" and "n_lastSeenAt n = None"
  shows "\<exists>n' \<in> set (t_nodes (fleet_run interval evs s)). n_id n' = n_id n \<and> n_orgId n' = n_orgId n
     \<and> (case last_heard (signs interval evs n s) of
          None \<Rightarrow> n_status n' = ''offline'' \<and> n_lastSeenAt n' = None
        | Some (seen, sweeps) \<Rightarrow> n_status n' = silent_status interval seen sweeps \<and> n_lastSeenAt n' = Some seen
            \<and> ((\<forall>now \<in> set sweeps. now - seen \<le> 3 * interval) \<longrightarrow> n_status n' = ''online''))"
proof -
  obtain g where g: "t_nodes (fleet_run interval evs s) = map g (t_nodes s)"
    "n_id (g n) = n_id n" "n_orgId (g n) = n_orgId n"
    "obs (g n) = fold (sign_step interval) (signs interval evs n s) (obs n)"
    using run_rows [OF assms(1-3), of s] by blast
  have "g n \<in> set (t_nodes (fleet_run interval evs s))" using g(1) assms(4) by simp
  moreover have "list_ex (\<lambda>now. now - seen > 3 * interval) ws \<or> list_ex (\<lambda>now. now - seen > 6 * interval) ws
      \<Longrightarrow> \<not> (\<forall>now \<in> set ws. now - seen \<le> 3 * interval)" for seen ws
    using assms(1) by (force simp: list_ex_iff)
  then have "(\<forall>now \<in> set ws. now - seen \<le> 3 * interval) \<longrightarrow> silent_status interval seen ws = ''online''" for seen ws
    unfolding silent_status_def by auto
  moreover have "obs n = (''offline'', None)" using assms(5,6) by (simp add: obs_def)
  ultimately show ?thesis
    using g(2-4) fold_signs [OF assms(1), of "signs interval evs n s" "obs n"]
    by (intro bexI [of _ "g n"]) (auto simp: obs_def split: option.splits)
qed

text \<open>A node that says hello and sends a batch of samples, then falls silent.\<close>

definition beat :: "millis \<Rightarrow> agent_message \<Rightarrow> fleet_event" where
  "beat now payload = Message ''org_a'' (n_id auth_node) \<lparr>rc_now = now, rc_fresh = (\<lambda>_. []), rc_payload = payload\<rparr>"

definition demo_history :: "fleet_event list" where
  "demo_history = [beat 1000 (Samples \<lparr>sb_samples = []\<rparr>), SweepAt 6000, beat 9000 (Samples \<lparr>sb_samples = []\<rparr>),
     SweepAt 20000, SweepAt 30000]"

lemma demo_hears: "hears ''org_a'' (n_id auth_node) \<lparr>rc_now = now, rc_fresh = f, rc_payload = Samples \<lparr>sb_samples = []\<rparr>\<rparr> s"
proof -
  have "isUuid (n_id auth_node)" by code_simp
  then show ?thesis
    by (simp add: hears_def handle_message_def recordSamples_def withOrg_def transaction_def bind_check uuid_in_def
        on_table_def sql_update_def op_bind_def op_return_def org_isolation_def Let_def list_all_iff pg_check_def)
qed

theorem status_follows_heartbeats_witness:
  "\<exists>n' \<in> set (t_nodes (fleet_run 5000 demo_history auth_db)). n_id n' = n_id auth_node
     \<and> n_status n' = ''degraded'' \<and> n_lastSeenAt n' = Some 9000"
proof -
  have u: "toLowerCase (n_id auth_node) = n_id auth_node" by code_simp
  have org: "n_orgId auth_node = ''org_a''" by (simp add: auth_node_def)
  have sg: "signs 5000 demo_history auth_node auth_db = [Heard 1000, Swept 6000, Heard 9000, Swept 20000, Swept 30000]"
    by (simp add: demo_history_def beat_def sign_of_def demo_hears u org)
  have "\<exists>n' \<in> set (t_nodes (fleet_run 5000 demo_history auth_db)). n_id n' = n_id auth_node \<and> n_orgId n' = n_orgId auth_node
     \<and> (case last_heard (signs 5000 demo_history auth_node auth_db) of
          None \<Rightarrow> n_status n' = ''offline'' \<and> n_lastSeenAt n' = None
        | Some (seen, sweeps) \<Rightarrow> n_status n' = silent_status 5000 seen sweeps \<and> n_lastSeenAt n' = Some seen
            \<and> ((\<forall>now \<in> set sweeps. now - seen \<le> 3 * 5000) \<longrightarrow> n_status n' = ''online''))"
    by (rule status_follows_heartbeats) (auto simp: events_ok_def demo_history_def beat_def auth_db_def auth_node_def)
  then show ?thesis by (simp add: sg silent_status_def) blast
qed

section \<open>Histories without an end\<close>

text \<open>The database after the first \<open>i\<close> events of an infinite history.\<close>

definition run_to :: "int \<Rightarrow> (nat \<Rightarrow> fleet_event) \<Rightarrow> nat \<Rightarrow> db \<Rightarrow> db" where
  "run_to interval h i s = fleet_run interval (map h [0..<i]) s"

definition heard_at :: "int \<Rightarrow> (nat \<Rightarrow> fleet_event) \<Rightarrow> node_row \<Rightarrow> db \<Rightarrow> nat \<Rightarrow> millis \<Rightarrow> bool" where
  "heard_at interval h n s i t \<longleftrightarrow> Heard t \<in> set (sign_of (h i) n (run_to interval h i s))"

lemma fleet_run_append: "fleet_run k (xs @ ys) s = fleet_run k ys (fleet_run k xs s)"
  by (induction xs arbitrary: s) simp_all

lemma signs_append: "signs k (xs @ ys) n s = signs k xs n s @ signs k ys n (fleet_run k xs s)"
  by (induction xs arbitrary: s) simp_all

lemma signs_Suc:
  "signs k (map h [0..<Suc i]) n s = signs k (map h [0..<i]) n s @ sign_of (h i) n (run_to k h i s)"
  by (simp add: signs_append run_to_def)

lemma sign_of_cases: "sign_of ev n s = [] \<or> (\<exists>t. sign_of ev n s = [Heard t]) \<or> (\<exists>now. ev = SweepAt now \<and> sign_of ev n s = [Swept now])"
  by (cases ev) (auto simp: sign_of_def)

text \<open>Status and heartbeat of a node along the history, from its signs alone.\<close>

locale heartbeat_trace =
  fixes k :: int and sg :: "nat \<Rightarrow> sign list" and x :: "nat \<Rightarrow> string \<times> millis option"
  assumes start: "x 0 = (''offline'', None)"
    and run: "x (Suc i) = fold (sign_step k) (sg i) (x i)"
    and one: "sg i = [] \<or> (\<exists>t. sg i = [Heard t]) \<or> (\<exists>now. sg i = [Swept now])"
begin

lemma unheard_offline: "snd (x i) = None \<Longrightarrow> fst (x i) = ''offline''"
proof (induction i)
  case (Suc i)
  then show ?case using one [of i] by (cases "x i") (auto simp: run)
qed (simp add: start)

lemma seen_before_latest:
  assumes "\<And>i t. Heard t \<in> set (sg i) \<Longrightarrow> t \<le> latest" and "snd (x i) = Some t"
  shows "t \<le> latest"
  using assms(2)
proof (induction i)
  case (Suc i)
  show ?case
  proof (cases "\<exists>u. sg i = [Heard u]")
    case True
    then obtain u where u: "sg i = [Heard u]" by blast
    then have "u = t" using Suc.prems by (simp add: run)
    then show ?thesis using assms(1) [of t i] u by simp
  next
    case False
    then show ?thesis using Suc one [of i] by (cases "x i") (auto simp: run)
  qed
qed (simp add: start)

lemma silence_ends_offline:
  assumes silent: "\<And>i t. i0 \<le> i \<Longrightarrow> Heard t \<notin> set (sg i)"
    and latest: "\<And>i t. Heard t \<in> set (sg i) \<Longrightarrow> t \<le> latest"
    and swept: "i0 \<le> j" "sg j = [Swept now]" "latest + 6 * k < now"
    and after: "j < i"
  shows "fst (x i) = ''offline''"
proof -
  have quiet: "sg i = [] \<or> (\<exists>now. sg i = [Swept now])" if "i0 \<le> i" for i
    using one [of i] silent [OF that] by (metis list.set_intros(1))
  have "fst (x (Suc j)) = ''offline''"
  proof (cases "snd (x j)")
    case None
    then show ?thesis using unheard_offline [of j] swept(2) by (cases "x j") (simp add: run)
  next
    case (Some t)
    then have "t \<le> latest" using latest by (rule seen_before_latest [rotated])
    then have "now - t > 6 * k" using swept(3) by simp
    then show ?thesis using Some swept(2) by (cases "x j") (simp add: run)
  qed
  moreover have "fst (x (Suc m)) = ''offline''" if "i0 \<le> m" "fst (x m) = ''offline''" for m
    using quiet [OF that(1)] that(2) by (cases "x m") (auto simp: run split: option.split)
  ultimately have "fst (x (Suc j + d)) = ''offline''" for d
    using swept(1) by (induction d) simp_all
  then show ?thesis using after [unfolded less_iff_Suc_add] by auto
qed

lemma heard_online: "Heard t \<in> set (sg i) \<Longrightarrow> x (Suc i) = (''online'', Some t)"
  using one [of i] by (auto simp: run)

end

interpretation trace: heartbeat_trace k "\<lambda>i. sign_of (h i) n (run_to k h i s)"
    "\<lambda>i. fold (sign_step k) (signs k (map h [0..<i]) n s) (''offline'', None)" for k h n s
proof unfold_locales
  show "fold (sign_step k) (signs k (map h [0..<Suc i]) n s) (''offline'', None)
      = fold (sign_step k) (sign_of (h i) n (run_to k h i s)) (fold (sign_step k) (signs k (map h [0..<i]) n s) (''offline'', None))" for i
    by (simp only: signs_Suc fold_append comp_apply)
  show "sign_of (h i) n (run_to k h i s) = [] \<or> (\<exists>t. sign_of (h i) n (run_to k h i s) = [Heard t])
      \<or> (\<exists>now. sign_of (h i) n (run_to k h i s) = [Swept now])" for i
    using sign_of_cases by metis
qed simp

lemma obs_along:
  assumes "0 \<le> k" and "k \<le> 10 ^ 11" and "\<And>i. events_ok [h i]" and "n \<in> set (t_nodes s)"
  shows "\<exists>n' \<in> set (t_nodes (run_to k h i s)). n_id n' = n_id n \<and> n_orgId n' = n_orgId n
     \<and> obs n' = fold (sign_step k) (signs k (map h [0..<i]) n s) (obs n)"
proof -
  have "events_ok (map h [0..<i])" using assms(3) by (auto simp: events_ok_def)
  then obtain g where "t_nodes (run_to k h i s) = map g (t_nodes s)"
    "n_id (g n) = n_id n \<and> n_orgId (g n) = n_orgId n
       \<and> obs (g n) = fold (sign_step k) (signs k (map h [0..<i]) n s) (obs n)"
    using run_rows [OF assms(1,2)] unfolding run_to_def by blast
  then show ?thesis using assms(4) by auto
qed

text \<open>(C10) A machine that falls silent is shown offline in the end, and one that comes back is shown online
  at once. In any infinite history of messages of any nodes and of sweeps, for a node that was just
  enrolled: after each event at which it is heard of it is online; and if from some event on it is
  never heard of again, while sweeps go on coming whose clock has passed its last possible heartbeat
  by more than six intervals, then from some event on it is offline for ever.\<close>

theorem silent_node_goes_offline:
  assumes "0 \<le> interval" and "interval \<le> 10 ^ 11" and "\<And>i. events_ok [h i]"
    and "n \<in> set (t_nodes s)" and "n_status n = ''offline''" and "n_lastSeenAt n = None"
    and "\<And>i t. heard_at interval h n s i t \<Longrightarrow> t \<le> latest"
  shows "(\<forall>i t. heard_at interval h n s i t \<longrightarrow>
        (\<exists>n' \<in> set (t_nodes (run_to interval h (Suc i) s)). n_id n' = n_id n \<and> n_orgId n' = n_orgId n
           \<and> n_status n' = ''online'' \<and> n_lastSeenAt n' = Some t))
     \<and> ((\<exists>i0. \<forall>i \<ge> i0. \<forall>t. \<not> heard_at interval h n s i t)
        \<and> (\<forall>i. \<exists>j \<ge> i. \<exists>now. h j = SweepAt now \<and> latest + 6 * interval < now) \<longrightarrow>
          (\<exists>k. \<forall>i \<ge> k. \<exists>n' \<in> set (t_nodes (run_to interval h i s)).
             n_id n' = n_id n \<and> n_orgId n' = n_orgId n \<and> n_status n' = ''offline''))"
proof -
  have "obs n = (''offline'', None)" using assms(5,6) by (simp add: obs_def)
  note row = obs_along [of interval h n s, OF assms(1-4), unfolded this]
  have "\<exists>n' \<in> set (t_nodes (run_to interval h (Suc i) s)). n_id n' = n_id n \<and> n_orgId n' = n_orgId n
      \<and> n_status n' = ''online'' \<and> n_lastSeenAt n' = Some t" if "heard_at interval h n s i t" for i t
    using trace.heard_online that [unfolded heard_at_def] row [of "Suc i"] by (force simp: obs_def)
  moreover have "\<exists>k. \<forall>i \<ge> k. \<exists>n' \<in> set (t_nodes (run_to interval h i s)).
      n_id n' = n_id n \<and> n_orgId n' = n_orgId n \<and> n_status n' = ''offline''"
    if i0: "\<forall>i \<ge> i0. \<forall>t. \<not> heard_at interval h n s i t"
      and fair: "\<forall>i. \<exists>j \<ge> i. \<exists>now. h j = SweepAt now \<and> latest + 6 * interval < now" for i0
  proof -
    obtain j now where j: "i0 \<le> j" "h j = SweepAt now" "latest + 6 * interval < now" using fair by blast
    have "fst (fold (sign_step interval) (signs interval (map h [0..<i]) n s) (''offline'', None)) = ''offline''"
      if "Suc j \<le> i" for i
    proof (rule trace.silence_ends_offline [OF _ _ j(1) _ j(3)])
      show "Heard t \<notin> set (sign_of (h i) n (run_to interval h i s))" if "i0 \<le> i" for i t
        using i0 that by (simp add: heard_at_def)
      show "t \<le> latest" if "Heard t \<in> set (sign_of (h i) n (run_to interval h i s))" for i t
        using assms(7) that by (simp add: heard_at_def)
    qed (use that j(2) in \<open>simp_all add: sign_of_def\<close>)
    then show ?thesis using row by (intro exI [of _ "Suc j"]) (metis fst_conv obs_def)
  qed
  ultimately show ?thesis by blast
qed

text \<open>One heartbeat, then sweeps only.\<close>

definition lost_contact :: "nat \<Rightarrow> fleet_event" where
  "lost_contact i = (if i = 0 then beat 1000 (Samples \<lparr>sb_samples = []\<rparr>) else SweepAt 50000)"

theorem silent_node_goes_offline_witness:
  "\<exists>k. \<forall>i \<ge> k. \<exists>n' \<in> set (t_nodes (run_to 5000 lost_contact i auth_db)).
     n_id n' = n_id auth_node \<and> n_orgId n' = n_orgId auth_node \<and> n_status n' = ''offline''"
proof -
  have heard: "heard_at 5000 lost_contact auth_node auth_db i t \<Longrightarrow> i = 0 \<and> t = 1000" for i t
    by (auto simp: heard_at_def lost_contact_def beat_def sign_of_def split: if_splits)
  have "(\<exists>i0. \<forall>i \<ge> i0. \<forall>t. \<not> heard_at 5000 lost_contact auth_node auth_db i t)
      \<and> (\<forall>i. \<exists>j \<ge> i. \<exists>now. lost_contact j = SweepAt now \<and> 1000 + 6 * 5000 < now)"
  proof (rule conjI)
    show "\<exists>i0. \<forall>i \<ge> i0. \<forall>t. \<not> heard_at 5000 lost_contact auth_node auth_db i t"
      using heard by (intro exI [of _ 1]) force
    have "lost_contact (Suc i) = SweepAt 50000 \<and> i \<le> Suc i \<and> (1000 + 6 * 5000 :: int) < 50000" for i
      by (simp add: lost_contact_def)
    then show "\<forall>i. \<exists>j \<ge> i. \<exists>now. lost_contact j = SweepAt now \<and> 1000 + 6 * 5000 < now" by blast
  qed
  moreover have "events_ok [lost_contact i]" for i by (simp add: events_ok_def lost_contact_def beat_def)
  moreover have "auth_node \<in> set (t_nodes auth_db)" "n_status auth_node = ''offline''" "n_lastSeenAt auth_node = None"
    by (simp_all add: auth_db_def auth_node_def)
  ultimately show ?thesis
    using silent_node_goes_offline [of 5000 lost_contact auth_node auth_db 1000] heard by simp
qed

end
