(* ===== verification/Session.thy ===== *)
theory Session
  imports Database
begin

text \<open>
  Who is asking: \<open>apps/control-plane/src/auth/session.ts\<close> and the parts of \<open>auth/auth.ts\<close> that are the
  program's own (the generated ids, the personal organization and the sign-up hook). Better Auth
  itself is a parameter: a record of the three API calls the code makes, each an operation that
  may change the database and may throw.
\<close>

section \<open>The component\<close>

record user =
  u_id :: string
  u_email :: string
  u_name :: "string option"

record auth_session =
  as_user :: "user option"
  as_activeOrganizationId :: "string option"

record ('h, 's) auth_api =
  getSession :: "'h \<Rightarrow> ('s, error, auth_session option) op"
  listOrganizations :: "'h \<Rightarrow> ('s, error, (string \<times> string) list) op"
  createOrganization :: "string \<Rightarrow> string \<Rightarrow> string \<Rightarrow> ('s, error, string option) op"

record session_context =
  sc_userId :: string
  sc_orgId :: string
  sc_user :: user

text \<open>\<open>hex\<close> is \<open>randomBytes(16).toString("hex")\<close>.\<close>

definition generateId :: "string \<Rightarrow> string \<Rightarrow> string" where
  "generateId hex model = (if model = ''organization'' then ''org_'' @ hex else hex)"

text \<open>\<open>createOrganization name slug userId\<close> yields the id of the organization, or null.\<close>

definition ensurePersonalOrganization ::
  "('h, 's) auth_api \<Rightarrow> string \<Rightarrow> user \<Rightarrow> ('s, error, string option) op" where
  "ensurePersonalOrganization api hex user =
     createOrganization api
       ((case u_name user of Some n \<Rightarrow> if n \<noteq> [] then n else u_email user | None \<Rightarrow> u_email user) @ CHR 0x27 # ''s fleet'')
       (''org-'' @ hex) (u_id user)"

text \<open>The hook that runs after a user has been created.\<close>

definition afterUserCreate :: "('h, 's) auth_api \<Rightarrow> string \<Rightarrow> user \<Rightarrow> ('s, error, unit) op" where
  "afterUserCreate api hex user =
     op_catch (op_bind (ensurePersonalOrganization api hex user) (\<lambda>_. op_return ())) (\<lambda>_. op_return ())"

definition selfHealOrganization :: "('h, 's) auth_api \<Rightarrow> string \<Rightarrow> user \<Rightarrow> ('s, error, string option) op" where
  "selfHealOrganization api hex user =
     op_catch (ensurePersonalOrganization api hex user) (\<lambda>_. op_return None)"

definition requireSession :: "('h, 's) auth_api \<Rightarrow> string \<Rightarrow> 'h \<Rightarrow> ('s, error, session_context) op" where
  "requireSession api hex headers =
     op_bind (getSession api headers) (\<lambda>session.
       case Option.bind session as_user of
         None \<Rightarrow> op_throw (HttpError 401 ''unauthenticated'' ''sign in required'')
       | Some user \<Rightarrow>
           op_bind
             (case as_activeOrganizationId (the session) of
                Some active \<Rightarrow> op_return (Some active)
              | None \<Rightarrow>
                  op_bind (listOrganizations api headers) (\<lambda>orgs.
                    case first_row orgs of
                      Some org \<Rightarrow> op_return (Some (fst org))
                    | None \<Rightarrow> selfHealOrganization api hex user))
             (\<lambda>orgId. case orgId of
                None \<Rightarrow> op_throw (HttpError 403 ''no_organization'' ''user has no organization'')
              | Some org \<Rightarrow>
                  if org = [] then op_throw (HttpError 403 ''no_organization'' ''user has no organization'')
                  else op_return \<lparr>sc_userId = u_id user, sc_orgId = org, sc_user = user\<rparr>))"

section \<open>Sessions\<close>

lemma after_user_create_returns: "\<exists>t. afterUserCreate api hex user s = (Inr (), t)"
  by (cases "op_bind (ensurePersonalOrganization api hex user) (\<lambda>_. op_return ()) s";
      cases "fst (op_bind (ensurePersonalOrganization api hex user) (\<lambda>_. op_return ()) s)")
    (auto simp: afterUserCreate_def op_catch_def)

lemma self_heal_returns: "\<exists>org t. selfHealOrganization api hex user s = (Inr org, t)"
  by (cases "ensurePersonalOrganization api hex user s"; cases "fst (ensurePersonalOrganization api hex user s)")
    (auto simp: selfHealOrganization_def op_catch_def)

text \<open>A failure to create the personal organization never fails a sign-up and never surfaces
  from a request: the hook returns whatever the creation does, and a signed-in user for whom no
  organization exists and none can be created gets the 403, not the creation's error.\<close>

theorem organization_failure_contained:
  "(\<exists>t. afterUserCreate api hex user s = (Inr (), t))
   \<and> (getSession api headers s = (Inr (Some \<lparr>as_user = Some user, as_activeOrganizationId = None\<rparr>), s1)
      \<longrightarrow> listOrganizations api headers s1 = (Inr [], s2)
      \<longrightarrow> ensurePersonalOrganization api hex user s2 = (Inl e, s3)
      \<longrightarrow> requireSession api hex headers s
          = (Inl (HttpError 403 ''no_organization'' ''user has no organization''), s3))"
  by (simp add: after_user_create_returns requireSession_def selfHealOrganization_def)

text \<open>The organization of a request is never guessed: a session context carries the signed-in
  user and a non-empty organization id, which is the session's active organization when it has
  one, otherwise the first of the user's organizations, otherwise the one just created for them.\<close>

theorem session_organization:
  assumes "requireSession api hex headers s = (Inr ctx, t)"
  shows "\<exists>session user s1. getSession api headers s = (Inr (Some session), s1) \<and> as_user session = Some user
     \<and> sc_user ctx = user \<and> sc_userId ctx = u_id user \<and> sc_orgId ctx \<noteq> []
     \<and> (case as_activeOrganizationId session of
          Some active \<Rightarrow> sc_orgId ctx = active \<and> t = s1
        | None \<Rightarrow> (\<exists>orgs s2. listOrganizations api headers s1 = (Inr orgs, s2)
            \<and> (if orgs \<noteq> [] then sc_orgId ctx = fst (hd orgs) \<and> t = s2
               else ensurePersonalOrganization api hex user s2 = (Inr (Some (sc_orgId ctx)), t))))"
proof -
  obtain session s1 where g: "getSession api headers s = (Inr session, s1)"
    using assms by (auto simp: requireSession_def elim: op_bind_success)
  obtain se user where se: "session = Some se" "as_user se = Some user"
    using assms g by (cases session; cases "as_user (the session)") (auto simp: requireSession_def)
  show ?thesis
  proof (cases "as_activeOrganizationId se")
    case (Some active)
    then show ?thesis using assms g se by (auto simp: requireSession_def split: if_splits)
  next
    case None
    obtain orgs s2 where l: "listOrganizations api headers s1 = (Inr orgs, s2)"
      using assms g se None by (auto simp: requireSession_def elim!: op_bind_success)
    show ?thesis
    proof (cases orgs)
      case (Cons org rest)
      then show ?thesis using assms g se None l by (auto simp: requireSession_def split: if_splits)
    next
      case Nil
      obtain org s3 where h: "selfHealOrganization api hex user s2 = (Inr org, s3)"
        using self_heal_returns [of api hex user s2] by auto
      then have r: "org = Some (sc_orgId ctx)" "t = s3" "sc_orgId ctx \<noteq> []" "sc_user ctx = user" "sc_userId ctx = u_id user"
        using assms g se None l Nil by (auto simp: requireSession_def split: option.splits if_splits)
      then have "ensurePersonalOrganization api hex user s2 = (Inr (Some (sc_orgId ctx)), t)"
        using h by (cases "ensurePersonalOrganization api hex user s2"; cases "fst (ensurePersonalOrganization api hex user s2)")
          (auto simp: selfHealOrganization_def)
      then show ?thesis using g se None l Nil r by auto
    qed
  qed
qed

text \<open>A stand-in for the service: one signed-in user whose first organization is \<open>org_a\<close>.\<close>

definition sample_user :: user where
  "sample_user = \<lparr>u_id = ''user_1'', u_email = ''ann@example.com'', u_name = Some ''Ann''\<rparr>"

definition sample_api :: "(unit, 's) auth_api" where
  "sample_api =
     \<lparr>getSession = (\<lambda>_. op_return (Some \<lparr>as_user = Some sample_user, as_activeOrganizationId = None\<rparr>)),
      listOrganizations = (\<lambda>_. op_return [(''org_a'', ''Fleet'')]),
      createOrganization = (\<lambda>_ _ _. op_throw (JsError ''unavailable''))\<rparr>"

definition orgless_api :: "(unit, 's) auth_api" where
  "orgless_api = sample_api\<lparr>listOrganizations := (\<lambda>_. op_return [])\<rparr>"

theorem organization_failure_contained_witness:
  "requireSession orgless_api ''00'' () (0 :: nat)
     = (Inl (HttpError 403 ''no_organization'' ''user has no organization''), 0)"
  using organization_failure_contained
    [of orgless_api "''00''" sample_user "0 :: nat" "()" 0 0 "JsError ''unavailable''" 0]
  by (simp add: orgless_api_def sample_api_def ensurePersonalOrganization_def)

theorem session_organization_witness:
  "requireSession sample_api ''00'' () (0 :: nat)
     = (Inr \<lparr>sc_userId = ''user_1'', sc_orgId = ''org_a'', sc_user = sample_user\<rparr>, 0)
   \<and> ''org_a'' \<noteq> []"
proof -
  have a: "requireSession sample_api ''00'' () (0 :: nat)
     = (Inr \<lparr>sc_userId = ''user_1'', sc_orgId = ''org_a'', sc_user = sample_user\<rparr>, 0)"
    by (simp add: requireSession_def sample_api_def sample_user_def)
  show ?thesis using session_organization [OF a] a by simp
qed

end
