(* ===== verification/Fleet_Service.thy ===== *)
theory Fleet_Service
  imports Session Inventory
begin

text \<open>
  The browser's API: \<open>apps/control-plane/src/rpc/fleet-service.ts\<close>. A handler first resolves the
  session and then works inside \<open>withOrg\<close>; the part after the session is a definition of its own
  (\<open>list_in\<close>, \<open>get_in\<close>), because tenancy is a statement about it for every organization. The collation of
  the server behind \<open>order by\<close> is a parameter: the key \<open>collate\<close> it sorts texts by.
\<close>

section \<open>The component\<close>

text \<open>\<open>session(ctx)\<close>\<close>

definition fleet_session :: "('h, 's) auth_api \<Rightarrow> string \<Rightarrow> 'h \<Rightarrow> ('s, error, session_context) op" where
  "fleet_session api hex headers =
     op_catch (requireSession api hex headers)
       (\<lambda>err. case err of HttpError _ _ _ \<Rightarrow> op_throw (ConnectError ''sign in required'' Unauthenticated)
              | _ \<Rightarrow> op_throw err)"

definition notFound :: error where
  "notFound = ConnectError ''node not found'' NotFound"

definition select_nodes :: "(string \<Rightarrow> 'k :: linorder) \<Rightarrow> conn \<Rightarrow> db \<Rightarrow> node_row list" where
  "select_nodes collate tx s = sort_key (collate \<circ> n_name) (sql_select tx n_orgId (\<lambda>_. True) (t_nodes s))"

definition select_devices :: "(string \<Rightarrow> 'k :: linorder) \<Rightarrow> conn \<Rightarrow> (device_row \<Rightarrow> bool) \<Rightarrow> db \<Rightarrow> device_row list" where
  "select_devices collate tx P s = sort_key (collate \<circ> d_localId) (sql_select tx d_orgId P (t_devices s))"

definition list_in :: "(string \<Rightarrow> 'k :: linorder) \<Rightarrow> string \<Rightarrow> (db, error, node_view list) op" where
  "list_in collate orgId =
     withOrg orgId (\<lambda>tx.
       op_bind (op_get (select_nodes collate tx)) (\<lambda>nodeRows.
       op_bind (op_get (select_devices collate tx (\<lambda>_. True))) (\<lambda>deviceRows.
       op_lift (map_result (\<lambda>n. nodeView n (filter (\<lambda>d. d_nodeId d = n_id n) deviceRows)) nodeRows))))"

definition listNodes :: "('h, db) auth_api \<Rightarrow> string \<Rightarrow> (string \<Rightarrow> 'k :: linorder) \<Rightarrow> 'h
    \<Rightarrow> (db, error, list_nodes_response) op" where
  "listNodes api hex collate headers =
     op_bind (fleet_session api hex headers) (\<lambda>ctx.
     op_bind (list_in collate (sc_orgId ctx)) (\<lambda>views. op_return \<lparr>lnr_nodes = views\<rparr>))"

definition get_in :: "(string \<Rightarrow> 'k :: linorder) \<Rightarrow> string \<Rightarrow> string \<Rightarrow> (db, error, node_view) op" where
  "get_in collate nodeId orgId =
     (if \<not> isUuid nodeId then op_throw notFound
      else withOrg orgId (\<lambda>tx.
        op_bind (op_get (\<lambda>s. first_row (sql_select tx n_orgId (\<lambda>n. n_id n = toLowerCase nodeId) (t_nodes s)))) (\<lambda>node.
          case node of
            None \<Rightarrow> op_throw notFound
          | Some n \<Rightarrow>
              op_bind (op_get (select_devices collate tx (\<lambda>d. d_nodeId d = n_id n))) (\<lambda>deviceRows.
              op_lift (nodeView n deviceRows)))))"

definition getNode :: "('h, db) auth_api \<Rightarrow> string \<Rightarrow> (string \<Rightarrow> 'k :: linorder) \<Rightarrow> get_node_request \<Rightarrow> 'h
    \<Rightarrow> (db, error, get_node_response) op" where
  "getNode api hex collate req headers =
     op_bind (fleet_session api hex headers) (\<lambda>ctx.
     op_bind (get_in collate (gnq_nodeId req) (sc_orgId ctx)) (\<lambda>view. op_return \<lparr>gnr_node = Some view\<rparr>))"

definition createPairingCode ::
  "('h, db) auth_api \<Rightarrow> string \<Rightarrow> (string \<Rightarrow> string \<Rightarrow> string) \<Rightarrow> string \<Rightarrow> number \<Rightarrow> (nat \<Rightarrow> nat) \<Rightarrow> uuid \<Rightarrow> millis \<Rightarrow> millis
   \<Rightarrow> create_pairing_code_request \<Rightarrow> 'h \<Rightarrow> (db, error, create_pairing_code_response) op" where
  "createPairingCode api hex hmac pepper ttl ri fresh created now req headers =
     op_bind (fleet_session api hex headers) (\<lambda>ctx.
     op_bind (mintPairingCode hmac pepper ttl ri fresh created now (sc_orgId ctx) (sc_userId ctx) (cpq_nodeName req))
       (\<lambda>(code, expiresAt). op_bind (op_lift (to_bigint (of_int expiresAt))) (\<lambda>ms.
          op_return \<lparr>cpr_code = code, cpr_expiresAtUnixMs = ms\<rparr>)))"

section \<open>Tenancy of the reads\<close>

lemma select_nodes_confined: "inside org s = inside org s' \<Longrightarrow>
    select_nodes collate (AppConn (Some org)) s = select_nodes collate (AppConn (Some org)) s'"
  unfolding select_nodes_def by (rule arg_cong [OF nodes_tbl.select_confined])

lemma select_devices_confined: "inside org s = inside org s' \<Longrightarrow>
    select_devices collate (AppConn (Some org)) P s = select_devices collate (AppConn (Some org)) P s'"
  unfolding select_devices_def by (rule arg_cong [OF devices_tbl.select_confined])

interpretation list_scoped: org_confined "list_in collate" for collate
proof unfold_locales
  fix org
  show "preserves (outside org) (list_in collate org)"
    unfolding list_in_def by (intro frame_intros)
  show "confined org (list_in collate org)"
    unfolding list_in_def
    by (intro confined_withOrg confined_bind confined_lift confined_get select_nodes_confined select_devices_confined)
qed

interpretation get_scoped: org_confined "get_in collate nodeId" for collate nodeId
proof unfold_locales
  fix org
  show "preserves (outside org) (get_in collate nodeId org)"
    unfolding get_in_def by (auto intro!: frame_intros split: option.splits)
  have "confined org (withOrg org (\<lambda>tx.
        op_bind (op_get (\<lambda>s. first_row (sql_select tx n_orgId (\<lambda>n. n_id n = toLowerCase nodeId) (t_nodes s)))) (\<lambda>node.
          case node of
            None \<Rightarrow> op_throw notFound
          | Some n \<Rightarrow>
              op_bind (op_get (select_devices collate tx (\<lambda>d. d_nodeId d = n_id n))) (\<lambda>deviceRows.
              op_lift (nodeView n deviceRows)))))"
  proof (intro confined_withOrg confined_bind confined_get arg_cong [where f = first_row] nodes_tbl.select_confined)
    fix node
    show "confined org (case node of None \<Rightarrow> op_throw notFound
       | Some n \<Rightarrow> op_bind (op_get (select_devices collate (AppConn (Some org)) (\<lambda>d. d_nodeId d = n_id n)))
           (\<lambda>deviceRows. op_lift (nodeView n deviceRows)))"
      by (cases node) (auto intro!: confined_bind confined_get select_devices_confined)
  qed
  then show "confined org (get_in collate nodeId org)"
    by (simp add: get_in_def)
qed

section \<open>What the reads answer\<close>

lemma app_select: "sql_select (AppConn (Some org)) f P t = filter (\<lambda>r. f r = org \<and> P r) t"
  by (simp add: sql_select_def org_isolation_def)

lemma devices_of_org:
  assumes "wf_db s" and "n \<in> set (t_nodes s)" and "n_orgId n = org"
  shows "filter (\<lambda>d. d_orgId d = org \<and> d_nodeId d = n_id n) (t_devices s) = filter (\<lambda>d. d_nodeId d = n_id n) (t_devices s)"
proof (rule filter_cong [OF refl])
  fix d assume d: "d \<in> set (t_devices s)"
  obtain m where "m \<in> set (t_nodes s)" "n_id m = d_nodeId d" "n_orgId m = d_orgId d"
    using wf_dbD(8) [OF assms(1) d] by blast
  then show "(d_orgId d = org \<and> d_nodeId d = n_id n) = (d_nodeId d = n_id n)"
    using wf_node_unique [OF assms(1), of m n] assms(2,3) by auto
qed

definition devices_of :: "(string \<Rightarrow> 'k :: linorder) \<Rightarrow> node_row \<Rightarrow> db \<Rightarrow> device_row list" where
  "devices_of collate n s = sort_key (collate \<circ> d_localId) (filter (\<lambda>d. d_nodeId d = n_id n) (t_devices s))"

lemma select_devices_of:
  assumes "wf_db s" and "n \<in> set (t_nodes s)" and "n_orgId n = org"
  shows "filter (\<lambda>d. d_nodeId d = n_id n) (select_devices collate (AppConn (Some org)) (\<lambda>_. True) s) = devices_of collate n s"
    and "select_devices collate (AppConn (Some org)) (\<lambda>d. d_nodeId d = n_id n) s = devices_of collate n s"
proof -
  have "filter (\<lambda>d. d_nodeId d = n_id n) (filter (\<lambda>d. d_orgId d = org) (t_devices s))
      = filter (\<lambda>d. d_nodeId d = n_id n) (t_devices s)"
    using devices_of_org [OF assms] by simp
  then show "filter (\<lambda>d. d_nodeId d = n_id n) (select_devices collate (AppConn (Some org)) (\<lambda>_. True) s) = devices_of collate n s"
    by (simp add: select_devices_def devices_of_def app_select filter_sort del: filter_filter)
  show "select_devices collate (AppConn (Some org)) (\<lambda>d. d_nodeId d = n_id n) s = devices_of collate n s"
    using devices_of_org [OF assms] by (simp add: select_devices_def devices_of_def app_select)
qed

lemma nodeView_devices_of:
  assumes "wf_db s"
  shows "\<exists>v. nodeView n (devices_of collate n s) = Inr v \<and> nv_id v = n_id n
     \<and> list_all2 (\<lambda>d w. deviceView d = Inr w) (devices_of collate n s) (nv_devices v)"
  using wf_dbD(8) [OF assms] by (intro nodeView_total) (auto simp: devices_of_def)

lemma list_rows:
  assumes "wf_db s"
  shows "\<exists>views. list_in collate org s = (Inr views, s)
     \<and> list_all2 (\<lambda>n v. nodeView n (devices_of collate n s) = Inr v \<and> nv_id v = n_id n
          \<and> list_all2 (\<lambda>d w. deviceView d = Inr w) (devices_of collate n s) (nv_devices v))
        (sort_key (collate \<circ> n_name) (filter (\<lambda>n. n_orgId n = org) (t_nodes s))) views"
proof -
  let ?rows = "sort_key (collate \<circ> n_name) (filter (\<lambda>n. n_orgId n = org) (t_nodes s))"
  let ?devs = "select_devices collate (AppConn (Some org)) (\<lambda>_. True) s"
  let ?f = "\<lambda>n. nodeView n (filter (\<lambda>d. d_nodeId d = n_id n) ?devs)"
  have f: "?f n = nodeView n (devices_of collate n s)" if "n \<in> set ?rows" for n
    using select_devices_of(1) [OF assms, of n org collate] that by simp
  have "\<exists>v. ?f n = Inr v" if "n \<in> set ?rows" for n
    using nodeView_devices_of [OF assms, of n collate] unfolding f [OF that] by blast
  then obtain views where v: "map_result ?f ?rows = Inr views"
    using map_result_total [of ?rows ?f] by blast
  have "select_nodes collate (AppConn (Some org)) s = ?rows" by (simp add: select_nodes_def app_select)
  then have "list_in collate org s = (Inr views, s)"
    using v by (simp add: list_in_def withOrg_def transaction_def)
  moreover have "list_all2 (\<lambda>n v. nodeView n (devices_of collate n s) = Inr v \<and> nv_id v = n_id n
          \<and> list_all2 (\<lambda>d w. deviceView d = Inr w) (devices_of collate n s) (nv_devices v)) ?rows views"
  proof (rule list.rel_mono_strong [OF v [unfolded map_result_Inr]])
    fix n v assume n: "n \<in> set ?rows" and "?f n = Inr v"
    then have "nodeView n (devices_of collate n s) = Inr v" using f [OF n] by simp
    then show "nodeView n (devices_of collate n s) = Inr v \<and> nv_id v = n_id n
          \<and> list_all2 (\<lambda>d w. deviceView d = Inr w) (devices_of collate n s) (nv_devices v)"
      using nodeView_devices_of [OF assms, of n collate] by auto
  qed
  ultimately show ?thesis by blast
qed

text \<open>(C26) Listing always answers on a well-formed database, and with exactly the organization's nodes:
  one view per node, in the order of their names, each with the views of exactly that node's
  devices in the order of their local ids. Nothing is written.\<close>

theorem list_exact:
  assumes "wf_db s"
  shows "\<exists>views. list_in collate org s = (Inr views, s)
     \<and> list_all2 (\<lambda>n v. nodeView n (devices_of collate n s) = Inr v \<and> nv_id v = n_id n
          \<and> list_all2 (\<lambda>d w. deviceView d = Inr w) (devices_of collate n s) (nv_devices v))
        (sort_key (collate \<circ> n_name) (filter (\<lambda>n. n_orgId n = org) (t_nodes s))) views"
  using assms by (rule list_rows)

text \<open>(C27) Looking up a node answers with that node when the caller's organization has it, in whatever
  letter case its id is written, and otherwise, be the id malformed, unused or of another
  organization, with one and the same \<open>NotFound\<close>, so it cannot be used to probe for nodes.\<close>

theorem get_exact:
  assumes "wf_db s"
  shows "if \<exists>n \<in> set (t_nodes s). isUuid nodeId \<and> n_id n = toLowerCase nodeId \<and> n_orgId n = org
     then \<exists>n \<in> set (t_nodes s). \<exists>v. n_id n = toLowerCase nodeId \<and> n_orgId n = org
        \<and> get_in collate nodeId org s = (Inr v, s) \<and> nodeView n (devices_of collate n s) = Inr v
     else get_in collate nodeId org s = (Inl (ConnectError ''node not found'' NotFound), s)"
proof (cases "\<exists>n \<in> set (t_nodes s). isUuid nodeId \<and> n_id n = toLowerCase nodeId \<and> n_orgId n = org")
  case False
  then have "isUuid nodeId \<Longrightarrow> filter (\<lambda>n. n_orgId n = org \<and> n_id n = toLowerCase nodeId) (t_nodes s) = []"
    by (auto simp: filter_empty_conv)
  then have "get_in collate nodeId org s = (Inl (ConnectError ''node not found'' NotFound), s)"
    by (simp add: get_in_def notFound_def withOrg_def transaction_def app_select)
  then show ?thesis using False by (simp only: if_False)
next
  case True
  then obtain n where n: "n \<in> set (t_nodes s)" "isUuid nodeId" "n_id n = toLowerCase nodeId" "n_orgId n = org" by blast
  have "filter (\<lambda>m. n_id m = n_id n) (t_nodes s) = [n]"
    using distinct_map_filter_unique [OF wf_dbD(1) [OF assms] n(1)] .
  then have "filter (\<lambda>m. n_orgId m = org) (filter (\<lambda>m. n_id m = toLowerCase nodeId) (t_nodes s)) = [n]"
    using n(3,4) by simp
  then have "filter (\<lambda>m. n_orgId m = org \<and> n_id m = toLowerCase nodeId) (t_nodes s) = [n]"
    by (simp add: conj_commute)
  then have "sql_select (AppConn (Some org)) n_orgId (\<lambda>m. n_id m = toLowerCase nodeId) (t_nodes s) = [n]"
    by (simp add: app_select)
  moreover obtain v where v: "nodeView n (devices_of collate n s) = Inr v"
    using nodeView_devices_of [OF assms, of n collate] by blast
  ultimately have "get_in collate nodeId org s = (Inr v, s)"
    using n(2) select_devices_of(2) [OF assms n(1,4), of collate]
    by (simp add: get_in_def withOrg_def transaction_def)
  then show ?thesis using True n v by (simp only: if_True) blast
qed

text \<open>Without a session no request touches the fleet: when the session is missing or has no
  organization every handler of the service answers \<open>Unauthenticated\<close>, and any other fault of the
  session lookup passes through unchanged; in both cases nothing beyond the lookup itself runs.\<close>

theorem fleet_requires_session:
  assumes "requireSession api hex headers s = (Inl e, t)"
  shows "\<exists>e'. listNodes api hex collate headers s = (Inl e', t) \<and> getNode api hex collate req headers s = (Inl e', t)
      \<and> createPairingCode api hex hmac pepper ttl ri fresh created now creq headers s = (Inl e', t)
      \<and> e' = (case e of HttpError _ _ _ \<Rightarrow> ConnectError ''sign in required'' Unauthenticated | _ \<Rightarrow> e)"
proof -
  have "fleet_session api hex headers s
      = (Inl (case e of HttpError _ _ _ \<Rightarrow> ConnectError ''sign in required'' Unauthenticated | _ \<Rightarrow> e), t)"
    using assms by (cases e) (simp_all add: fleet_session_def)
  then show ?thesis by (simp add: listNodes_def getNode_def createPairingCode_def)
qed

lemma create_mints:
  assumes "fleet_session api hex headers s = (Inr ctx, s1)"
    and "createPairingCode api hex hmac pepper ttl ri fresh created now req headers s = (Inr resp, s')"
  shows "\<exists>e. mintPairingCode hmac pepper ttl ri fresh created now (sc_orgId ctx) (sc_userId ctx) (cpq_nodeName req) s1
      = (Inr (cpr_code resp, e), s') \<and> cpr_expiresAtUnixMs resp = e"
proof -
  have "op_bind (mintPairingCode hmac pepper ttl ri fresh created now (sc_orgId ctx) (sc_userId ctx) (cpq_nodeName req))
       (\<lambda>(code, expiresAt). op_bind (op_lift (to_bigint (of_int expiresAt))) (\<lambda>ms.
          op_return \<lparr>cpr_code = code, cpr_expiresAtUnixMs = ms\<rparr>)) s1
      = (Inr resp, s')"
    using assms by (simp add: createPairingCode_def)
  then show ?thesis by (auto simp: to_bigint_def elim!: op_bind_success)
qed

text \<open>A pairing code created in the browser enrolls into the organization of the session that
  created it: the code stored is for that organization, user and name, unused, and the expiry in
  the answer is the stored one.\<close>

theorem create_pairing_code_scoped:
  assumes "fleet_session api hex headers s = (Inr ctx, s1)"
    and "createPairingCode api hex hmac pepper ttl ri fresh created now req headers s = (Inr resp, s')"
  shows "\<exists>row. s' = s1\<lparr>t_pairing := t_pairing s1 @ [row]\<rparr> \<and> p_orgId row = sc_orgId ctx
     \<and> p_createdBy row = sc_userId ctx \<and> p_nodeName row = cpq_nodeName req
     \<and> p_codeHash row = hashCode hmac pepper (cpr_code resp) \<and> p_expiresAt row = cpr_expiresAtUnixMs resp \<and> p_usedAt row = None"
  using create_mints [OF assms] mint_result(4) by fastforce

section \<open>Requests on the sample fleet\<close>

text \<open>A stand-in for the collation: texts ordered by their length.\<close>

abbreviation by_length :: "string \<Rightarrow> nat" where
  "by_length \<equiv> length"

theorem list_exact_witness:
  "\<exists>v. list_in by_length ''org_a'' demo_fleet = (Inr [v], demo_fleet) \<and> nv_id v = demo_id"
proof -
  have "sort_key (by_length \<circ> n_name) (filter (\<lambda>n. n_orgId n = ''org_a'') (t_nodes demo_fleet)) = [demo_node]"
    by (simp add: demo_fleet_def demo_enrolled_def)
  then show ?thesis
    using list_exact [OF demo_fleet_wf, of by_length "''org_a''"] by (auto simp: list_all2_Cons1)
qed

theorem get_exact_witness:
  "(\<exists>v. get_in by_length demo_id ''org_a'' demo_fleet = (Inr v, demo_fleet))
   \<and> get_in by_length demo_id ''org_b'' demo_fleet = (Inl (ConnectError ''node not found'' NotFound), demo_fleet)"
proof -
  have "t_nodes demo_fleet = [demo_node]" by (simp add: demo_fleet_def demo_enrolled_def)
  then show ?thesis
    using get_exact [OF demo_fleet_wf, of demo_id "''org_a''" by_length]
      get_exact [OF demo_fleet_wf, of demo_id "''org_b''" by_length] demo_id_uuid by auto
qed

theorem fleet_requires_session_witness:
  "listNodes orgless_api ''00'' by_length () demo_fleet
     = (Inl (ConnectError ''sign in required'' Unauthenticated), demo_fleet)"
proof -
  have "requireSession orgless_api ''00'' () demo_fleet
      = (Inl (HttpError 403 ''no_organization'' ''user has no organization''), demo_fleet)"
    by (simp add: requireSession_def orgless_api_def sample_api_def selfHealOrganization_def
        ensurePersonalOrganization_def op_catch_def)
  from fleet_requires_session [OF this] show ?thesis by fastforce
qed

theorem create_pairing_code_scoped_witness:
  "\<exists>row. t_pairing (snd (createPairingCode sample_api ''00'' demo_hmac [] 900000 Suc ''c2'' 0 0 \<lparr>cpq_nodeName = ''mac''\<rparr> () demo_db))
       = t_pairing demo_db @ [row] \<and> p_orgId row = ''org_a'' \<and> p_codeHash row = ''BCDEFGHJ''"
proof -
  let ?ctx = "\<lparr>sc_userId = ''user_1'', sc_orgId = ''org_a'', sc_user = sample_user\<rparr>"
  have s: "fleet_session sample_api ''00'' () demo_db = (Inr ?ctx, demo_db)"
    by (simp add: fleet_session_def requireSession_def sample_api_def sample_user_def op_catch_def)
  have c: "createPairingCode sample_api ''00'' demo_hmac [] 900000 Suc ''c2'' 0 0 \<lparr>cpq_nodeName = ''mac''\<rparr> () demo_db
      = (Inr \<lparr>cpr_code = ''BCDE-FGHJ'', cpr_expiresAtUnixMs = 900000\<rparr>, demo_db\<lparr>t_pairing := [demo_code, demo_minted]\<rparr>)"
    using s by (simp add: createPairingCode_def demo_mint op_bind_def to_bigint_def BigInt_def)
  have h: "hashCode demo_hmac [] ''BCDE-FGHJ'' = ''BCDEFGHJ''" by code_simp
  obtain row where row: "demo_db\<lparr>t_pairing := [demo_code, demo_minted]\<rparr> = demo_db\<lparr>t_pairing := t_pairing demo_db @ [row]\<rparr>"
    "p_orgId row = ''org_a''" "p_codeHash row = hashCode demo_hmac [] ''BCDE-FGHJ''"
    using create_pairing_code_scoped [OF s c] by auto
  have "[demo_code, demo_minted] = t_pairing demo_db @ [row]"
    using arg_cong [OF row(1), where f = t_pairing] by simp
  then show ?thesis using c h row(2,3) by (intro exI [of _ row]) simp
qed

end
