(* ===== verification/End_To_End.thy ===== *)
theory End_To_End
  imports History Fleet_Service
begin

text \<open>
  From the pairing code to the fleet page: the calls that \<open>e2e/smoke.test.ts\<close> makes, in their order and
  for any inputs. A signed-in user creates a pairing code (\<open>rpc/fleet-service.ts\<close>), a machine enrolls
  with it (\<open>rpc/node-service.ts\<close>, \<open>domain/pairing.ts\<close>, \<open>domain/nodes.ts\<close>), its agent connects and reports
  (\<open>rpc/node-auth.ts\<close>), and the user's organization lists its nodes.
\<close>

section \<open>Enrolling with a code just created\<close>

lemma enroll_new:
  assumes "wf_db s" and "enroll OwnerConn hmac pepper claimed checked fresh created req s = (Inr resp, s')"
  shows "\<exists>org nm t. redeemPairingCode OwnerConn hmac pepper claimed checked (er_pairingCode req) s = (Inr (org, nm), t)
     \<and> ers_orgId resp = org \<and> ers_nodeId resp = fresh
     \<and> s' = t\<lparr>t_nodes := t_nodes s @ [new_node fresh created org nm (enroll_input_of req)]\<rparr>
     \<and> t_devices t = t_devices s \<and> wf_db s'"
proof -
  let ?in = "enroll_input_of req"
  have en: "enrollNode OwnerConn hmac pepper claimed checked fresh created ?in s = (Inr resp, s')"
    using assms(2)
    by (auto simp: enroll_def op_catch_def split: prod.splits sum.splits error.splits)
  have k: "keeps wf_db (enrollNode OwnerConn hmac pepper claimed checked fresh created ?in)"
    by (rule wf_enroll) (simp add: enroll_input_of_def)
  have wf: "wf_db s'" using keepsD [OF k assms(1) en] .
  have code: "ei_pairingCode ?in = er_pairingCode req" by (simp add: enroll_input_of_def)
  obtain org nm t where red: "redeemPairingCode OwnerConn hmac pepper claimed checked (er_pairingCode req) s = (Inr (org, nm), t)"
    and res: "resp = \<lparr>ers_nodeId = fresh, ers_orgId = org, ers_orgName = org_name org s\<rparr>"
      "s' = t\<lparr>t_nodes := t_nodes s @ [new_node fresh created org nm ?in]\<rparr>"
    using en enroll_outcomes [OF assms(1), of hmac pepper claimed checked fresh created ?in]
    by (auto simp: code split: if_splits sum.splits prod.splits)
  then show ?thesis using redeem_state [OF assms(1) red] wf by auto
qed

lemma code_enrolls:
  assumes "wf_db s" and "fleet_session api hex headers s0 = (Inr ctx, s)"
    and "createPairingCode api hex hmac pepper ttl ri f c now creq headers s0 = (Inr cresp, s1)"
    and "toLowerCase (filter (\<lambda>x. \<not> separator x) (er_pairingCode req)) = toLowerCase (filter (\<lambda>x. \<not> separator x) (cpr_code cresp))"
    and "enroll OwnerConn hmac pepper claimed checked fresh created req s1 = (Inr resp, s2)"
  shows "wf_db s2 \<and> t_devices s2 = t_devices s
     \<and> t_nodes s2 = t_nodes s @ [new_node fresh created (sc_orgId ctx) (cpq_nodeName creq) (enroll_input_of req)]
     \<and> ers_nodeId resp = fresh \<and> ers_orgId resp = sc_orgId ctx"
proof -
  obtain e where mint: "mintPairingCode hmac pepper ttl ri f c now (sc_orgId ctx) (sc_userId ctx) (cpq_nodeName creq) s
      = (Inr (cpr_code cresp, e), s1)"
    using create_mints [OF assms(2,3)] by blast
  have s1: "wf_db s1" using keepsD [OF wf_mint assms(1) mint] .
  have same: "t_nodes s1 = t_nodes s" "t_devices s1 = t_devices s" using mint_result(4) [OF mint] by simp_all
  obtain org nm t where en: "redeemPairingCode OwnerConn hmac pepper claimed checked (er_pairingCode req) s1 = (Inr (org, nm), t)"
    "ers_orgId resp = org" "ers_nodeId resp = fresh" "wf_db s2" "t_devices t = t_devices s1"
    "s2 = t\<lparr>t_nodes := t_nodes s1 @ [new_node fresh created org nm (enroll_input_of req)]\<rparr>"
    using enroll_new [OF s1 assms(5)] by blast
  have "org = sc_orgId ctx \<and> nm = cpq_nodeName creq"
    using mint_redeem [OF assms(1) mint assms(4), of claimed checked] en(1) by (simp split: if_splits)
  then show ?thesis using en same by simp
qed

section \<open>Hello, inventory and samples on a new node\<close>

lemma three_messages:
  assumes "op_for [m1, m2, m3] f s = (Inr (), t)"
  obtains s1 s2 where "f m1 s = (Inr (), s1)" "f m2 s1 = (Inr (), s2)" "f m3 s2 = (Inr (), t)"
  using assms by (auto elim!: op_bind_success)

text \<open>The row of a node after these three messages, and what is stored of a device.\<close>

definition reported_node :: "host_columns \<Rightarrow> millis \<Rightarrow> node_row \<Rightarrow> node_row" where
  "reported_node host sampled n = (set_host host n)\<lparr>n_status := ''online'', n_lastSeenAt := Some sampled\<rparr>"

definition stored_report :: "device list \<Rightarrow> device_sample list \<Rightarrow> device_row \<Rightarrow> bool" where
  "stored_report reported samples d \<longleftrightarrow>
     map_option reported_facts (last_report (d_localId d) reported) = Some (device_facts d)
     \<and> (case last_sample (d_localId d) samples of
          None \<Rightarrow> telemetry d = no_telemetry
        | Some x \<Rightarrow> d_lastUsedBytes d = uint (s_usedBytes x) \<and> d_lastManagedBytes d = uint (s_managedBytes x)
            \<and> d_lastSampleAt d = Some (sampled_at x) \<and> \<not> d_interactive d)"

lemma hello_devices: "preserves t_devices (markNodeOnline now org nid host)"
proof -
  have "preserves t_devices (on_nodes st)" for st :: "node_row list \<Rightarrow> pg_error + node_row list \<times> node_row list"
    by (auto simp: preserves_def on_table_def split: sum.split)
  then show ?thesis
    unfolding markNodeOnline_def withOrg_def
    by (intro preserves_transaction preserves_bind preserves_pg_check preserves_return)
qed

lemma reports_stored:
  assumes "wf_db s" and "n \<in> set (t_nodes s)" and "n_orgId n = org" and "toLowerCase nid = n_id n" and "isUuid nid"
    and "\<forall>d \<in> set (t_devices s). d_nodeId d \<noteq> n_id n"
    and "op_for [m1, m2, m3] (handle_message org nid) s = (Inr (), t)"
    and "rc_payload m1 = Hello h" and "rc_payload m2 = Inventory rep" and "rc_payload m3 = Samples b"
  shows "wf_db t
     \<and> t_nodes t = map (\<lambda>x. if n_orgId x = org \<and> n_id x = n_id n
         then reported_node ((hostColumns (hello_host h))\<lparr>hc_agentVersion := hello_agentVersion h\<rparr>) (rc_now m3) x else x) (t_nodes s)
     \<and> (\<forall>lid. device_at t (n_id n) lid \<noteq> None \<longleftrightarrow> last_report lid (ir_devices rep) \<noteq> None)
     \<and> (\<forall>d \<in> set (t_devices t). d_nodeId d = n_id n \<longrightarrow> stored_report (ir_devices rep) (sb_samples b) d)"
proof -
  let ?host = "(hostColumns (hello_host h))\<lparr>hc_agentVersion := hello_agentVersion h\<rparr>"
  obtain s1 s2 where st: "handle_message org nid m1 s = (Inr (), s1)" "handle_message org nid m2 s1 = (Inr (), s2)"
    "handle_message org nid m3 s2 = (Inr (), t)"
    using assms(7) by (rule three_messages)
  have on: "markNodeOnline (rc_now m1) org nid ?host s = (Inr (), s1)"
    and inv: "recordInventory (rc_fresh m2) (rc_now m2) org nid (ir_devices rep) s1 = (Inr (), s2)"
    and smp: "recordSamples (rc_now m3) org nid (sb_samples b) s2 = (Inr (), t)"
    using st assms(8-10) by (simp_all add: handle_message_def)
  have own: "wf_db s \<and> has_node org (toLowerCase nid) s" using assms(1-4) by (auto simp: has_node_def)
  have own1: "wf_db s1 \<and> has_node org (toLowerCase nid) s1" using keepsD [OF wf_message own st(1)] .
  have own2: "wf_db s2 \<and> has_node org (toLowerCase nid) s2" using keepsD [OF wf_message own1 st(2)] .
  have own3: "wf_db t \<and> has_node org (toLowerCase nid) t" using keepsD [OF wf_message own2 st(3)] .
  note owns1 = has_node_owns [OF conjunct1 [OF own1] conjunct2 [OF own1]]
  note owns2 = has_node_owns [OF conjunct1 [OF own2] conjunct2 [OF own2]]
  have "t_nodes s2 = t_nodes s1" using preservesD [OF preserves_t_nodes_inventory inv] .
  then have nodes: "t_nodes t = map (\<lambda>x. if n_orgId x = org \<and> n_id x = n_id n
         then reported_node ?host (rc_now m3) x else x) (t_nodes s)"
    using hello_rows [OF on] samples_rows [OF smp] assms(4) by (simp add: reported_node_def)
  have none: "device_at s1 (n_id n) lid = None" for lid
    using preservesD [OF hello_devices on] assms(6) by (auto simp: row_at_None)
  note inv_rows = inventory_rows [OF conjunct1 [OF own1] owns1 inv, unfolded assms(4) none]
  have facts: "map_option device_facts (device_at s2 (n_id n) lid) = map_option reported_facts (last_report lid (ir_devices rep))"
    and fresh: "device_at s2 (n_id n) lid = Some d \<Longrightarrow> telemetry d = no_telemetry" for lid d
    using inv_rows [of lid] by simp_all
  have dev: "device_at t (n_id n) lid = map_option (\<lambda>d. case last_sample lid (sb_samples b) of None \<Rightarrow> d
      | Some x \<Rightarrow> set_sample x (sampled_at x) d) (device_at s2 (n_id n) lid)" for lid
    using samples_applied [OF conjunct1 [OF own2] owns2 assms(5), of "sb_samples b" "rc_now m3"] smp assms(4)
    by (auto split: if_splits)
  have "device_at t (n_id n) lid \<noteq> None \<longleftrightarrow> last_report lid (ir_devices rep) \<noteq> None" for lid
    using facts [of lid] by (cases "last_report lid (ir_devices rep)") (auto simp: dev)
  moreover have "stored_report (ir_devices rep) (sb_samples b) d" if d: "d \<in> set (t_devices t)" "d_nodeId d = n_id n" for d
  proof -
    have at: "device_at t (n_id n) (d_localId d) = Some d"
      using row_at_unique [OF wf_dbD(4) [OF conjunct1 [OF own3]] d(1)] d(2) by simp
    then obtain d2 where d2: "device_at s2 (n_id n) (d_localId d) = Some d2"
      "d = (case last_sample (d_localId d) (sb_samples b) of None \<Rightarrow> d2 | Some x \<Rightarrow> set_sample x (sampled_at x) d2)"
      unfolding dev by auto
    have "device_facts d = device_facts d2" by (subst d2(2)) (simp add: device_facts_def set_sample_def split: option.split)
    moreover have "case last_sample (d_localId d) (sb_samples b) of None \<Rightarrow> telemetry d = no_telemetry
        | Some x \<Rightarrow> d_lastUsedBytes d = uint (s_usedBytes x) \<and> d_lastManagedBytes d = uint (s_managedBytes x)
            \<and> d_lastSampleAt d = Some (sampled_at x) \<and> \<not> d_interactive d"
      using fresh [OF d2(1)] d2(2)
      by (auto simp: set_sample_def telemetry_def no_telemetry_def split: option.splits)
    ultimately show ?thesis using facts [of "d_localId d"] d2(1) by (simp add: stored_report_def)
  qed
  ultimately show ?thesis using nodes own3 by blast
qed

section \<open>On the page\<close>

lemma set_host_view:
  "\<lparr>hc_hostname = n_hostname (set_host h n), hc_platform = n_platform (set_host h n), hc_arch = n_arch (set_host h n),
     hc_osVersion = n_osVersion (set_host h n), hc_agentVersion = n_agentVersion (set_host h n),
     hc_totalMemoryBytes = n_totalMemoryBytes (set_host h n), hc_cpuCores = n_cpuCores (set_host h n)\<rparr> = h"
  by (simp add: set_host_def)

lemma reported_view:
  assumes "nodeView (reported_node host sampled n) ds = Inr v"
  shows "nv_id v = n_id n \<and> nv_name v = n_name n \<and> nv_status v = ''online'' \<and> nv_lastSeenUnixMs v = sampled \<and> nv_host v = Some host"
  using assms by (auto simp: nodeView_def reported_node_def set_host_view to_bigint_def split: sum.splits)
    (simp_all add: set_host_def)

lemma list_all2_partner: "list_all2 P xs ys \<Longrightarrow> x \<in> set xs \<Longrightarrow> \<exists>y \<in> set ys. P x y"
  by (induction rule: list_all2_induct) auto

lemma device_views:
  assumes "list_all2 (\<lambda>d w. deviceView d = Inr w) ds ws"
  shows "dv_localId ` set ws = d_localId ` set ds" and "w \<in> set ws \<Longrightarrow> \<exists>d \<in> set ds. deviceView d = Inr w"
proof -
  have lid: "dv_localId w = d_localId d" if "deviceView d = Inr w" for d w
    using that by (auto simp: deviceView_def split: sum.splits list.splits)
  show "w \<in> set ws \<Longrightarrow> \<exists>d \<in> set ds. deviceView d = Inr w"
    using assms unfolding list_all2_conv_all_nth by (metis in_set_conv_nth)
  have "map dv_localId ws = map d_localId ds"
    using assms lid by (auto simp: list_all2_conv_all_nth intro!: nth_equalityI)
  then show "dv_localId ` set ws = d_localId ` set ds" by (metis set_map)
qed

lemma connect_accepted:
  assumes "connect ck vf b64 redis_set OwnerConn skew interval checked stored header ms (s, r) = (out, Inr (), t, r')"
  shows "\<exists>nid org. out = [HelloAck \<lparr>ha_nodeId = nid, ha_sampleIntervalMs = interval\<rparr>] \<and> isUuid nid
     \<and> (\<exists>n \<in> set (t_nodes s). n_id n = toLowerCase nid \<and> n_orgId n = org)
     \<and> op_for ms (handle_message org nid) s = (Inr (), t)"
proof -
  obtain x r1 where a: "authenticateNode ck vf b64 redis_set OwnerConn skew checked stored s header r = (x, r1)"
    by (cases "authenticateNode ck vf b64 redis_set OwnerConn skew checked stored s header r")
  obtain nid org where x: "x = Inr (nid, org)"
    using assms a by (cases x) (auto simp: connect_def split: prod.splits)
  have "isUuid nid \<and> (\<exists>n \<in> set (t_nodes s). n_id n = toLowerCase nid \<and> n_orgId n = org)"
    using a [unfolded x] by (rule authenticate_success) blast
  moreover have "out = [HelloAck \<lparr>ha_nodeId = nid, ha_sampleIntervalMs = interval\<rparr>]"
    "op_for ms (handle_message org nid) s = (Inr (), t)"
    using assms a x by (auto simp: connect_def split: prod.splits)
  ultimately show ?thesis by blast
qed

text \<open>(C5) From the code to the page. A user creates a code, a machine enrolls with it in whatever spelling,
  its agent is let in as that node and reports itself, its devices and a first batch of samples: then
  the user's organization sees one node more than before, under the name given at enrollment or with
  the code, online, last heard of when the samples came, on the host it reported, and with exactly
  the devices it last reported under a known kind, each shown with the budget of the reported facts
  and of its latest sample.\<close>

theorem code_to_fleet_page:
  assumes "wf_db s" and "fleet_session api hex headers s0 = (Inr ctx, s)"
    and "createPairingCode api hex hmac pepper ttl ri f c now creq headers s0 = (Inr cresp, s1)"
    and "toLowerCase (filter (\<lambda>x. \<not> separator x) (er_pairingCode req)) = toLowerCase (filter (\<lambda>x. \<not> separator x) (cpr_code cresp))"
    and "enroll OwnerConn hmac pepper claimed checked fresh created req s1 = (Inr eresp, s2)"
    and "connect ck vf b64 redis_set OwnerConn skew interval arrived stored header [m1, m2, m3] (s2, r)
       = ([HelloAck ack], Inr (), s3, r')"
    and "toLowerCase (ha_nodeId ack) = ers_nodeId eresp"
    and "rc_payload m1 = Hello h" and "rc_payload m2 = Inventory rep" and "rc_payload m3 = Samples b"
    and "fleet_session api hex headers s3 = (Inr ctx', s3)" and "sc_orgId ctx' = sc_orgId ctx"
  shows "\<exists>views v. listNodes api hex collate headers s3 = (Inr \<lparr>lnr_nodes = views\<rparr>, s3) \<and> v \<in> set views
     \<and> length views = Suc (length (filter (\<lambda>n. n_orgId n = sc_orgId ctx) (t_nodes s)))
     \<and> nv_id v = ers_nodeId eresp \<and> nv_name v = node_name (enroll_input_of req) (cpq_nodeName creq)
     \<and> nv_status v = ''online'' \<and> nv_lastSeenUnixMs v = rc_now m3
     \<and> nv_host v = Some ((hostColumns (hello_host h))\<lparr>hc_agentVersion := hello_agentVersion h\<rparr>)
     \<and> (\<forall>lid. lid \<in> dv_localId ` set (nv_devices v) \<longleftrightarrow> last_report lid (ir_devices rep) \<noteq> None)
     \<and> (\<forall>w \<in> set (nv_devices v). \<exists>d. deviceView d = Inr w \<and> stored_report (ir_devices rep) (sb_samples b) d)"
proof -
  let ?org = "sc_orgId ctx" and ?n = "new_node fresh created (sc_orgId ctx) (cpq_nodeName creq) (enroll_input_of req)"
  let ?host = "(hostColumns (hello_host h))\<lparr>hc_agentVersion := hello_agentVersion h\<rparr>"
  have en: "wf_db s2" "t_devices s2 = t_devices s" "t_nodes s2 = t_nodes s @ [?n]" "ers_nodeId eresp = fresh"
    using code_enrolls [OF assms(1-5)] by simp_all
  have n: "?n \<in> set (t_nodes s2)" "n_id ?n = fresh" "n_orgId ?n = ?org" using en(3) by (simp_all add: new_node_def Let_def)
  obtain org where con: "isUuid (ha_nodeId ack)" "\<exists>m \<in> set (t_nodes s2). n_id m = toLowerCase (ha_nodeId ack) \<and> n_orgId m = org"
    "op_for [m1, m2, m3] (handle_message org (ha_nodeId ack)) s2 = (Inr (), s3)"
  proof -
    obtain nid org where "[HelloAck ack] = [HelloAck \<lparr>ha_nodeId = nid, ha_sampleIntervalMs = interval\<rparr>]" "isUuid nid"
      "\<exists>m \<in> set (t_nodes s2). n_id m = toLowerCase nid \<and> n_orgId m = org"
      "op_for [m1, m2, m3] (handle_message org nid) s2 = (Inr (), s3)"
      using connect_accepted [OF assms(6)] by blast
    moreover from this(1) have "nid = ha_nodeId ack" by simp
    ultimately show thesis using that [of org] by simp
  qed
  have "org = ?org" using con(2) wf_node_unique [OF en(1) n(1)] n(2,3) assms(7) en(4) by metis
  note msgs = con(3) [unfolded this]
  have "fresh \<notin> n_id ` set (t_nodes s)" using wf_dbD(1) [OF en(1)] n(2) unfolding en(3) by simp
  then have "\<forall>d \<in> set (t_devices s2). d_nodeId d \<noteq> n_id ?n"
    using wf_dbD(8) [OF assms(1)] n(2) unfolding en(2) by force
  from reports_stored [OF en(1) n(1,3) _ con(1) this msgs assms(8-10)] assms(7)
  have t: "wf_db s3" "t_nodes s3 = map (\<lambda>x. if n_orgId x = ?org \<and> n_id x = n_id ?n
        then reported_node ?host (rc_now m3) x else x) (t_nodes s2)"
    "\<And>lid. device_at s3 (n_id ?n) lid \<noteq> None \<longleftrightarrow> last_report lid (ir_devices rep) \<noteq> None"
    "\<And>d. d \<in> set (t_devices s3) \<Longrightarrow> d_nodeId d = n_id ?n \<Longrightarrow> stored_report (ir_devices rep) (sb_samples b) d"
    using n(2) en(4) by simp_all
  let ?n3 = "reported_node ?host (rc_now m3) ?n"
  have n3: "?n3 \<in> set (t_nodes s3)" "n_orgId ?n3 = ?org" "n_id ?n3 = fresh"
    using n by (force simp: t(2) reported_node_def, simp_all add: reported_node_def)
  obtain views where views: "list_in collate ?org s3 = (Inr views, s3)"
    "list_all2 (\<lambda>n v. nodeView n (devices_of collate n s3) = Inr v \<and> nv_id v = n_id n
        \<and> list_all2 (\<lambda>d w. deviceView d = Inr w) (devices_of collate n s3) (nv_devices v))
      (sort_key (collate \<circ> n_name) (filter (\<lambda>n. n_orgId n = ?org) (t_nodes s3))) views"
    using list_rows [OF t(1), of collate ?org] by blast
  have in3: "?n3 \<in> set (sort_key (collate \<circ> n_name) (filter (\<lambda>n. n_orgId n = ?org) (t_nodes s3)))" using n3(1,2) by simp
  obtain v where v: "v \<in> set views" "nodeView ?n3 (devices_of collate ?n3 s3) = Inr v"
    "list_all2 (\<lambda>d w. deviceView d = Inr w) (devices_of collate ?n3 s3) (nv_devices v)"
    using list_all2_partner [OF views(2) in3] by blast
  have devs: "set (devices_of collate ?n3 s3) = {d \<in> set (t_devices s3). d_nodeId d = n_id ?n}"
    using n(2) n3(3) by (auto simp: devices_of_def)
  have len: "length views = Suc (length (filter (\<lambda>n. n_orgId n = ?org) (t_nodes s)))"
  proof -
    have "length views = length (filter (\<lambda>n. n_orgId n = ?org) (t_nodes s3))"
      using list_all2_lengthD [OF views(2)] by simp
    also have "\<dots> = length (filter (\<lambda>n. n_orgId n = ?org) (t_nodes s2))"
    proof -
      have "n_orgId (reported_node ?host (rc_now m3) x) = n_orgId x" for x by (simp add: reported_node_def)
      then have "(\<lambda>n. n_orgId n = ?org) \<circ> (\<lambda>x. if n_orgId x = ?org \<and> n_id x = n_id ?n
          then reported_node ?host (rc_now m3) x else x) = (\<lambda>n. n_orgId n = ?org)" by (auto simp: fun_eq_iff)
      then show ?thesis unfolding t(2) filter_map by simp
    qed
    also have "\<dots> = Suc (length (filter (\<lambda>n. n_orgId n = ?org) (t_nodes s)))" using n(3) by (simp add: en(3))
    finally show ?thesis .
  qed
  have lids: "lid \<in> dv_localId ` set (nv_devices v) \<longleftrightarrow> last_report lid (ir_devices rep) \<noteq> None" for lid
    unfolding device_views(1) [OF v(3)] devs t(3) [symmetric] row_at_None by auto
  have "\<exists>d. deviceView d = Inr w \<and> stored_report (ir_devices rep) (sb_samples b) d" if "w \<in> set (nv_devices v)" for w
    using device_views(2) [OF v(3) that] t(4) unfolding devs by blast
  then have devices: "\<forall>w \<in> set (nv_devices v). \<exists>d. deviceView d = Inr w \<and> stored_report (ir_devices rep) (sb_samples b) d"
    by blast
  have listed: "listNodes api hex collate headers s3 = (Inr \<lparr>lnr_nodes = views\<rparr>, s3)"
    using assms(11,12) views(1) by (simp add: listNodes_def)
  have "n_name ?n = node_name (enroll_input_of req) (cpq_nodeName creq)" by (simp add: new_node_def Let_def)
  then have "nv_id v = ers_nodeId eresp" "nv_name v = node_name (enroll_input_of req) (cpq_nodeName creq)"
    "nv_status v = ''online''" "nv_lastSeenUnixMs v = rc_now m3" "nv_host v = Some ?host"
    using reported_view [OF v(2)] n(2) en(4) by simp_all
  with listed v(1) len lids devices show ?thesis by blast
qed

section \<open>One machine from its code to the page\<close>

definition typed_request :: enroll_request where
  "typed_request = demo_request\<lparr>er_pairingCode := ''bc de fghj''\<rparr>"

definition paired_node :: node_row where
  "paired_node = new_node demo_id 2000 ''org_a'' ''mac'' (enroll_input_of typed_request)"

definition paired_db :: db where
  "paired_db = demo_db\<lparr>t_nodes := [paired_node], t_pairing := [demo_code, demo_minted\<lparr>p_usedAt := Some 1000\<rparr>]\<rparr>"

definition first_messages :: "received list" where
  "first_messages =
     [\<lparr>rc_now = 50002, rc_fresh = demo_fresh, rc_payload = Hello \<lparr>hello_agentVersion = ''0.1'', hello_host = None\<rparr>\<rparr>,
      \<lparr>rc_now = 50003, rc_fresh = demo_fresh, rc_payload = Inventory \<lparr>ir_devices = demo_report\<rparr>\<rparr>,
      \<lparr>rc_now = 50004, rc_fresh = demo_fresh, rc_payload = Samples \<lparr>sb_samples = [demo_sample]\<rparr>\<rparr>]"

lemma paired_fields [simp]: "n_id paired_node = demo_id" "n_orgId paired_node = ''org_a''" "n_publicKey paired_node = replicate 32 7"
  by (simp_all add: paired_node_def new_node_def Let_def enroll_input_of_def typed_request_def demo_request_def)

lemma minted_wf: "wf_db (demo_db\<lparr>t_pairing := [demo_code, demo_minted]\<rparr>)"
  using keepsD [OF wf_mint demo_wf demo_mint] .

lemma typed_redeem:
  "redeemPairingCode OwnerConn demo_hmac [] 1000 1000 ''bc de fghj'' (demo_db\<lparr>t_pairing := [demo_code, demo_minted]\<rparr>)
     = (Inr (''org_a'', ''mac''), demo_db\<lparr>t_pairing := [demo_code, demo_minted\<lparr>p_usedAt := Some 1000\<rparr>]\<rparr>)"
proof -
  have h: "hashCode demo_hmac [] ''bc de fghj'' = ''BCDEFGHJ''" by code_simp
  show ?thesis
    using redeem_cases [OF minted_wf h [symmetric], of 1000 1000]
    by (simp add: set_used_def demo_code_def demo_minted_def)
qed

lemma typed_enroll:
  "enroll OwnerConn demo_hmac [] 1000 1000 demo_id 2000 typed_request (demo_db\<lparr>t_pairing := [demo_code, demo_minted]\<rparr>)
     = (Inr \<lparr>ers_nodeId = demo_id, ers_orgId = ''org_a'', ers_orgName = ''Fleet''\<rparr>, paired_db)"
proof -
  have "node_columns paired_node = Inr ()" by code_simp
  moreover have "length (ei_publicKey (enroll_input_of typed_request)) = 32"
    "ei_pairingCode (enroll_input_of typed_request) = ''bc de fghj''"
    by (simp_all add: enroll_input_of_def typed_request_def demo_request_def)
  moreover have "org_name ''org_a'' (demo_db\<lparr>t_pairing := [demo_code, demo_minted]\<rparr>) = ''Fleet''" "t_nodes demo_db = []"
    by (simp_all add: org_name_def demo_db_def demo_org_def)
  ultimately show ?thesis
    using enroll_outcomes [OF minted_wf, of demo_hmac "[]" 1000 1000 demo_id 2000 "enroll_input_of typed_request"]
    by (simp add: enroll_def op_catch_def typed_redeem paired_db_def flip: paired_node_def)
qed

lemma paired_wf: "wf_db paired_db"
  using enroll_new [OF minted_wf typed_enroll] by blast

lemma paired_auth:
  "authenticateNode Some sample_verify sample_base64 px_set OwnerConn 60000 50000 50001 paired_db (Some sample_header) []
     = (Inr (demo_id, ''org_a''), [(nonce_key demo_id ''n1'', 50001 + 120000)])"
proof -
  have "authenticateNode Some sample_verify sample_base64 px_set OwnerConn 60000 50000 50001 paired_db
      (Some (auth_header demo_id ''60000'' ''n1'' ''sig'')) []
    = (Inr (demo_id, n_orgId paired_node), [(nonce_key demo_id ''n1'', 50001 + 120000)])"
  proof (rule authenticate_accepts [OF paired_wf, where t = 60000 and key = "SPKI_ED25519_PREFIX @ n_publicKey paired_node"])
    show "isUuid demo_id" "toLowerCase demo_id = n_id paired_node"
      "CHR ''.'' \<notin> set demo_id \<union> set ''60000'' \<union> set ''n1'' \<union> set ''sig''"
      using demo_id_uuid by simp_all code_simp
    show "\<bar>js_sub (of_int 50000) 60000\<bar> \<le> 60000" using sample_sub [of 50000] by simp
    have "js_mul 60000 2 = 120000" using fl_of_int [of 120000] by (simp add: js_mul_def)
    moreover have "BigInt 120000 = Some 120000" using BigInt_of_int [of 120000] by simp
    ultimately show "px_set 50001 (nonce_key demo_id ''n1'') ''1'' (js_mul 60000 2) [] =
      (Inr (Some ''OK''), [(nonce_key demo_id ''n1'', 50001 + 120000)])"
      by (simp add: px_set_def px_live_def)
  qed (simp_all add: paired_db_def sample_number toKeyObject_def sample_verify_def sample_base64_def)
  moreover have "sample_header = auth_header demo_id ''60000'' ''n1'' ''sig''"
    by (simp add: sample_header_def auth_node_def demo_id_def)
  ultimately show ?thesis by simp
qed

text \<open>The three messages are all stored: the host and the batch fit their columns, and so do the devices.\<close>

lemma hello_stored:
  assumes "isUuid nid" and "host_checks host = Inr ()"
  shows "\<exists>t. markNodeOnline now org nid host s = (Inr (), t)"
  using assms by (simp add: markNodeOnline_def withOrg_def transaction_def bind_check uuid_in_def on_table_def
      sql_update_def op_bind_def op_return_def Let_def list_all_iff pg_check_def org_isolation_def)

lemma first_stored: "\<exists>t. op_for first_messages (handle_message ''org_a'' demo_id) paired_db = (Inr (), t)"
proof -
  let ?m = "\<lambda>k. first_messages ! k"
  let ?st = "\<lambda>s. wf_db s \<and> has_node ''org_a'' (toLowerCase demo_id) s"
  have s0: "?st paired_db" using paired_wf by (simp add: has_node_def paired_db_def demo_id_uuid)
  have "host_checks ((hostColumns None)\<lparr>hc_agentVersion := ''0.1''\<rparr>) = Inr ()" by code_simp
  then obtain s1 where s1: "handle_message ''org_a'' demo_id (?m 0) paired_db = (Inr (), s1)"
    using hello_stored [OF demo_id_uuid(1)] by (fastforce simp: first_messages_def handle_message_def)
  have w1: "?st s1" using keepsD [OF wf_message s0 s1] .
  have "t_devices s1 = t_devices paired_db"
    using s1 preservesD [OF hello_devices] by (auto simp: first_messages_def handle_message_def)
  then have "ready demo_fresh ''org_a'' (toLowerCase demo_id) 0 s1"
    using w1 by (simp add: ready_def has_node_def paired_db_def demo_db_def)
  from inventory_returns [OF this demo_ready(2) demo_id_uuid(1) demo_checks]
  obtain s2 where s2: "handle_message ''org_a'' demo_id (?m 1) s1 = (Inr (), s2)"
    by (fastforce simp: first_messages_def handle_message_def)
  have w2: "?st s2" using keepsD [OF wf_message w1 s2] .
  have "\<forall>x \<in> set [demo_sample]. sample_fits x" using demo_sample_fits by simp
  then obtain s3 where s3: "handle_message ''org_a'' demo_id (?m 2) s2 = (Inr (), s3)"
    using samples_applied [OF conjunct1 [OF w2] has_node_owns [OF conjunct1 [OF w2] conjunct2 [OF w2]] demo_id_uuid(1),
        of "[demo_sample]" 50004]
    by (fastforce simp: first_messages_def handle_message_def)
  have "op_for [?m 0, ?m 1, ?m 2] (handle_message ''org_a'' demo_id) paired_db = (Inr (), s3)"
    using s1 s2 s3 by (simp add: op_bind_def)
  moreover have "[?m 0, ?m 1, ?m 2] = first_messages" by (simp add: first_messages_def)
  ultimately show ?thesis by metis
qed

lemma first_connect:
  "\<exists>t. connect Some sample_verify sample_base64 px_set OwnerConn 60000 5000 50000 50001 (Some sample_header)
       first_messages (paired_db, [])
     = ([HelloAck \<lparr>ha_nodeId = demo_id, ha_sampleIntervalMs = 5000\<rparr>], Inr (), t, [(nonce_key demo_id ''n1'', 50001 + 120000)])"
  using first_stored by (auto simp: connect_def paired_auth)

lemma sample_signed_in:
  "fleet_session sample_api ''00'' () s = (Inr \<lparr>sc_userId = ''user_1'', sc_orgId = ''org_a'', sc_user = sample_user\<rparr>, s)"
  by (simp add: fleet_session_def requireSession_def sample_api_def sample_user_def op_catch_def)

lemma first_code:
  "createPairingCode sample_api ''00'' demo_hmac [] 900000 Suc ''c2'' 0 0 \<lparr>cpq_nodeName = ''mac''\<rparr> () demo_db
     = (Inr \<lparr>cpr_code = ''BCDE-FGHJ'', cpr_expiresAtUnixMs = 900000\<rparr>, demo_db\<lparr>t_pairing := [demo_code, demo_minted]\<rparr>)"
  using sample_signed_in [of demo_db] by (simp add: createPairingCode_def demo_mint op_bind_def to_bigint_def BigInt_def)

theorem code_to_fleet_page_witness:
  "\<exists>t views v. listNodes sample_api ''00'' by_length () t = (Inr \<lparr>lnr_nodes = views\<rparr>, t) \<and> views = [v]
     \<and> nv_id v = demo_id \<and> nv_name v = ''mac'' \<and> nv_status v = ''online'' \<and> nv_lastSeenUnixMs v = 50004
     \<and> ''cuda:0'' \<in> dv_localId ` set (nv_devices v) \<and> ''npu:0'' \<notin> dv_localId ` set (nv_devices v)"
proof -
  obtain t where c: "connect Some sample_verify sample_base64 px_set OwnerConn 60000 5000 50000 50001 (Some sample_header)
       [first_messages ! 0, first_messages ! 1, first_messages ! 2] (paired_db, [])
     = ([HelloAck \<lparr>ha_nodeId = demo_id, ha_sampleIntervalMs = 5000\<rparr>], Inr (), t, [(nonce_key demo_id ''n1'', 50001 + 120000)])"
    using first_connect by (auto simp: first_messages_def)
  have same: "toLowerCase (filter (\<lambda>c. \<not> separator c) (er_pairingCode typed_request))
      = toLowerCase (filter (\<lambda>c. \<not> separator c) (cpr_code \<lparr>cpr_code = ''BCDE-FGHJ'', cpr_expiresAtUnixMs = 900000\<rparr>))"
    by code_simp
  have m: "rc_payload (first_messages ! 0) = Hello \<lparr>hello_agentVersion = ''0.1'', hello_host = None\<rparr>"
    "rc_payload (first_messages ! 1) = Inventory \<lparr>ir_devices = demo_report\<rparr>"
    "rc_payload (first_messages ! 2) = Samples \<lparr>sb_samples = [demo_sample]\<rparr>" "rc_now (first_messages ! 2) = 50004"
    by (simp_all add: first_messages_def)
  have l: "last_report ''cuda:0'' demo_report \<noteq> None" "last_report ''npu:0'' demo_report = None"
    by (simp_all add: last_report_def demo_known) (simp_all add: demo_report_def)
  have nm: "node_name (enroll_input_of typed_request) ''mac'' = ''mac''"
    by (simp add: node_name_def enroll_input_of_def typed_request_def demo_request_def)
  have ack: "toLowerCase (ha_nodeId \<lparr>ha_nodeId = demo_id, ha_sampleIntervalMs = 5000\<rparr>)
      = ers_nodeId \<lparr>ers_nodeId = demo_id, ers_orgId = ''org_a'', ers_orgName = ''Fleet''\<rparr>"
    by (simp add: demo_id_uuid)
  obtain views v where p: "listNodes sample_api ''00'' by_length () t = (Inr \<lparr>lnr_nodes = views\<rparr>, t)" "v \<in> set views"
    "length views = Suc (length (filter (\<lambda>n. n_orgId n = ''org_a'') (t_nodes demo_db)))"
    "nv_id v = demo_id" "nv_name v = node_name (enroll_input_of typed_request) ''mac''" "nv_status v = ''online''"
    "nv_lastSeenUnixMs v = 50004" "\<And>lid. lid \<in> dv_localId ` set (nv_devices v) \<longleftrightarrow> last_report lid demo_report \<noteq> None"
    using code_to_fleet_page [OF demo_wf sample_signed_in first_code same typed_enroll c ack m(1-3) sample_signed_in refl,
        of by_length] m(4) by auto
  have "length views = 1" using p(3) by (simp add: demo_db_def)
  then have "views = [v]" using p(2) by (auto simp: length_Suc_conv)
  then show ?thesis using p(1,4-7) p(8) [of "''cuda:0''"] p(8) [of "''npu:0''"] l nm
    by (intro exI [of _ t] exI [of _ views] exI [of _ v] conjI) simp_all
qed

end
