(* ===== verification/Auth_Schema.thy ===== *)
theory Auth_Schema
  imports Fleet_Service Node_Auth
begin

text \<open>
  The tables Better Auth owns, \<open>packages/db/src/schema/auth.ts\<close>, and what the \<open>onDelete\<close> clauses of
  both schema files do when an organization, a user or a node is deleted. The statements that fill
  these tables are Better Auth's; here they matter for the foreign keys: what goes with a deleted
  row, and what stays although it names one.
\<close>

section \<open>The schema\<close>

record user_row =
  us_id :: string
  us_name :: string
  us_email :: string
  us_emailVerified :: bool
  us_image :: "string option"
  us_createdAt :: millis
  us_updatedAt :: millis

record session_row =
  ss_id :: string
  ss_expiresAt :: millis
  ss_token :: string
  ss_createdAt :: millis
  ss_updatedAt :: millis
  ss_ipAddress :: "string option"
  ss_userAgent :: "string option"
  ss_userId :: string
  ss_activeOrganizationId :: "string option"

record account_row =
  ac_id :: string
  ac_accountId :: string
  ac_providerId :: string
  ac_userId :: string
  ac_accessToken :: "string option"
  ac_refreshToken :: "string option"
  ac_idToken :: "string option"
  ac_accessTokenExpiresAt :: "millis option"
  ac_refreshTokenExpiresAt :: "millis option"
  ac_scope :: "string option"
  ac_password :: "string option"
  ac_createdAt :: millis
  ac_updatedAt :: millis

record verification_row =
  ve_id :: string
  ve_identifier :: string
  ve_value :: string
  ve_expiresAt :: millis
  ve_createdAt :: millis
  ve_updatedAt :: millis

record member_row =
  me_id :: string
  me_organizationId :: string
  me_userId :: string
  me_role :: string
  me_createdAt :: millis

record invitation_row =
  iv_id :: string
  iv_organizationId :: string
  iv_email :: string
  iv_role :: "string option"
  iv_status :: string
  iv_expiresAt :: millis
  iv_createdAt :: millis
  iv_inviterId :: string

text \<open>The whole schema: the tables of \<open>fleet.ts\<close> with the organizations, and Better Auth's.\<close>

record store =
  st_db :: db
  st_user :: "user_row list"
  st_session :: "session_row list"
  st_account :: "account_row list"
  st_verification :: "verification_row list"
  st_member :: "member_row list"
  st_invitation :: "invitation_row list"

text \<open>
  Inserting an organization; of its two unique indexes on the slug the constraint of the first
  migration is the one reported.
\<close>

definition insert_organization :: "organization_row \<Rightarrow> (db, error, unit) op" where
  "insert_organization row =
     (\<lambda>s. if o_id row \<in> set (map o_id (t_organization s)) then (Inl (PgError (Pg23505 ''organization_pkey'')), s)
          else if o_slug row \<in> set (map o_slug (t_organization s))
            then (Inl (PgError (Pg23505 ''organization_slug_unique'')), s)
          else (Inr (), s\<lparr>t_organization := t_organization s @ [row]\<rparr>))"

lemma wf_insert_organization [wf_intros]: "keeps wf_db (insert_organization row)"
  by (auto simp: keeps_def insert_organization_def wf_db_def wf_nodes_def wf_devices_def wf_pairing_def)

section \<open>Referential actions\<close>

text \<open>\<open>onDelete: "set null"\<close> of \<open>used_by_node_id\<close>, for the ids of the nodes that are gone.\<close>

definition unset_used_by :: "uuid list \<Rightarrow> pairing_row \<Rightarrow> pairing_row" where
  "unset_used_by gone p =
     (case p_usedByNodeId p of
        Some n \<Rightarrow> if n \<in> set gone then p\<lparr>p_usedByNodeId := None\<rparr> else p
      | None \<Rightarrow> p)"

text \<open>Deleting nodes takes their devices along.\<close>

definition delete_nodes :: "(node_row \<Rightarrow> bool) \<Rightarrow> db \<Rightarrow> db" where
  "delete_nodes P s =
     (let gone = map n_id (filter P (t_nodes s)) in
      s\<lparr>t_nodes := filter (\<lambda>n. \<not> P n) (t_nodes s),
        t_devices := filter (\<lambda>d. d_nodeId d \<notin> set gone) (t_devices s),
        t_pairing := map (unset_used_by gone) (t_pairing s)\<rparr>)"

definition delete_organization :: "string \<Rightarrow> store \<Rightarrow> store" where
  "delete_organization org st =
     (let s = delete_nodes (\<lambda>n. n_orgId n = org) (st_db st) in
      st\<lparr>st_db := s\<lparr>t_organization := filter (\<lambda>o1. o_id o1 \<noteq> org) (t_organization s),
           t_devices := filter (\<lambda>d. d_orgId d \<noteq> org) (t_devices s),
           t_pairing := filter (\<lambda>p. p_orgId p \<noteq> org) (t_pairing s)\<rparr>,
         st_member := filter (\<lambda>m. me_organizationId m \<noteq> org) (st_member st),
         st_invitation := filter (\<lambda>i. iv_organizationId i \<noteq> org) (st_invitation st)\<rparr>)"

definition delete_user :: "string \<Rightarrow> store \<Rightarrow> store" where
  "delete_user uid st =
     st\<lparr>st_user := filter (\<lambda>u. us_id u \<noteq> uid) (st_user st),
        st_session := filter (\<lambda>x. ss_userId x \<noteq> uid) (st_session st),
        st_account := filter (\<lambda>a. ac_userId a \<noteq> uid) (st_account st),
        st_member := filter (\<lambda>m. me_userId m \<noteq> uid) (st_member st),
        st_invitation := filter (\<lambda>i. iv_inviterId i \<noteq> uid) (st_invitation st)\<rparr>"

section \<open>Integrity of the whole schema\<close>

text \<open>
  Primary keys and unique columns; foreign keys; and for \<open>used_by_node_id\<close> the tenant rule the
  column is meant to satisfy.
\<close>

definition wf_keys :: "store \<Rightarrow> bool" where
  "wf_keys st \<longleftrightarrow> distinct (map o_id (t_organization (st_db st))) \<and> distinct (map o_slug (t_organization (st_db st)))
     \<and> distinct (map us_id (st_user st)) \<and> distinct (map us_email (st_user st))
     \<and> distinct (map ss_id (st_session st)) \<and> distinct (map ss_token (st_session st))
     \<and> distinct (map ac_id (st_account st)) \<and> distinct (map ve_id (st_verification st))
     \<and> distinct (map me_id (st_member st)) \<and> distinct (map iv_id (st_invitation st))"

definition wf_refs :: "store \<Rightarrow> bool" where
  "wf_refs st \<longleftrightarrow>
     (let users = set (map us_id (st_user st)); orgs = set (map o_id (t_organization (st_db st))) in
      (\<forall>x \<in> set (st_session st). ss_userId x \<in> users) \<and> (\<forall>a \<in> set (st_account st). ac_userId a \<in> users)
      \<and> (\<forall>m \<in> set (st_member st). me_userId m \<in> users \<and> me_organizationId m \<in> orgs)
      \<and> (\<forall>i \<in> set (st_invitation st). iv_inviterId i \<in> users \<and> iv_organizationId i \<in> orgs))"

definition wf_used_by :: "db \<Rightarrow> bool" where
  "wf_used_by s \<longleftrightarrow> (\<forall>p \<in> set (t_pairing s). \<forall>nid. p_usedByNodeId p = Some nid \<longrightarrow>
     (\<exists>n \<in> set (t_nodes s). n_id n = nid \<and> n_orgId n = p_orgId p))"

definition wf_store :: "store \<Rightarrow> bool" where
  "wf_store st \<longleftrightarrow> wf_db (st_db st) \<and> wf_used_by (st_db st) \<and> wf_keys st \<and> wf_refs st"

section \<open>Deleting an organization\<close>

text \<open>Under integrity a device goes with its node exactly when it goes with its organization.\<close>

lemma device_of_gone:
  assumes "wf_db s" and "d \<in> set (t_devices s)"
  shows "d_nodeId d \<in> set (map n_id (filter (\<lambda>n. n_orgId n = org) (t_nodes s))) \<longleftrightarrow> d_orgId d = org"
proof -
  obtain n where n: "n \<in> set (t_nodes s)" "n_id n = d_nodeId d" "n_orgId n = d_orgId d"
    using wf_dbD(8) [OF assms] by blast
  have same: "m = n" if "m \<in> set (t_nodes s)" "n_id m = d_nodeId d" for m
    using wf_node_unique [OF assms(1) that(1) n(1)] that(2) n(2) by simp
  show ?thesis
  proof
    assume "d_nodeId d \<in> set (map n_id (filter (\<lambda>n. n_orgId n = org) (t_nodes s)))"
    then obtain m where m: "m \<in> set (t_nodes s)" "n_orgId m = org" "n_id m = d_nodeId d" by auto
    then show "d_orgId d = org" using same [OF m(1,3)] n(3) by simp
  next
    assume "d_orgId d = org"
    then have "n \<in> set (filter (\<lambda>n. n_orgId n = org) (t_nodes s))" using n by simp
    then show "d_nodeId d \<in> set (map n_id (filter (\<lambda>n. n_orgId n = org) (t_nodes s)))"
      using n(2) by (metis image_eqI set_map)
  qed
qed

lemma unset_used_by_other:
  assumes "wf_db s" and "wf_used_by s" and "p \<in> set (t_pairing s)" and "p_orgId p \<noteq> org"
  shows "unset_used_by (map n_id (filter (\<lambda>n. n_orgId n = org) (t_nodes s))) p = p"
proof (cases "p_usedByNodeId p")
  case (Some nid)
  then obtain n where n: "n \<in> set (t_nodes s)" "n_id n = nid" "n_orgId n = p_orgId p"
    using assms(2,3) unfolding wf_used_by_def by blast
  have "n_orgId m \<noteq> org" if "m \<in> set (t_nodes s)" "n_id m = nid" for m
    using wf_node_unique [OF assms(1) that(1) n(1)] that(2) n(2,3) assms(4) by simp
  then show ?thesis using Some by (auto simp: unset_used_by_def)
qed (simp add: unset_used_by_def)

lemma unset_used_by_keys [simp]: "p_orgId (unset_used_by gone p) = p_orgId p"
  by (simp add: unset_used_by_def split: option.split)

lemma delete_organization_rows:
  assumes "wf_store st"
  shows "delete_organization org st =
     st\<lparr>st_db := st_db st\<lparr>t_organization := filter (\<lambda>o1. o_id o1 \<noteq> org) (t_organization (st_db st)),
          t_nodes := filter (\<lambda>n. n_orgId n \<noteq> org) (t_nodes (st_db st)),
          t_devices := filter (\<lambda>d. d_orgId d \<noteq> org) (t_devices (st_db st)),
          t_pairing := filter (\<lambda>p. p_orgId p \<noteq> org) (t_pairing (st_db st))\<rparr>,
        st_member := filter (\<lambda>m. me_organizationId m \<noteq> org) (st_member st),
        st_invitation := filter (\<lambda>i. iv_organizationId i \<noteq> org) (st_invitation st)\<rparr>"
proof -
  let ?s = "st_db st"
  let ?gone = "map n_id (filter (\<lambda>n. n_orgId n = org) (t_nodes ?s))"
  have wf: "wf_db ?s" "wf_used_by ?s" using assms by (simp_all add: wf_store_def)
  have dev: "filter (\<lambda>d. d_orgId d \<noteq> org) (filter (\<lambda>d. d_nodeId d \<notin> set ?gone) (t_devices ?s))
      = filter (\<lambda>d. d_orgId d \<noteq> org) (t_devices ?s)"
    unfolding filter_filter using device_of_gone [OF wf(1)] by (intro filter_cong) auto
  have "filter (\<lambda>p. p_orgId p \<noteq> org) (map (unset_used_by ?gone) (t_pairing ?s))
      = map (unset_used_by ?gone) (filter (\<lambda>p. p_orgId p \<noteq> org) (t_pairing ?s))"
    by (simp add: filter_map comp_def)
  also have "\<dots> = filter (\<lambda>p. p_orgId p \<noteq> org) (t_pairing ?s)"
    using unset_used_by_other [OF wf] by (intro map_idI) auto
  finally have pair: "filter (\<lambda>p. p_orgId p \<noteq> org) (map (unset_used_by ?gone) (t_pairing ?s))
      = filter (\<lambda>p. p_orgId p \<noteq> org) (t_pairing ?s)" .
  show ?thesis
    by (simp add: delete_organization_def delete_nodes_def Let_def dev [simplified] pair [simplified])
qed

lemma wf_db_without_org:
  assumes "wf_db s"
  shows "wf_db (s\<lparr>t_organization := filter (\<lambda>o1. o_id o1 \<noteq> org) (t_organization s),
      t_nodes := filter (\<lambda>n. n_orgId n \<noteq> org) (t_nodes s), t_devices := filter (\<lambda>d. d_orgId d \<noteq> org) (t_devices s),
      t_pairing := filter (\<lambda>p. p_orgId p \<noteq> org) (t_pairing s)\<rparr>)"
proof -
  have "\<exists>n \<in> set (t_nodes s). n_orgId n \<noteq> org \<and> n_id n = d_nodeId d \<and> n_orgId n = d_orgId d"
    if "d \<in> set (t_devices s)" "d_orgId d \<noteq> org" for d
    using wf_dbD(8) [OF assms that(1)] that(2) by metis
  then have "\<forall>d. d \<in> set (t_devices s) \<and> d_orgId d \<noteq> org \<longrightarrow>
      (\<exists>n. n \<in> set (t_nodes s) \<and> n_orgId n \<noteq> org \<and> n_id n = d_nodeId d \<and> n_orgId n = d_orgId d)"
    by blast
  moreover have "n_orgId n \<in> o_id ` {o1 \<in> set (t_organization s). o_id o1 \<noteq> org}"
    if "n \<in> set (t_nodes s)" "n_orgId n \<noteq> org" for n
    using wf_dbD(7) [OF assms that(1)] that(2) by auto
  moreover have "p_orgId p \<in> o_id ` {o1 \<in> set (t_organization s). o_id o1 \<noteq> org}"
    if "p \<in> set (t_pairing s)" "p_orgId p \<noteq> org" for p
    using wf_dbD(9) [OF assms that(1)] that(2) by auto
  ultimately show ?thesis
    using assms by (simp add: wf_db_def wf_nodes_def wf_devices_def wf_pairing_def distinct_map_filter)
qed

lemma wf_delete_organization:
  assumes "wf_store st"
  shows "wf_store (delete_organization org st)"
proof -
  have used: "\<exists>n \<in> set (t_nodes (st_db st)). n_orgId n \<noteq> org \<and> n_id n = nid \<and> n_orgId n = p_orgId p"
    if "p \<in> set (t_pairing (st_db st))" "p_orgId p \<noteq> org" "p_usedByNodeId p = Some nid" for p nid
    using assms that unfolding wf_store_def wf_used_by_def by metis
  have refs: "m_org \<in> o_id ` {o1 \<in> set (t_organization (st_db st)). o_id o1 \<noteq> org}"
    if "m_org \<in> o_id ` set (t_organization (st_db st))" "m_org \<noteq> org" for m_org
    using that by auto
  have "wf_db (st_db (delete_organization org st))"
    using wf_db_without_org [of "st_db st"] assms by (simp add: delete_organization_rows wf_store_def)
  moreover have "wf_used_by (st_db (delete_organization org st))"
    using used by (simp add: delete_organization_rows [OF assms] wf_used_by_def) metis
  moreover have "wf_keys (delete_organization org st)"
    using assms by (simp add: delete_organization_rows wf_store_def wf_keys_def distinct_map_filter)
  moreover have "wf_refs (delete_organization org st)"
    using assms refs by (simp add: delete_organization_rows wf_store_def wf_refs_def)
  ultimately show ?thesis by (simp add: wf_store_def)
qed

text \<open>(C18) Deleting an organization removes exactly its own rows: its nodes with all their devices, its
  pairing codes, its members and invitations, and the organization; the rows of every other
  organization, the users, accounts and sessions stay as they are, and the schema stays
  consistent. No device outlives its node and no code of another organization loses the node it
  names.\<close>

theorem delete_organization_exact:
  assumes "wf_store st"
  shows "wf_store (delete_organization org st)
     \<and> inside org (st_db (delete_organization org st))
         = \<lparr>t_organization = [], t_nodes = [], t_devices = [], t_pairing = []\<rparr>
     \<and> outside org (st_db (delete_organization org st))
         = (outside org (st_db st))\<lparr>t_organization := filter (\<lambda>o1. o_id o1 \<noteq> org) (t_organization (st_db st))\<rparr>
     \<and> st_member (delete_organization org st) = filter (\<lambda>m. me_organizationId m \<noteq> org) (st_member st)
     \<and> st_invitation (delete_organization org st) = filter (\<lambda>i. iv_organizationId i \<noteq> org) (st_invitation st)
     \<and> st_user (delete_organization org st) = st_user st
     \<and> st_account (delete_organization org st) = st_account st
     \<and> st_session (delete_organization org st) = st_session st"
  using wf_delete_organization [OF assms]
  by (simp add: delete_organization_rows [OF assms] inside_def outside_def filter_empty_conv)

text \<open>A user takes sessions, accounts, memberships and sent invitations along, and nothing of a fleet.\<close>

lemma wf_delete_user: "wf_store st \<Longrightarrow> wf_store (delete_user uid st) \<and> st_db (delete_user uid st) = st_db st"
  by (auto simp: delete_user_def wf_store_def wf_keys_def wf_refs_def Let_def distinct_map_filter)

section \<open>Sessions of a deleted organization\<close>

text \<open>
  \<open>active_organization_id\<close> has no foreign key, so a session keeps the organization it names when that
  organization is deleted, and \<open>requireSession\<close> takes it as it is.
\<close>

lemma list_without_rows:
  assumes "filter (\<lambda>n. n_orgId n = org) (t_nodes s) = []"
  shows "list_in collate org s = (Inr [], s)"
proof -
  have "sql_select (AppConn (Some org)) n_orgId (\<lambda>_. True) (t_nodes s) = []"
    using assms by (simp add: app_select)
  then show ?thesis by (simp add: list_in_def withOrg_def transaction_def select_nodes_def)
qed

lemma mint_without_org:
  assumes "org \<notin> set (map o_id (t_organization s))"
  shows "\<exists>e. mintPairingCode hmac pepper ttl ri fresh created now org uid name s = (Inl e, s)"
proof (cases "new_Date (js_add (of_int now) ttl)")
  case (Some expiry)
  let ?row = "\<lparr>p_id = fresh, p_orgId = org, p_codeHash = hashCode hmac pepper (generateCode ri), p_nodeName = name,
      p_createdBy = uid, p_expiresAt = expiry, p_usedAt = None, p_usedByNodeId = None, p_createdAt = created\<rparr>"
  have "\<exists>e. op_bind (pg_check (check_columns [org, name, uid] [] []))
      (\<lambda>_. op_bind (pg_check (pg_timestamp expiry)) (\<lambda>_. insert_pairing_code (AppConn (Some org))
        (?row\<lparr>p_expiresAt := expiry\<rparr>))) s = (Inl e, s)"
    using assms by (auto simp: bind_check insert_pairing_code_def split: sum.split)
  then obtain e where "withOrg org (\<lambda>tx. op_bind (pg_check (check_columns [org, name, uid] [] []))
      (\<lambda>_. op_bind (pg_check (pg_timestamp expiry)) (\<lambda>_. insert_pairing_code tx ?row))) s = (Inl e, s)"
    by (auto simp: withOrg_def)
  then show ?thesis using Some by (simp add: mintPairingCode_def Let_def)
qed (simp add: mintPairingCode_def Let_def)

text \<open>(C39) A deleted organization stays the active one of the sessions that named it: for such a session
  the fleet is empty, no pairing code can be created, whatever code is drawn, and no request
  moves the user to another organization or creates one for them.\<close>

theorem deleted_organization_lingers:
  assumes "wf_store st" and "row \<in> set (st_session st)" and "ss_activeOrganizationId row = Some org" and "org \<noteq> []"
    and "s = st_db (delete_organization org st)"
    and "getSession api headers s = (Inr (Some \<lparr>as_user = Some user, as_activeOrganizationId = ss_activeOrganizationId row\<rparr>), s)"
  shows "row \<in> set (st_session (delete_organization org st))
     \<and> requireSession api hex headers s = (Inr \<lparr>sc_userId = u_id user, sc_orgId = org, sc_user = user\<rparr>, s)
     \<and> listNodes api hex collate headers s = (Inr \<lparr>lnr_nodes = []\<rparr>, s)
     \<and> (\<exists>e. createPairingCode api hex hmac pepper ttl ri fresh created now req headers s = (Inl e, s))"
proof -
  note rows = delete_organization_rows [OF assms(1)]
  have r: "requireSession api hex headers s = (Inr \<lparr>sc_userId = u_id user, sc_orgId = org, sc_user = user\<rparr>, s)"
    using assms(3,4,6) by (simp add: requireSession_def)
  then have f: "fleet_session api hex headers s = (Inr \<lparr>sc_userId = u_id user, sc_orgId = org, sc_user = user\<rparr>, s)"
    by (simp add: fleet_session_def)
  have "filter (\<lambda>n. n_orgId n = org) (t_nodes s) = []" by (simp add: assms(5) rows filter_empty_conv)
  then have "listNodes api hex collate headers s = (Inr \<lparr>lnr_nodes = []\<rparr>, s)"
    using f by (simp add: listNodes_def list_without_rows)
  moreover have "org \<notin> set (map o_id (t_organization s))" by (auto simp: assms(5) rows)
  then have "\<exists>e. createPairingCode api hex hmac pepper ttl ri fresh created now req headers s = (Inl e, s)"
    using mint_without_org [of org s hmac pepper ttl ri fresh created now "u_id user" "cpq_nodeName req"] f
    by (auto simp: createPairingCode_def)
  moreover have "row \<in> set (st_session (delete_organization org st))" using assms(2) by (simp add: rows)
  ultimately show ?thesis using r by blast
qed

section \<open>Concrete stores\<close>

text \<open>Two organizations with a user each; \<open>ann\<close> works in the first, which has a node with a device.\<close>

definition demo_user :: "string \<Rightarrow> user_row" where
  "demo_user uid = \<lparr>us_id = uid, us_name = uid, us_email = uid, us_emailVerified = False, us_image = None,
     us_createdAt = 0, us_updatedAt = 0\<rparr>"

definition demo_session :: session_row where
  "demo_session = \<lparr>ss_id = ''s1'', ss_expiresAt = 0, ss_token = ''t1'', ss_createdAt = 0, ss_updatedAt = 0,
     ss_ipAddress = None, ss_userAgent = None, ss_userId = ''ann'', ss_activeOrganizationId = Some ''org_a''\<rparr>"

definition demo_member :: "string \<Rightarrow> string \<Rightarrow> member_row" where
  "demo_member uid org = \<lparr>me_id = uid @ org, me_organizationId = org, me_userId = uid, me_role = ''member'', me_createdAt = 0\<rparr>"

definition demo_store :: store where
  "demo_store = \<lparr>st_db = auth_db\<lparr>t_organization := t_organization auth_db
         @ [\<lparr>o_id = ''org_b'', o_name = ''Other'', o_slug = ''org_b'', o_logo = None, o_createdAt = 0, o_metadata = None\<rparr>]\<rparr>,
     st_user = [demo_user ''ann'', demo_user ''bob''], st_session = [demo_session], st_account = [], st_verification = [],
     st_member = [demo_member ''ann'' ''org_a'', demo_member ''bob'' ''org_b''], st_invitation = []\<rparr>"

lemma demo_store_wf: "wf_store demo_store"
  by (simp add: wf_store_def wf_used_by_def wf_keys_def wf_refs_def demo_store_def demo_user_def demo_session_def
      demo_member_def auth_db_def auth_node_def wf_db_def wf_nodes_def wf_devices_def wf_pairing_def node_ok_def)

theorem delete_organization_exact_witness:
  "map o_id (t_organization (st_db (delete_organization ''org_a'' demo_store))) = [''org_b'']
   \<and> t_nodes (st_db demo_store) \<noteq> [] \<and> t_nodes (st_db (delete_organization ''org_a'' demo_store)) = []
   \<and> map me_userId (st_member (delete_organization ''org_a'' demo_store)) = [''bob'']
   \<and> wf_store (delete_organization ''org_a'' demo_store)"
  using delete_organization_exact [OF demo_store_wf, of "''org_a''"]
  by (simp add: delete_organization_rows [OF demo_store_wf])
    (simp add: demo_store_def demo_member_def auth_db_def auth_node_def)

definition active_api :: "(unit, db) auth_api" where
  "active_api = sample_api\<lparr>getSession := (\<lambda>_. op_return (Some
     \<lparr>as_user = Some sample_user, as_activeOrganizationId = Some ''org_a''\<rparr>))\<rparr>"

theorem deleted_organization_lingers_witness:
  "demo_session \<in> set (st_session (delete_organization ''org_a'' demo_store))
   \<and> fst (requireSession active_api ''00'' () (st_db (delete_organization ''org_a'' demo_store)))
       = Inr \<lparr>sc_userId = ''user_1'', sc_orgId = ''org_a'', sc_user = sample_user\<rparr>
   \<and> isl (fst (createPairingCode active_api ''00'' demo_hmac [] 900000 (\<lambda>_. 0) demo_id 0 0
        \<lparr>cpq_nodeName = ''n''\<rparr> () (st_db (delete_organization ''org_a'' demo_store))))"
proof -
  have "demo_session \<in> set (st_session demo_store)" by (simp add: demo_store_def)
  from deleted_organization_lingers [OF demo_store_wf this, of "''org_a''" "st_db (delete_organization ''org_a'' demo_store)"
      active_api "()" sample_user "''00''" length demo_hmac "[]" 900000 "\<lambda>_. 0" demo_id 0 0 "\<lparr>cpq_nodeName = ''n''\<rparr>"]
  show ?thesis by (auto simp: active_api_def demo_session_def sample_user_def)
qed

end
