(* ===== verification/Server.thy ===== *)
theory Server
  imports Node_Service Fleet_Service Sweeper
begin

text \<open>
  The HTTP side of the control plane, \<open>apps/control-plane/src/server.ts\<close>: the handlers for unknown
  routes and for errors that both listeners share, the health check, the routes of Better Auth and
  \<open>/api/me\<close>; and the two database connections, \<open>packages/db/src/client.ts\<close>. Fastify, which matches
  routes and sends replies, and Better Auth are parameters, like the role a connection string logs
  in with.
\<close>

section \<open>Replies\<close>

datatype json = JString string | JObject "(string \<times> json) list"

record reply =
  rp_code :: nat
  rp_body :: json

text \<open>What the error handler reads of an error; a field that is not there is \<open>None\<close>.\<close>

record failure =
  fl_statusCode :: "nat option"
  fl_code :: "string option"
  fl_message :: string

text \<open>
  The errors of the program as the handler sees them: only \<open>HttpError\<close> has a status. \<open>other\<close> is
  the code and message of any other error, such as the SQLSTATE and text of the database.
\<close>

definition failure_of :: "(error \<Rightarrow> string option \<times> string) \<Rightarrow> error \<Rightarrow> failure" where
  "failure_of other e =
     (case e of
        HttpError status code message \<Rightarrow> \<lparr>fl_statusCode = Some status, fl_code = Some code, fl_message = message\<rparr>
      | _ \<Rightarrow> \<lparr>fl_statusCode = None, fl_code = fst (other e), fl_message = snd (other e)\<rparr>)"

section \<open>\<open>server.ts\<close>\<close>

definition bodyLimit :: nat where
  "bodyLimit = 4 * 1024 * 1024"

definition notFoundHandler :: "string \<Rightarrow> reply" where
  "notFoundHandler url = \<lparr>rp_code = 404, rp_body = JObject [(''error'', JString ''not_found''), (''path'', JString url)]\<rparr>"

definition errorHandler :: "failure \<Rightarrow> reply" where
  "errorHandler err =
     (let status = (case fl_statusCode err of Some n \<Rightarrow> n | None \<Rightarrow> 500) in
      \<lparr>rp_code = status,
       rp_body = (if 500 \<le> status
         then JObject [(''error'', JString ''internal_error''), (''message'', JString ''internal error'')]
         else JObject [(''error'', JString (case fl_code err of Some c \<Rightarrow> c | None \<Rightarrow> ''request_error'')),
                       (''message'', JString (fl_message err))])\<rparr>)"

text \<open>\<open>/healthz\<close>: whether the statement and the ping came back.\<close>

definition healthz :: "bool \<Rightarrow> bool \<Rightarrow> reply" where
  "healthz selected pinged =
     (let database = (if selected then ''ok'' else ''error'');
          cache = (if pinged then ''ok'' else ''error'');
          status = (if database = ''ok'' \<and> cache = ''ok'' then ''ok'' else ''degraded'')
      in \<lparr>rp_code = (if status = ''ok'' then 200 else 503),
          rp_body = JObject [(''status'', JString status), (''database'', JString database), (''redis'', JString cache)]\<rparr>)"

text \<open>
  \<open>/api/auth/*\<close>: the request handed to Better Auth, and its response handed back header by header;
  \<open>set_header\<close> is \<open>reply.header\<close>.
\<close>

record ('h, 'b) request =
  rq_method :: string
  rq_url :: string
  rq_headers :: 'h
  rq_body :: "'b option"

record 'h response =
  rs_status :: nat
  rs_headers :: 'h
  rs_text :: string

definition authRoute ::
  "(('w, string) request \<Rightarrow> ('s, error, (string \<times> string) list response) op) \<Rightarrow> (string \<Rightarrow> string \<Rightarrow> string)
   \<Rightarrow> ('h \<Rightarrow> 'w) \<Rightarrow> ('b option \<Rightarrow> string) \<Rightarrow> (string \<Rightarrow> string \<Rightarrow> 'r \<Rightarrow> 'r) \<Rightarrow> 'r \<Rightarrow> string
   \<Rightarrow> ('h, 'b) request \<Rightarrow> ('s, error, 'r response) op" where
  "authRoute handler new_URL fromNodeHeaders stringify set_header no_headers PUBLIC_URL req =
     op_bind
       (handler \<lparr>rq_method = rq_method req, rq_url = new_URL (rq_url req) PUBLIC_URL,
          rq_headers = fromNodeHeaders (rq_headers req),
          rq_body = (if rq_method req = ''POST'' then Some (stringify (rq_body req)) else None)\<rparr>)
       (\<lambda>response. op_return \<lparr>rs_status = rs_status response,
          rs_headers = fold (\<lambda>(key, val). set_header key val) (rs_headers response) no_headers,
          rs_text = rs_text response\<rparr>)"

text \<open>\<open>/api/me\<close>.\<close>

definition me :: "('h, 's) auth_api \<Rightarrow> string \<Rightarrow> 'h \<Rightarrow> ('s, error, json) op" where
  "me api hex headers =
     op_bind (requireSession api hex headers) (\<lambda>ctx.
     op_bind (listOrganizations api headers) (\<lambda>orgs.
       let user = sc_user ctx; orgId = sc_orgId ctx in
       op_return (JObject
         [(''user'', JObject ([(''id'', JString (u_id user)), (''email'', JString (u_email user))]
             @ (case u_name user of Some n \<Rightarrow> [(''name'', JString n)] | None \<Rightarrow> []))),
          (''org'', JObject [(''id'', JString orgId),
             (''name'', JString (case find (\<lambda>o1. fst o1 = orgId) orgs of Some o1 \<Rightarrow> snd o1 | None \<Rightarrow> []))])])))"

text \<open>A handler under the error handler, as Fastify runs it.\<close>

definition serve :: "(error \<Rightarrow> string option \<times> string) \<Rightarrow> ('s, error, json) op \<Rightarrow> 's \<Rightarrow> reply \<times> 's" where
  "serve other handler s =
     (case handler s of
        (Inl e, s') \<Rightarrow> (errorHandler (failure_of other e), s')
      | (Inr body, s') \<Rightarrow> (\<lparr>rp_code = 200, rp_body = body\<rparr>, s'))"

section \<open>\<open>client.ts\<close>\<close>

text \<open>
  The two connection strings, from \<open>DATABASE_URL\<close> and \<open>DATABASE_OWNER_URL\<close>; an unset variable is
  \<open>None\<close>. \<open>bypasses\<close> tells for a connection string whether its role bypasses row-level security.
\<close>

definition database_urls :: "string option \<Rightarrow> string option \<Rightarrow> error + string \<times> string" where
  "database_urls DATABASE_URL DATABASE_OWNER_URL =
     (case DATABASE_URL of
        None \<Rightarrow> Inl (JsError ''DATABASE_URL is required'')
      | Some appUrl \<Rightarrow>
          if appUrl = [] then Inl (JsError ''DATABASE_URL is required'')
          else Inr (appUrl, case DATABASE_OWNER_URL of Some u \<Rightarrow> u | None \<Rightarrow> appUrl))"

definition plain_conn :: "(string \<Rightarrow> bool) \<Rightarrow> string \<Rightarrow> conn" where
  "plain_conn bypasses url = (if bypasses url then OwnerConn else AppConn None)"

text \<open>The two connection pools and \<open>closeDb\<close>, which ends both.\<close>

record pool =
  pl_url :: string
  pl_max :: nat
  pl_ended :: bool

definition pools :: "string \<times> string \<Rightarrow> pool \<times> pool" where
  "pools = (\<lambda>(appUrl, ownerUrl).
     (\<lparr>pl_url = appUrl, pl_max = 10, pl_ended = False\<rparr>, \<lparr>pl_url = ownerUrl, pl_max = 2, pl_ended = False\<rparr>))"

definition closeDb :: "pool \<times> pool \<Rightarrow> pool \<times> pool" where
  "closeDb = (\<lambda>(appSql, ownerSql). (appSql\<lparr>pl_ended := True\<rparr>, ownerSql\<lparr>pl_ended := True\<rparr>))"

section \<open>What the server tells\<close>

text \<open>Internal errors stay internal: what a request is answered with never depends on the code or
  message of an error other than an \<open>HttpError\<close>; such an error is answered with status 500 and a
  fixed body, an \<open>HttpError\<close> below 500 with its own status, code and message, one from 500 on with
  the fixed body; and a request to \<open>/api/me\<close> without a session is answered with 401 and runs
  nothing further.\<close>

theorem internal_errors_hidden:
  "serve other h s = serve other' h s
   \<and> (case h s of
        (Inl (HttpError status code message), s') \<Rightarrow>
          serve other h s = (\<lparr>rp_code = status, rp_body = JObject (if status < 500
             then [(''error'', JString code), (''message'', JString message)]
             else [(''error'', JString ''internal_error''), (''message'', JString ''internal error'')])\<rparr>, s')
      | (Inl _, s') \<Rightarrow>
          serve other h s = (\<lparr>rp_code = 500, rp_body = JObject
             [(''error'', JString ''internal_error''), (''message'', JString ''internal error'')]\<rparr>, s')
      | (Inr body, s') \<Rightarrow> serve other h s = (\<lparr>rp_code = 200, rp_body = body\<rparr>, s'))
   \<and> (case getSession api headers t of
        (Inr None, t') \<Rightarrow> serve other (me api hex headers) t = (\<lparr>rp_code = 401, rp_body = JObject
            [(''error'', JString ''unauthenticated''), (''message'', JString ''sign in required'')]\<rparr>, t')
      | _ \<Rightarrow> True)"
proof -
  have "serve other h s = serve other' h s"
    by (simp add: serve_def failure_of_def errorHandler_def split: prod.split sum.split error.split)
  moreover have "case getSession api headers t of
        (Inr None, t') \<Rightarrow> serve other (me api hex headers) t = (\<lparr>rp_code = 401, rp_body = JObject
            [(''error'', JString ''unauthenticated''), (''message'', JString ''sign in required'')]\<rparr>, t')
      | _ \<Rightarrow> True"
    by (auto simp: serve_def me_def requireSession_def op_bind_def op_throw_def failure_of_def errorHandler_def
        split: prod.split sum.split option.split)
  ultimately show ?thesis
    by (auto simp: serve_def failure_of_def errorHandler_def split: prod.split sum.split error.split)
qed

section \<open>The owner connection is needed to serve requests\<close>

lemma update_without_org:
  "on_pairing (sql_update (AppConn None) p_orgId P f) s = (Inr [], s)"
  "on_nodes (sql_update (AppConn None) n_orgId Q g) s = (Inr [], s)"
  by (simp_all add: on_table_def sql_update_def org_isolation_def Let_def list_all_iff)

text \<open>(C38) A deployment without \<open>DATABASE_OWNER_URL\<close> starts but cannot serve agents: the owner
  connection then is the application's own, which sees no row outside \<open>withOrg\<close>, so every
  enrollment with a well-formed key is told its code is unknown, no connection is ever
  authenticated, and the sweeper changes nothing.\<close>

theorem owner_role_required:
  assumes "database_urls (Some appUrl) None = Inr (app, ownerUrl)" and "\<not> bypasses appUrl"
    and "length (ei_publicKey input) = 32"
  shows "enrollNode (plain_conn bypasses ownerUrl) hmac pepper claimed checked fresh created input s
           = (Inl (PairingCodeError ''unknown pairing code''), s)
       \<and> isl (fst (authenticateNode ck vf b64 redis_set (plain_conn bypasses ownerUrl) skew checked stored s header r))
       \<and> snd (sweepOfflineNodes (plain_conn bypasses ownerUrl) interval now s) = s"
proof -
  have c: "plain_conn bypasses ownerUrl = AppConn None"
    using assms(1,2) by (auto simp: database_urls_def plain_conn_def split: if_splits)
  have "enrollNode (AppConn None) hmac pepper claimed checked fresh created input s
      = (Inl (PairingCodeError ''unknown pairing code''), s)"
    using assms(3)
    by (simp add: enrollNode_def redeemPairingCode_def nodes_tbl.select_without_org pairing_tbl.select_without_org update_without_org op_bind_def op_get_def op_throw_def)
  moreover have "isl (fst (authenticateNode ck vf b64 redis_set (AppConn None) skew checked stored s header r))"
    by (simp add: authenticateNode_def nodes_tbl.select_without_org op_throw_def split: sum.split prod.split js_num.split)
  moreover have "snd (sweepOfflineNodes (AppConn None) interval now s) = s"
    by (simp add: sweepOfflineNodes_def offline_pass_def degraded_pass_def update_without_org op_bind_def op_return_def cutoff_def op_throw_def
        pg_check_def split: option.split sum.split prod.split)
  ultimately show ?thesis unfolding c by blast
qed

theorem owner_role_required_witness:
  "enrollNode (plain_conn (\<lambda>url. url = ''owner'') ''app'') demo_hmac [] 1000 1000 demo_id 2000 demo_input demo_db
     = (Inl (PairingCodeError ''unknown pairing code''), demo_db)
   \<and> (\<exists>resp. fst (enrollNode (plain_conn (\<lambda>url. url = ''owner'') ''owner'') demo_hmac [] 1000 1000 demo_id 2000 demo_input demo_db)
        = Inr resp)"
proof -
  have u: "database_urls (Some ''app'') None = Inr (''app'', ''app'')" by (simp add: database_urls_def)
  have "length (ei_publicKey demo_input) = 32" by (simp add: demo_input_def)
  from conjunct1 [OF owner_role_required [OF u _ this, of "\<lambda>url. url = ''owner''"]]
  have "enrollNode (plain_conn (\<lambda>url. url = ''owner'') ''app'') demo_hmac [] 1000 1000 demo_id 2000 demo_input demo_db
     = (Inl (PairingCodeError ''unknown pairing code''), demo_db)" by simp
  then show ?thesis using demo_enroll by (simp add: plain_conn_def)
qed

end
