(* ===== verification/Js_Print.thy ===== *)
theory Js_Print
  imports Js_String
begin

text \<open>
  Numbers as text: \<open>Number.prototype.toString\<close> in base ten, which template literals use, and
  \<open>Number.prototype.toFixed\<close>. \<open>js_toString\<close> follows ECMAScript's Number::toString: the digits are
  the shortest ones that read back as the same double, and the notation depends on the decimal
  exponent. What a text says is what \<open>unsigned_decimal\<close> reads from it; the laws at the end state
  that the texts the pages show say the number that was computed.
\<close>

section \<open>Natural numbers\<close>

fun show_nat :: "nat \<Rightarrow> string" where
  "show_nat n = (if n < 10 then [char_of (n + 48)] else show_nat (n div 10) @ [char_of (n mod 10 + 48)])"

declare show_nat.simps [simp del]

text \<open>\<open>String(n)\<close> of a bigint.\<close>

definition show_int :: "int \<Rightarrow> string" where
  "show_int n = (if n < 0 then CHR ''-'' # show_nat (nat (- n)) else show_nat (nat n))"

section \<open>\<open>toString\<close>\<close>

text \<open>
  The decimal exponent \<open>n\<close> of a positive number: \<open>10\<^sup>n\<^sup>-\<^sup>1 \<le> x < 10\<^sup>n\<close>. The least positive double
  has 323 zeros after the point, so 324 rounds of the search are enough.
\<close>

fun lead_zeros :: "nat \<Rightarrow> rat \<Rightarrow> nat" where
  "lead_zeros 0 x = 0"
| "lead_zeros (Suc fuel) x = (if 1 \<le> x * 10 then 0 else Suc (lead_zeros fuel (x * 10)))"

definition dec_exp :: "rat \<Rightarrow> int" where
  "dec_exp x = (if 1 \<le> x then int (length (show_nat (nat \<lfloor>x\<rfloor>))) else - int (lead_zeros 324 x))"

text \<open>
  The decimals with \<open>k\<close> digits next to \<open>x\<close>, below and above, as a coefficient and a power of ten;
  and the first of them, for growing \<open>k\<close>, that reads back as \<open>x\<close>, the nearer one if both do.
  Seventeen digits are always enough for a double.
\<close>

definition neighbours :: "rat \<Rightarrow> int \<Rightarrow> nat \<Rightarrow> (nat \<times> int) list" where
  "neighbours x n k =
     (let p = n - int k; lo = nat \<lfloor>x * scaled 1 (- p)\<rfloor> in
      [(lo, p), if lo + 1 = 10 ^ k then (10 ^ (k - 1), p + 1) else (lo + 1, p)])"

definition reads_as :: "rat \<Rightarrow> nat \<times> int \<Rightarrow> bool" where
  "reads_as x = (\<lambda>(s, p). fl (scaled s p) = x)"

definition nearer :: "rat \<Rightarrow> nat \<times> int \<Rightarrow> nat \<times> int \<Rightarrow> nat \<times> int" where
  "nearer x a b =
     (if \<bar>scaled (fst b) (snd b) - x\<bar> < \<bar>scaled (fst a) (snd a) - x\<bar> then b else a)"

fun shortest :: "nat \<Rightarrow> rat \<Rightarrow> int \<Rightarrow> nat \<Rightarrow> nat \<times> int" where
  "shortest 0 x n k = hd (neighbours x n k)"
| "shortest (Suc fuel) x n k =
     (case filter (reads_as x) (neighbours x n k) of
        [] \<Rightarrow> shortest fuel x n (k + 1)
      | [d] \<Rightarrow> d
      | a # b # _ \<Rightarrow> nearer x a b)"

definition decimal_text :: "nat \<Rightarrow> int \<Rightarrow> string" where
  "decimal_text s p =
     (let ds = show_nat s; k = int (length ds); n = k + p in
      if k \<le> n \<and> n \<le> 21 then ds @ replicate (nat (n - k)) CHR ''0''
      else if 0 < n \<and> n \<le> 21 then take (nat n) ds @ ''.'' @ drop (nat n) ds
      else if - 6 < n \<and> n \<le> 0 then ''0.'' @ replicate (nat (- n)) CHR ''0'' @ ds
      else take 1 ds @ (if length ds = 1 then [] else ''.'' @ drop 1 ds)
           @ (if 0 < n then ''e+'' else ''e-'') @ show_nat (nat \<bar>n - 1\<bar>))"

definition pos_toString :: "number \<Rightarrow> string" where
  "pos_toString x = (case shortest 17 x (dec_exp x) 1 of (s, p) \<Rightarrow> decimal_text s p)"

definition js_toString :: "number \<Rightarrow> string" where
  "js_toString x =
     (if x = 0 then ''0'' else if x < 0 then CHR ''-'' # pos_toString (- x) else pos_toString x)"

section \<open>\<open>toFixed\<close>\<close>

text \<open>The integer next to \<open>x * 10\<^sup>f\<close>, the larger one of two, with the point before the last \<open>f\<close> digits.\<close>

definition fixed_digits :: "nat \<Rightarrow> rat \<Rightarrow> nat" where
  "fixed_digits f x = nat \<lfloor>x * 10 ^ f + 1 / 2\<rfloor>"

definition fixed_text :: "nat \<Rightarrow> nat \<Rightarrow> string" where
  "fixed_text f n =
     (let m = show_nat n;
          ds = replicate (f + 1 - length m) CHR ''0'' @ m;
          k = length ds - f
      in if f = 0 then m else take k ds @ ''.'' @ drop k ds)"

definition toFixed :: "nat \<Rightarrow> number \<Rightarrow> string" where
  "toFixed f x =
     (if 10 ^ 21 \<le> \<bar>x\<bar> then js_toString x
      else if x < 0 then CHR ''-'' # fixed_text f (fixed_digits f (- x))
      else fixed_text f (fixed_digits f x))"

section \<open>Reading the texts back\<close>

lemma show_nat_nonempty [simp]: "show_nat n \<noteq> []"
  by (subst show_nat.simps) simp

lemma digit_char: "d < 10 \<Longrightarrow> is_digit (char_of (d + 48)) \<and> digit_value (char_of (d + 48)) = d"
  by (simp add: is_digit_def in_range_def digit_value_def)

lemma show_nat_digits [simp]: "list_all is_digit (show_nat n)"
proof (induction n rule: show_nat.induct)
  case (1 n)
  then show ?case by (subst show_nat.simps) (simp add: digit_char)
qed

lemma digits_value_append: "digits_value b acc (xs @ ys) = digits_value b (digits_value b acc xs) ys"
  by (induction xs arbitrary: acc) simp_all

lemma digits_value_acc: "digits_value b acc xs = acc * b ^ length xs + digits_value b 0 xs"
proof (induction xs arbitrary: acc)
  case (Cons c xs)
  show ?case using Cons [of "b * acc + digit_value c"] Cons [of "digit_value c"] by (simp add: algebra_simps)
qed simp

lemma digits_value_show [simp]: "digits_value 10 0 (show_nat n) = n"
proof (induction n rule: show_nat.induct)
  case (1 n)
  then show ?case by (subst show_nat.simps) (simp add: digits_value_append digit_char)
qed

lemma digits_value_zeros [simp]: "digits_value b 0 (replicate j CHR ''0'') = 0"
  by (induction j) (simp_all add: digit_value_def is_digit_def in_range_def)

lemma digit_zero: "is_digit CHR ''0''"
  by (simp add: is_digit_def in_range_def)

lemma digits_zeros [simp]: "list_all is_digit (replicate j CHR ''0'')"
  by (simp add: list_all_iff is_digit_def in_range_def)

lemma digits_value_pad: "digits_value 10 0 (replicate j CHR ''0'' @ ds) = digits_value 10 0 ds"
  by (simp add: digits_value_append)

lemma digits_value_shift: "digits_value 10 0 (ds @ replicate j CHR ''0'') = digits_value 10 0 ds * 10 ^ j"
  by (subst digits_value_append, subst digits_value_acc) simp

lemma length_show_nat: "0 < n \<Longrightarrow> 10 ^ (length (show_nat n) - 1) \<le> n \<and> n < 10 ^ length (show_nat n)"
proof (induction n rule: show_nat.induct)
  case (1 n)
  show ?case
  proof (cases "n < 10")
    case True
    then show ?thesis using "1.prems" by (subst (1 2) show_nat.simps) simp
  next
    case False
    then have ih: "10 ^ (length (show_nat (n div 10)) - 1) \<le> n div 10" "n div 10 < 10 ^ length (show_nat (n div 10))"
      using 1 by auto
    have "length (show_nat n) = Suc (length (show_nat (n div 10)))" using False by (subst show_nat.simps) simp
    moreover have "10 ^ length (show_nat (n div 10)) = 10 * (10 :: nat) ^ (length (show_nat (n div 10)) - 1)"
      by (simp flip: power_Suc)
    ultimately show ?thesis using ih by simp linarith
  qed
qed

text \<open>A run of digits with a point in it.\<close>

lemma unsigned_decimal_point:
  assumes "list_all is_digit a" and "list_all is_digit b" and "a @ b \<noteq> []"
  shows "unsigned_decimal (a @ ''.'' @ b) = Some (of_nat (digits_value 10 0 (a @ b)) / 10 ^ length b)"
proof -
  have dot: "\<not> is_digit CHR ''.''" by (simp add: is_digit_def in_range_def)
  have a: "takeWhile is_digit (a @ CHR ''.'' # b) = a" "dropWhile is_digit (a @ CHR ''.'' # b) = CHR ''.'' # b"
    using assms(1) dot by (simp_all add: list_all_iff takeWhile_append dropWhile_append)
  have b: "takeWhile is_digit b = b" "dropWhile is_digit b = []" using takeWhile_all [OF assms(2)] by auto
  have "\<not> (a = [] \<and> b = [])" using assms(3) by simp
  then show ?thesis
    unfolding unsigned_decimal_def append_Cons append_Nil a
    by (simp only: Let_def list.case prod.case simp_thms if_True if_False b) (auto simp: exponent_part_def scaled_def)
qed

lemma fixed_text_reads: "0 < f \<Longrightarrow> unsigned_decimal (fixed_text f n) = Some (of_nat n / 10 ^ f)"
proof -
  assume f: "0 < f"
  let ?m = "show_nat n"
  let ?ds = "replicate (f + 1 - length ?m) CHR ''0'' @ ?m"
  let ?k = "length ?ds - f"
  have ds: "list_all is_digit ?ds" by (simp only: list_all_append digits_zeros show_nat_digits simp_thms)
  have parts: "take ?k ?ds @ drop ?k ?ds = ?ds" by (rule append_take_drop_id)
  have "list_all is_digit (take ?k ?ds)" "list_all is_digit (drop ?k ?ds)"
    using ds unfolding list_all_iff by (meson in_set_takeD in_set_dropD)+
  then have "unsigned_decimal (take ?k ?ds @ ''.'' @ drop ?k ?ds)
      = Some (of_nat (digits_value 10 0 ?ds) / 10 ^ length (drop ?k ?ds))"
    using unsigned_decimal_point [of "take ?k ?ds" "drop ?k ?ds", unfolded parts] by simp
  moreover have "length (drop ?k ?ds) = f" by simp
  ultimately show ?thesis using f by (simp add: fixed_text_def Let_def digits_value_pad)
qed

lemma decimal_text_reads:
  assumes "- 6 < int (length (show_nat s)) + p" and "int (length (show_nat s)) + p \<le> 21"
  shows "unsigned_decimal (decimal_text s p) = Some (scaled s p)"
proof -
  let ?ds = "show_nat s"
  let ?n = "int (length ?ds) + p"
  have dig: "list_all is_digit (take j ?ds)" "list_all is_digit (drop j ?ds)" for j
    using show_nat_digits [of s] unfolding list_all_iff by (meson in_set_takeD in_set_dropD)+
  consider (whole) "0 \<le> p" | (point) "p < 0" "0 < ?n" | (small) "?n \<le> 0" by linarith
  then show ?thesis
  proof cases
    case whole
    then show ?thesis using assms(2)
      by (simp add: decimal_text_def Let_def unsigned_decimal_digits digits_value_shift scaled_def)
  next
    case point
    have "length (drop (nat ?n) ?ds) = nat (- p)" using point by simp
    then show ?thesis using point assms(2) dig unsigned_decimal_point [OF dig, of "nat ?n" "nat ?n"]
      by (simp add: decimal_text_def Let_def scaled_def)
  next
    case small
    have "p < 0" using small show_nat_nonempty [of s] by (cases "show_nat s") auto
    moreover have "unsigned_decimal (''0'' @ ''.'' @ (replicate (nat (- ?n)) CHR ''0'' @ ?ds))
        = Some (of_nat (digits_value 10 0 (replicate (Suc (nat (- ?n))) CHR ''0'' @ ?ds)) / 10 ^ (nat (- ?n) + length ?ds))"
      by (subst unsigned_decimal_point) (simp_all add: digit_zero)
    moreover have "nat (- ?n) + length ?ds = nat (- p)" using small by linarith
    ultimately show ?thesis using small assms(1)
      by (simp only: digits_value_pad) (simp add: decimal_text_def Let_def scaled_def)
  qed
qed

text \<open>Two multiples of one hundredth that round to the same double are equal.\<close>

lemma fl_hundredth: "\<bar>fl (of_nat i / 100) - of_nat i / 100\<bar> \<le> of_nat i / 100 / 2 ^ 53"
proof (cases "i = 0")
  case False
  have "1 / 2 ^ 1022 \<le> (1 / 2 ^ 7 :: rat)" by (rule divide_left_mono) (simp_all add: power_increasing)
  also have "\<dots> \<le> of_nat i / 100" using False by (simp add: field_simps)
  finally show ?thesis by (rule fl_error)
qed simp

lemma fl_hundredth_inj:
  assumes "fl (of_nat i / 100) = fl (of_nat j / 100)" and "3 * i < 2 ^ 53"
  shows "j = i"
proof -
  let ?a = "of_nat i :: rat" and ?b = "of_nat j :: rat"
  have e: "\<bar>?a - ?b\<bar> \<le> (?a + ?b) / 2 ^ 53"
  proof -
    let ?x = "fl (of_nat j / 100)"
    have "\<bar>?x - ?a / 100\<bar> \<le> ?a / 100 / 2 ^ 53" "\<bar>?x - ?b / 100\<bar> \<le> ?b / 100 / 2 ^ 53"
      using fl_hundredth [of i] fl_hundredth [of j] by (simp_all only: assms(1))
    then show ?thesis unfolding abs_le_iff by (simp add: add_divide_distrib)
  qed
  then have "?b - ?a \<le> (?a + ?b) / 2 ^ 53" using abs_le_D2 [OF e] by (simp only: minus_diff_eq)
  then have "(?b - ?a) * 2 ^ 53 \<le> ?a + ?b" by (simp add: le_divide_eq)
  then have "?b \<le> 2 * ?a" by (simp add: left_diff_distrib)
  then have "(?a + ?b) / 2 ^ 53 \<le> of_nat (3 * i) / 2 ^ 53" by (intro divide_right_mono) simp_all
  also have "\<dots> < 1" using assms(2) by (simp add: divide_less_eq)
  finally have "\<bar>?a - ?b\<bar> < 1" using e by linarith
  then have "\<bar>of_int (int i - int j) :: rat\<bar> < 1" by simp
  then have "\<bar>int i - int j\<bar> < 1" by (metis of_int_abs of_int_less_1_iff)
  then show ?thesis by simp
qed

text \<open>
  A double next to a multiple of one hundredth, as \<open>Math.round(y) / 100\<close> produces: its shortest
  digits are the ones of that multiple.
\<close>

lemma scaled_down: "scaled s (- int j) = of_nat s / 10 ^ j"
  by (simp add: scaled_def)

lemma scaled_up: "scaled s (int j) = of_nat s * 10 ^ j"
  by (simp add: scaled_def)

lemma scaled_hundredth: "- 2 \<le> p \<Longrightarrow> scaled s p = of_nat (s * 10 ^ nat (p + 2)) / 100"
proof -
  assume "- 2 \<le> p"
  then consider "p = - 2" | "p = - 1" | "0 \<le> p" by linarith
  then show ?thesis
  proof cases
    case 3
    then have "nat (p + 2) = nat p + 2" by simp
    then show ?thesis using 3 by (simp add: scaled_def power_add)
  qed (simp_all add: scaled_def)
qed

lemma scaled_Suc: "scaled s (p + 1) = scaled (10 * s) p"
proof -
  consider "0 \<le> p" | "p = - 1" | j where "p = - int (Suc (Suc j))"
  proof -
    assume c: "0 \<le> p \<Longrightarrow> thesis" "p = - 1 \<Longrightarrow> thesis" "\<And>j. p = - int (Suc (Suc j)) \<Longrightarrow> thesis"
    consider "0 \<le> p" | "p = - 1" | "p \<le> - 2" by linarith
    then show thesis
    proof cases
      case 3
      then have "p = - int (Suc (Suc (nat (- p - 2))))" by simp
      then show thesis by (rule c(3))
    qed (use c in blast)+
  qed
  then show ?thesis
  proof cases
    case 1
    then have "nat (p + 1) = Suc (nat p)" by simp
    then show ?thesis using 1 by (simp add: scaled_def)
  next
    case (3 j)
    then have "p + 1 = - int (Suc j)" by simp
    then show ?thesis unfolding 3 by (simp only: scaled_down) simp
  qed (simp add: scaled_def)
qed

lemma scaled_carry: "0 < k \<Longrightarrow> scaled (10 ^ (k - Suc 0)) (p + 1) = scaled (10 ^ k) p"
  by (simp add: scaled_Suc flip: power_Suc)

lemma neighbours_exp:
  assumes "d \<in> set (neighbours x n k)" and "0 < k"
  shows "n - int k \<le> snd d"
  using assms by (auto simp: neighbours_def Let_def)

lemma neighbours_has:
  assumes "0 < k" and "s = nat \<lfloor>x * scaled 1 (int k - n)\<rfloor> \<or> s = Suc (nat \<lfloor>x * scaled 1 (int k - n)\<rfloor>)"
  shows "\<exists>d \<in> set (neighbours x n k). scaled (fst d) (snd d) = scaled s (n - int k)"
  using assms by (auto simp: neighbours_def Let_def scaled_carry)

lemma chosen:
  assumes "filter (reads_as x) ds \<noteq> []"
  shows "(case filter (reads_as x) ds of [] \<Rightarrow> e | [d] \<Rightarrow> d | a # b # r \<Rightarrow> nearer x a b) \<in> {d \<in> set ds. reads_as x d}"
proof -
  have "set (filter (reads_as x) ds) = {d \<in> set ds. reads_as x d}" by simp
  moreover have "(case l of [] \<Rightarrow> e | [d] \<Rightarrow> d | a # b # r \<Rightarrow> nearer x a b) \<in> set l" if "l \<noteq> []" for l
    using that by (auto simp: nearer_def split: list.splits)
  ultimately show ?thesis using assms by blast
qed

text \<open>
  The search ends with the value itself when it is next to a whole number (\<open>f = 0\<close>), a tenth or a
  hundredth (\<open>f = 2\<close>), whichever of its spellings it meets first.
\<close>

lemma shortest_grid:
  assumes x: "x = fl (of_nat c / 10 ^ f)" and f: "f \<le> 2" and c: "3 * (c * 10 ^ (2 - f)) < 2 ^ 53"
    and near: "c = nat \<lfloor>x * 10 ^ f\<rfloor> \<or> c = Suc (nat \<lfloor>x * 10 ^ f\<rfloor>)"
    and k: "0 < k" "int k \<le> n + int f" "n + int f - int k < int fuel"
  shows "scaled (fst (shortest fuel x n k)) (snd (shortest fuel x n k)) = of_nat c / 10 ^ f
       \<and> - int f \<le> snd (shortest fuel x n k)"
  using k
proof (induction fuel arbitrary: k)
  case (Suc fuel)
  let ?l = "filter (reads_as x) (neighbours x n k)"
  have grid: "of_nat c / 10 ^ f = (of_nat (c * 10 ^ (2 - f)) / 100 :: rat)"
  proof -
    have "f = 0 \<or> f = 1 \<or> f = 2" using f by linarith
    then show ?thesis by auto
  qed
  show ?case
  proof (cases "?l = []")
    case False
    define d where "d = shortest (Suc fuel) x n k"
    have d: "d \<in> set (neighbours x n k)" "reads_as x d"
      using chosen [OF False, of "shortest fuel x n (k + 1)"] by (simp_all add: d_def)
    have p: "- int f \<le> snd d" "- 2 \<le> snd d" using neighbours_exp [OF d(1)] Suc.prems f by linarith+
    have "fl (of_nat (c * 10 ^ (2 - f)) / 100) = fl (of_nat (fst d * 10 ^ nat (snd d + 2)) / 100)"
      using d(2) unfolding scaled_hundredth [OF p(2), symmetric] grid [symmetric] x [symmetric]
      by (simp add: reads_as_def split: prod.splits)
    then have "fst d * 10 ^ nat (snd d + 2) = c * 10 ^ (2 - f)" using c by (rule fl_hundredth_inj)
    then show ?thesis using p(1) unfolding d_def [symmetric] scaled_hundredth [OF p(2)] grid by simp
  next
    case True
    have "int k \<noteq> n + int f"
    proof
      assume kn: "int k = n + int f"
      have nk: "n - int k = - int f" "int k - n = int f" using kn by simp_all
      have "\<exists>d \<in> set (neighbours x n k). scaled (fst d) (snd d) = scaled c (n - int k)"
        using Suc.prems(1) near by (intro neighbours_has) (simp_all add: nk scaled_up)
      then obtain d where d: "d \<in> set (neighbours x n k)" "scaled (fst d) (snd d) = of_nat c / 10 ^ f"
        unfolding nk scaled_down by blast
      have "reads_as x d" using x d(2) by (simp only: reads_as_def case_prod_beta)
      then show False using d(1) True by (auto simp: filter_empty_conv)
    qed
    then have "int (k + 1) \<le> n + int f" "n + int f - int (k + 1) < int fuel" using Suc.prems by simp_all
    then show ?thesis using Suc.IH [of "k + 1"] True by simp
  qed
qed simp

lemma lead_zeros_step: "0 < fuel \<Longrightarrow> lead_zeros fuel x = (if 1 \<le> x * 10 then 0 else Suc (lead_zeros (fuel - 1) (x * 10)))"
  by (cases fuel) simp_all

text \<open>The double of a positive multiple of one hundredth is not below one hundredth.\<close>

lemma fl_one_hundredth: "1 / 100 \<le> fl (1 / 100)"
proof -
  have "\<lfloor>(1 / 100 :: rat) * 2 ^ 59\<rfloor> = 5764607523034234" by (simp add: floor_unique)
  then have "rhe ((1 / 100) * 2 ^ 59) = 5764607523034235" by (simp add: rhe_def Let_def)
  then have "fl (1 / 100) = 5764607523034235 / 2 ^ 59" by (subst fl_eval [where k = 59]) simp_all
  then show ?thesis by simp
qed

lemma hundredth_floor:
  assumes "c \<le> 10 ^ 15" and "0 \<le> fl (of_nat c / 100)"
  shows "c = nat \<lfloor>fl (of_nat c / 100) * 100\<rfloor> \<or> c = Suc (nat \<lfloor>fl (of_nat c / 100) * 100\<rfloor>)"
proof -
  let ?x = "fl (of_nat c / 100)"
  have near: "\<bar>?x * 100 - of_nat c\<bar> \<le> of_nat c / 2 ^ 53"
    using fl_hundredth [of c] by (simp add: abs_le_iff field_simps)
  have "(of_nat c :: rat) \<le> 10 ^ 15" using assms(1) by (metis of_nat_le_iff of_nat_numeral of_nat_power)
  then have "of_nat c / 2 ^ 53 < (1 :: rat)" by simp
  then have near1: "\<bar>?x * 100 - of_nat c\<bar> < 1" using near by linarith
  have "int c = \<lfloor>?x * 100\<rfloor> \<or> int c = \<lfloor>?x * 100\<rfloor> + 1"
  proof (cases "of_nat c \<le> ?x * 100")
    case True
    then have "\<lfloor>?x * 100\<rfloor> = int c" using near1 by (intro floor_unique) simp_all
    then show ?thesis by simp
  next
    case False
    then have "\<lfloor>?x * 100\<rfloor> = int c - 1" using near1 by (intro floor_unique) simp_all
    then show ?thesis by simp
  qed
  then show ?thesis using assms(2) by linarith
qed

lemma dec_exp_hundredth:
  assumes "c \<le> 10 ^ 15" and "1 / 100 \<le> fl (of_nat c / 100)"
  shows "- 1 \<le> dec_exp (fl (of_nat c / 100))" and "dec_exp (fl (of_nat c / 100)) \<le> 14"
proof -
  let ?x = "fl (of_nat c / 100)"
  show "- 1 \<le> dec_exp ?x" using assms(2) by (auto simp: dec_exp_def lead_zeros_step)
  show "dec_exp ?x \<le> 14"
  proof (cases "1 \<le> ?x")
    case True
    let ?f = "nat \<lfloor>?x\<rfloor>"
    have "(of_nat c :: rat) \<le> 10 ^ 15" using assms(1) by (metis of_nat_le_iff of_nat_numeral of_nat_power)
    then have "?x \<le> fl (of_int (10 ^ 13))" by (intro fl_mono) simp
    then have "?x \<le> 10 ^ 13" by (simp add: fl_numeral)
    then have "\<lfloor>?x\<rfloor> \<le> 10 ^ 13" using floor_mono [of ?x "of_int (10 ^ 13)"] by simp
    then have "?f \<le> 10 ^ 13" by (simp only: nat_le_iff) simp
    moreover have "0 < ?f" using True by simp
    moreover have "10 ^ (length (show_nat ?f) - 1) \<le> ?f" using length_show_nat [OF \<open>0 < ?f\<close>] by simp
    ultimately have "(10 :: nat) ^ (length (show_nat ?f) - 1) \<le> 10 ^ 13" by linarith
    then have "length (show_nat ?f) - 1 \<le> 13" by (rule power_le_imp_le_exp [rotated]) simp
    then show ?thesis using True by (simp add: dec_exp_def)
  qed (simp add: dec_exp_def)
qed

text \<open>The text of the double next to \<open>c / 100\<close> says \<open>c / 100\<close>.\<close>

lemma toString_hundredth:
  assumes "c \<le> 10 ^ 15"
  shows "unsigned_decimal (js_toString (fl (of_nat c / 100))) = Some (of_nat c / 100)"
proof (cases "c = 0")
  case True
  have "show_nat 0 = ''0''" by code_simp
  then show ?thesis using unsigned_decimal_digits [of "''0''"] digits_value_show [of 0] True
    by (simp add: js_toString_def digit_zero)
next
  case False
  let ?x = "fl (of_nat c / 100)" and ?n = "dec_exp (fl (of_nat c / 100))"
  have c: "3 * c < 2 ^ 53" using assms by simp
  have "fl (1 / 100) \<le> ?x" using False by (intro fl_mono) (simp add: field_simps)
  then have lo: "1 / 100 \<le> ?x" "0 < ?x" using fl_one_hundredth by linarith+
  obtain s p where sp: "shortest 17 ?x ?n 1 = (s, p)" by (cases "shortest 17 ?x ?n 1")
  have v: "scaled s p = of_nat c / 100" and p: "- 2 \<le> p"
    using shortest_grid [of ?x c 2 1 ?n 17] c hundredth_floor [OF assms less_imp_le [OF lo(2)]]
      dec_exp_hundredth [OF assms lo(1)] sp by simp_all
  have "(of_nat (s * 10 ^ nat (p + 2)) / 100 :: rat) = of_nat c / 100"
    using scaled_hundredth [OF p, of s] v by (simp only:)
  then have s: "s * 10 ^ nat (p + 2) = c" by (simp only: divide_cancel_right of_nat_eq_iff) simp
  then have "0 < s" using False by (cases s) simp_all
  have "10 ^ (length (show_nat s) - 1 + nat (p + 2)) \<le> c"
    using mult_right_mono [OF conjunct1 [OF length_show_nat [OF \<open>0 < s\<close>]], of "10 ^ nat (p + 2)"] s
    by (simp add: power_add)
  also have "\<dots> \<le> 10 ^ 15" by (rule assms)
  finally have "length (show_nat s) - 1 + nat (p + 2) \<le> 15" by (rule power_le_imp_le_exp [rotated]) simp
  moreover have "0 < length (show_nat s)" by simp
  ultimately have "unsigned_decimal (decimal_text s p) = Some (scaled s p)"
    using p by (intro decimal_text_reads) linarith+
  then show ?thesis using v sp lo(2) by (simp add: js_toString_def pos_toString_def)
qed

lemma toString_nat: "n \<le> 10 ^ 13 \<Longrightarrow> unsigned_decimal (js_toString (of_nat n)) = Some (of_nat n)"
proof -
  assume n: "n \<le> 10 ^ 13"
  have "fl (of_nat (100 * n) / 100) = of_nat n"
    using fl_of_int [of "int n"] n by simp
  then show ?thesis using toString_hundredth [of "100 * n"] n by simp
qed

text \<open>The text of a whole number is its decimal digits.\<close>

lemma zero_char: "char_of (48 :: nat) = CHR ''0''"
  by code_simp

lemma show_nat_shift: "0 < s \<Longrightarrow> show_nat s @ replicate j CHR ''0'' = show_nat (s * 10 ^ j)"
proof (induction j)
  case (Suc j)
  have "show_nat (s * 10 ^ Suc j) = show_nat (s * 10 ^ j) @ [CHR ''0'']"
    using Suc.prems zero_char by (subst show_nat.simps) simp
  then show ?case using Suc by (simp flip: replicate_append_same)
qed simp

lemma toString_nat_digits: "n \<le> 10 ^ 13 \<Longrightarrow> js_toString (of_nat n) = show_nat n"
proof (cases "n = 0")
  case True
  have "show_nat 0 = ''0''" by code_simp
  then show ?thesis using True by (simp add: js_toString_def)
next
  case False
  assume n: "n \<le> 10 ^ 13"
  let ?x = "of_nat n :: rat" and ?L = "length (show_nat n)"
  have L: "dec_exp ?x = int ?L" using False by (simp add: dec_exp_def)
  have pos: "0 < n" "0 < ?L" using False by simp_all
  have "10 ^ (?L - 1) \<le> n" using length_show_nat [OF pos(1)] by simp
  also have "n \<le> 10 ^ 13" by (rule n)
  finally have "?L - 1 \<le> 13" by (rule power_le_imp_le_exp [rotated]) simp
  then have L14: "?L \<le> 14" by simp
  have "fl (of_int (int n)) = of_int (int n)" using n by (intro fl_of_int) simp
  then have fl: "?x = fl (of_nat n / 10 ^ 0)" by simp
  obtain s p where sp: "shortest 17 ?x (int ?L) 1 = (s, p)" by (cases "shortest 17 ?x (int ?L) 1")
  have v: "scaled s p = ?x" and p: "0 \<le> p"
    using shortest_grid [OF fl, of 1 "int ?L" 17] n pos(2) L14 sp by simp_all
  have "of_nat (s * 10 ^ nat p) = ?x" using v p by (simp add: scaled_def)
  then have s: "s * 10 ^ nat p = n" by (simp only: of_nat_eq_iff)
  then have s0: "0 < s" using False by (cases s) simp_all
  have text0: "show_nat s @ replicate (nat p) CHR ''0'' = show_nat n" using show_nat_shift [OF s0, of "nat p"] s by simp
  then have "length (show_nat s) + nat p = ?L" by (metis length_append length_replicate)
  then have "int (length (show_nat s)) + p \<le> 21" using L14 p by linarith
  then have "decimal_text s p = show_nat n" using p text0 by (simp add: decimal_text_def Let_def)
  then show ?thesis using sp L False by (simp add: js_toString_def pos_toString_def)
qed

end
