(* ===== verification/Fixtures.thy ===== *)
theory Fixtures
  imports Auth_Schema Server Js_Print
begin

text \<open>
  The fixtures of the control plane's tests, \<open>apps/control-plane/src/test-helpers.ts\<close>, which play the
  agent's part: an organization, a node with a fresh key pair, and the header the agent signs. The
  encodings of Node's \<open>Buffer\<close> are defined here; generating keys, exporting and signing with them,
  and Fastify's \<open>inject\<close> and \<open>listen\<close> are parameters. The result ties the two sides together: a header
  built this way is accepted by \<open>authenticateNode\<close>.
\<close>

section \<open>Encodings\<close>

text \<open>\<open>Buffer.from(text)\<close>: UTF-8, for code units up to 255.\<close>

definition utf8_char :: "char \<Rightarrow> bytes" where
  "utf8_char c =
     (let n = (of_char c :: nat) in
      if n < 128 then [of_nat n] else [of_nat (192 + n div 64), of_nat (128 + n mod 64)])"

definition utf8 :: "string \<Rightarrow> bytes" where
  "utf8 text = concat (map utf8_char text)"

text \<open>\<open>buffer.toString("base64url")\<close>: six bits to a character, no padding.\<close>

definition BASE64URL :: string where
  "BASE64URL = ''ABCDEFGHIJKLMNOPQRSTUVWXYZabcdefghijklmnopqrstuvwxyz0123456789-_''"

fun sextets :: "nat list \<Rightarrow> nat list" where
  "sextets [] = []"
| "sextets [a] = [a div 4, a mod 4 * 16]"
| "sextets [a, b] = [a div 4, a mod 4 * 16 + b div 16, b mod 16 * 4]"
| "sextets (a # b # c # r) =
     a div 4 # (a mod 4 * 16 + b div 16) # (b mod 16 * 4 + c div 64) # c mod 64 # sextets r"

definition base64url_encode :: "bytes \<Rightarrow> string" where
  "base64url_encode bs = map (\<lambda>i. BASE64URL ! i) (sextets (map unat bs))"

text \<open>Reading it back, for a text of the alphabet.\<close>

fun octets :: "nat list \<Rightarrow> nat list" where
  "octets (p # q # r # s # rest) =
     (p * 4 + q div 16) # (q mod 16 * 16 + r div 4) # (r mod 4 * 64 + s) # octets rest"
| "octets [p, q, r] = [p * 4 + q div 16, q mod 16 * 16 + r div 4]"
| "octets [p, q] = [p * 4 + q div 16]"
| "octets _ = []"

fun index_of :: "'a \<Rightarrow> 'a list \<Rightarrow> nat" where
  "index_of x [] = 0"
| "index_of x (y # ys) = (if x = y then 0 else Suc (index_of x ys))"

definition base64url_decode :: "string \<Rightarrow> bytes" where
  "base64url_decode s = map of_nat (octets (map (\<lambda>c. index_of c BASE64URL) s))"

lemma sextets_bound: "\<forall>b \<in> set bs. b < 256 \<Longrightarrow> i \<in> set (sextets bs) \<Longrightarrow> i < 64"
  by (induction bs rule: sextets.induct) auto

lemma octets_sextets: "\<forall>b \<in> set bs. b < 256 \<Longrightarrow> octets (sextets bs) = bs"
  by (induction bs rule: sextets.induct) auto

lemma sextets_Nil [simp]: "sextets bs = [] \<longleftrightarrow> bs = []"
  by (cases bs rule: sextets.cases) auto

lemma base64url_length [simp]: "length BASE64URL = 64"
  by (simp add: BASE64URL_def)

lemma base64url_distinct: "distinct BASE64URL"
  by code_simp

lemma index_of_nth: "distinct xs \<Longrightarrow> i < length xs \<Longrightarrow> index_of (xs ! i) xs = i"
proof (induction xs arbitrary: i)
  case (Cons x xs)
  then show ?case by (cases i) auto
qed simp

lemma unat_bytes: "\<forall>b \<in> set (map unat (bs :: bytes)). b < 256"
proof -
  have "unat (w :: 8 word) < 256" for w
    using unsigned_less [of w, where 'a = nat] by simp
  then show ?thesis by simp
qed

theorem base64url_roundtrip: "base64url_decode (base64url_encode bs) = bs"
proof -
  have "map (\<lambda>i. index_of (BASE64URL ! i) BASE64URL) (sextets (map unat bs)) = sextets (map unat bs)"
    using sextets_bound [OF unat_bytes] by (intro map_idI) (simp add: index_of_nth base64url_distinct)
  then show ?thesis
    by (simp add: base64url_decode_def base64url_encode_def comp_def octets_sextets [OF unat_bytes])
qed

lemma base64url_chars: "c \<in> set (base64url_encode bs) \<Longrightarrow> c \<in> set BASE64URL"
  using sextets_bound [OF unat_bytes, of _ bs] by (auto simp: base64url_encode_def)

lemma base64url_no_dot: "CHR ''.'' \<notin> set (base64url_encode bs)"
proof -
  have "CHR ''.'' \<notin> set BASE64URL" by code_simp
  then show ?thesis using base64url_chars by blast
qed

lemma base64url_Nil [simp]: "base64url_encode bs = [] \<longleftrightarrow> bs = []"
  by (simp add: base64url_encode_def)

lemma utf8_Nil [simp]: "utf8 text = [] \<longleftrightarrow> text = []"
  by (cases "text") (simp_all add: utf8_def utf8_char_def Let_def)

section \<open>The fixtures\<close>

definition GiB :: number where
  "GiB = 1024 ^ 3"

definition createOrg :: "string \<Rightarrow> millis \<Rightarrow> string \<Rightarrow> (db, error, string) op" where
  "createOrg randomUUID now name =
     (let id = ''org_'' @ take 8 randomUUID in
      op_bind (pg_check (check_columns [id, name] [] [])) (\<lambda>_.
      op_bind (pg_check (pg_timestamp now)) (\<lambda>createdAt.
      op_bind (insert_organization \<lparr>o_id = id, o_name = name, o_slug = id, o_logo = None,
                 o_createdAt = createdAt, o_metadata = None\<rparr>)
        (\<lambda>_. op_return id))))"

text \<open>\<open>bytes.subarray(k)\<close>; a negative index counts from the end.\<close>

definition subarray_from :: "int \<Rightarrow> bytes \<Rightarrow> bytes" where
  "subarray_from k bs = drop (nat (if k < 0 then int (length bs) + k else k)) bs"

text \<open>\<open>pair\<close> is the result of \<open>generateKeyPairSync\<close>, \<open>export\<close> the DER encoding of a public key.\<close>

definition newNodeKey :: "('pub \<Rightarrow> bytes) \<Rightarrow> 'priv \<times> 'pub \<Rightarrow> 'priv \<times> bytes" where
  "newNodeKey export pair =
     (let der = export (snd pair) in (fst pair, subarray_from (int (length der) - 32) der))"

text \<open>
  \<open>vals\<close> (the caller's \<open>values\<close>) sets the columns the caller gives; the others have the defaults. \<open>fresh\<close> and \<open>created\<close> are
  the generated id and the time of the insert.
\<close>

definition createNode :: "conn \<Rightarrow> ('pub \<Rightarrow> bytes) \<Rightarrow> 'priv \<times> 'pub \<Rightarrow> uuid \<Rightarrow> millis \<Rightarrow> string
   \<Rightarrow> (node_row \<Rightarrow> node_row) \<Rightarrow> (db, error, uuid \<times> 'priv) op" where
  "createNode owner export pair fresh created orgId vals =
     (case newNodeKey export pair of
        (privateKey, publicKey) \<Rightarrow>
          (let row = vals \<lparr>n_id = fresh, n_orgId = orgId, n_name = ''node'', n_status = ''offline'', n_platform = [],
                 n_arch = [], n_osVersion = [], n_agentVersion = [], n_hostname = [], n_totalMemoryBytes = 0,
                 n_cpuCores = 0, n_publicKey = publicKey, n_siteId = None, n_lastSeenAt = None, n_createdAt = created\<rparr>
           in op_bind (pg_check (uuid_in (n_id row))) (\<lambda>nid.
              op_bind (pg_check (node_columns row)) (\<lambda>_.
              op_bind (pg_check (case n_lastSeenAt row of None \<Rightarrow> Inr 0 | Some t \<Rightarrow> pg_timestamp t)) (\<lambda>_.
              op_bind (insert_node owner (row\<lparr>n_id := nid\<rparr>)) (\<lambda>stored. op_return (n_id stored, privateKey)))))))"

text \<open>\<open>sign key text\<close> is \<open>sign(null, Buffer.from(text), key)\<close>.\<close>

definition nodeAuthHeader :: "('priv \<Rightarrow> string \<Rightarrow> bytes) \<Rightarrow> string \<Rightarrow> 'priv \<Rightarrow> number \<Rightarrow> string \<Rightarrow> string" where
  "nodeAuthHeader sign nodeId privateKey atMs nonce =
     (let payload = nodeId @ ''.'' @ js_toString atMs @ ''.'' @ base64url_encode (utf8 nonce)
      in NODE_AUTH_SCHEME @ payload @ ''.'' @ base64url_encode (sign privateKey payload))"

text \<open>
  What \<open>inject\<close> answers: the status, the body as text and as JSON, and the \<open>set-cookie\<close> header, which is
  missing, a string or an array of strings.
\<close>

datatype header_value = NoHeader | OneHeader string | ManyHeaders "string list"

record injected =
  ij_statusCode :: nat
  ij_body :: string
  ij_json :: json
  ij_setCookie :: header_value

fun json_field :: "string \<Rightarrow> json \<Rightarrow> json option" where
  "json_field key (JObject kvs) = map_of kvs key"
| "json_field key (JString _) = None"

fun join_text :: "string \<Rightarrow> string list \<Rightarrow> string" where
  "join_text sep [] = []"
| "join_text sep [x] = x"
| "join_text sep (x # y # zs) = x @ sep @ join_text sep (y # zs)"

definition signUp :: "(string \<Rightarrow> string \<Rightarrow> json option \<Rightarrow> string option \<Rightarrow> ('s, error, injected) op) \<Rightarrow> string
   \<Rightarrow> string option \<Rightarrow> ('s, error, string \<times> string \<times> json option) op" where
  "signUp inject randomUUID given =
     (let email = (case given of Some e \<Rightarrow> e | None \<Rightarrow> ''t-'' @ randomUUID @ ''@example.com'') in
      op_bind (inject ''POST'' ''/api/auth/sign-up/email'' (Some (JObject [(''email'', JString email),
                 (''password'', JString ''correct-horse-battery''), (''name'', JString ''Test User'')])) None)
        (\<lambda>res.
           if 400 \<le> ij_statusCode res
           then op_throw (JsError (''sign-up failed: '' @ js_toString (of_nat (ij_statusCode res)) @ '' '' @ ij_body res))
           else
             (let cookie = (case ij_setCookie res of
                  ManyHeaders hs \<Rightarrow> join_text ''; '' hs | OneHeader h \<Rightarrow> h | NoHeader \<Rightarrow> ''undefined'')
              in op_bind (inject ''GET'' ''/api/me'' None (Some cookie)) (\<lambda>answer.
                   case json_field ''org'' (ij_json answer) of
                     None \<Rightarrow> op_throw (JsError ''TypeError'')
                   | Some org \<Rightarrow> op_return (cookie, email, json_field ''id'' org)))))"

datatype address = NoAddress | PipeName string | Port nat

definition listen :: "('s, error, address) op \<Rightarrow> ('s, error, string) op" where
  "listen bind_loopback =
     op_bind bind_loopback (\<lambda>address.
       case address of
         Port p \<Rightarrow> op_return (''http://127.0.0.1:'' @ js_toString (of_nat p))
       | _ \<Rightarrow> op_throw (JsError ''no port bound''))"

section \<open>The fixtures keep the database well-formed\<close>

lemma wf_createOrg [wf_intros]: "keeps wf_db (createOrg randomUUID now name)"
  unfolding createOrg_def Let_def by (intro wf_intros)

lemma newNodeKey_raw:
  assumes "export pub = SPKI_ED25519_PREFIX @ raw" and "length raw = 32"
  shows "newNodeKey export (priv, pub) = (priv, raw)"
  using assms by (simp add: newNodeKey_def subarray_from_def Let_def SPKI_ED25519_PREFIX_def)

lemma lower_hex: "is_hex c \<Longrightarrow> is_hex (lower_char c) \<and> lower_char (lower_char c) = lower_char c"
  by (auto simp: is_hex_def is_digit_def in_range_def lower_char_def is_upper_def Let_def of_char_char_of)

lemma lower_dash: "lower_char CHR ''-'' = CHR ''-''"
  by code_simp

lemma lower_groups:
  "list_all2 (\<lambda>hex c. if hex then is_hex c else c = CHR ''-'') gs s \<Longrightarrow>
     list_all2 (\<lambda>hex c. if hex then is_hex c else c = CHR ''-'') gs (map lower_char s)
     \<and> map lower_char (map lower_char s) = map lower_char s"
  by (induction rule: list_all2_induct) (auto simp: lower_hex lower_dash split: if_splits)

lemma lower_uuid: "isUuid s \<Longrightarrow> isUuid (toLowerCase s) \<and> toLowerCase (toLowerCase s) = toLowerCase s"
  unfolding isUuid_def toLowerCase_def by (rule lower_groups)

lemma uuid_no_dot: "isUuid s \<Longrightarrow> CHR ''.'' \<notin> set s"
proof -
  have dot: "\<not> is_hex CHR ''.''" by code_simp
  have "CHR ''.'' \<notin> set s" if "list_all2 (\<lambda>hex c. if hex then is_hex c else c = CHR ''-'') gs s" for gs s
    using that
  proof (induction rule: list_all2_induct)
    case (Cons g gs c s)
    then show ?case using dot by (auto split: if_splits)
  qed simp
  then show "isUuid s \<Longrightarrow> CHR ''.'' \<notin> set s" unfolding isUuid_def by blast
qed

lemma insert_node_row: "insert_node c row s = (Inr x, t) \<Longrightarrow> x = row"
  by (auto simp: insert_node_def split: if_splits)

lemma createNode_success:
  assumes "createNode owner export (priv, pub) fresh created org vals s = (Inr (nodeId, key), s')"
    and "export pub = SPKI_ED25519_PREFIX @ raw" and "length raw = 32"
    and "\<And>r. n_publicKey (vals r) = n_publicKey r \<and> n_orgId (vals r) = n_orgId r \<and> (node_ok r \<longrightarrow> node_ok (vals r))"
  shows "\<exists>row. key = priv \<and> n_id row = nodeId \<and> n_publicKey row = raw \<and> n_orgId row = org \<and> node_ok row
     \<and> insert_node owner row s = (Inr row, s') \<and> row \<in> set (t_nodes s') \<and> isUuid nodeId \<and> toLowerCase nodeId = nodeId"
proof -
  define base where "base = \<lparr>n_id = fresh, n_orgId = org, n_name = ''node'', n_status = ''offline'', n_platform = [],
     n_arch = [], n_osVersion = [], n_agentVersion = [], n_hostname = [], n_totalMemoryBytes = 0,
     n_cpuCores = 0, n_publicKey = raw, n_siteId = None, n_lastSeenAt = None, n_createdAt = created\<rparr>"
  have ok: "node_ok base" using assms(3) by (simp add: base_def node_ok_def)
  define row where "row = (vals base)\<lparr>n_id := toLowerCase (n_id (vals base))\<rparr>"
  have ins: "isUuid (n_id (vals base))" "insert_node owner row s = (Inr row, s')" "nodeId = n_id row" "key = priv"
    using assms(1) unfolding createNode_def newNodeKey_raw [of export, OF assms(2,3)] Let_def prod.case base_def [symmetric]
    by (auto simp: bind_check uuid_in_def row_def elim!: op_bind_success split: sum.splits if_splits
        dest: insert_node_row)
  have "node_ok row" "n_publicKey row = raw" "n_orgId row = org"
    using assms(4) ok by (simp_all add: row_def node_ok_def) (simp_all add: base_def)
  moreover have "row \<in> set (t_nodes s')" using ins(2) by (auto simp: insert_node_def split: if_splits)
  moreover have "isUuid nodeId" "toLowerCase nodeId = nodeId" using lower_uuid [OF ins(1)] ins(3) by (simp_all add: row_def)
  ultimately show ?thesis using ins by blast
qed

section \<open>The header the agent builds is the one the server accepts\<close>

lemma millis_roundtrip: "n \<le> 10 ^ 13 \<Longrightarrow> js_Number (js_toString (of_nat n)) = Finite (of_nat n)"
proof -
  assume n: "n \<le> 10 ^ 13"
  then have "digits_value 10 0 (show_nat n) < 2 ^ 53" by simp
  then show ?thesis unfolding toString_nat_digits [OF n] using js_Number_digits [of "show_nat n"] by simp
qed

lemma digits_no_dot: "list_all is_digit s \<Longrightarrow> CHR ''.'' \<notin> set s"
  by (auto simp: list_all_iff is_digit_def in_range_def)

text \<open>(C13) The two ends of the protocol agree: a node stored with the public half of a fresh key pair and
  a header signed with the private half, for any organization, clock value of this age and nonce,
  is accepted while the clocks differ by no more than the skew and the nonce is new, as that node
  and for that organization.\<close>

theorem genuine_header_accepted:
  assumes "wf_db s" and "export pub = SPKI_ED25519_PREFIX @ raw" and "length raw = 32"
    and "\<And>r. n_publicKey (vals r) = n_publicKey r \<and> n_orgId (vals r) = n_orgId r \<and> (node_ok r \<longrightarrow> node_ok (vals r))"
    and "createNode OwnerConn export (priv, pub) fresh created org vals s = (Inr (nodeId, privateKey), s')"
    and "createPublicKey (export pub) = Some key"
    and "\<And>text. verify key text (sign priv text) = Some True \<and> sign priv text \<noteq> []"
    and "\<And>bs. base64url (base64url_encode bs) = bs"
    and "atMs \<le> 10 ^ 13" and "\<bar>checked - int atMs\<bar> \<le> k" and "k \<le> 2 ^ 53" and "nonce \<noteq> []"
    and "redis_set stored (nonce_key nodeId (base64url_encode (utf8 nonce))) ''1'' (js_mul (of_int k) 2) r
       = (Inr (Some ''OK''), r')"
  shows "authenticateNode createPublicKey verify base64url redis_set OwnerConn (of_int k) checked stored s'
      (Some (nodeAuthHeader sign nodeId privateKey (of_nat atMs) nonce)) r = (Inr (nodeId, org), r')"
proof -
  obtain row where row: "privateKey = priv" "n_id row = nodeId" "n_publicKey row = raw" "n_orgId row = org" "node_ok row"
    "insert_node OwnerConn row s = (Inr row, s')" "row \<in> set (t_nodes s')" "isUuid nodeId" "toLowerCase nodeId = nodeId"
    using createNode_success [OF assms(5,2,3,4)] by blast
  have wf: "wf_db s'" using keepsD [OF wf_insert_node [OF row(5)] assms(1) row(6)] .
  let ?m = "js_toString (of_nat atMs)" and ?n = "base64url_encode (utf8 nonce)"
  let ?sg = "base64url_encode (sign priv (signed_text nodeId ?m ?n))"
  have hdr: "nodeAuthHeader sign nodeId privateKey (of_nat atMs) nonce = auth_header nodeId ?m ?n ?sg"
    by (simp add: nodeAuthHeader_def auth_header_def signed_text_def row(1))
  have m: "list_all is_digit ?m" "?m \<noteq> []" using toString_nat_digits [OF assms(9)] by simp_all
  have dots: "CHR ''.'' \<notin> set nodeId \<union> set ?m \<union> set ?n \<union> set ?sg"
    using uuid_no_dot [OF row(8)] digits_no_dot [OF m(1)] base64url_no_dot by blast
  have "js_sub (of_int checked) (of_int (int atMs)) = of_int (checked - int atMs)"
    using assms(10,11) by (intro js_sub_exact) linarith
  moreover have "(of_int \<bar>checked - int atMs\<bar> :: rat) \<le> of_int k" using assms(10) by (simp only: of_int_le_iff)
  ultimately have skew: "\<bar>js_sub (of_int checked) (of_nat atMs)\<bar> \<le> of_int k" by simp
  have key: "toKeyObject createPublicKey (n_publicKey row) = Some key"
    using assms(2,6) by (simp add: toKeyObject_def row(3))
  have ver: "verify key (signed_text nodeId ?m ?n) (base64url ?sg) = Some True" using assms(7,8) by simp
  have "authenticateNode createPublicKey verify base64url redis_set OwnerConn (of_int k) checked stored s'
      (Some (auth_header nodeId ?m ?n ?sg)) r = (Inr (nodeId, n_orgId row), r')"
  proof (rule authenticate_accepts)
    show "toLowerCase nodeId = n_id row" using row(2,9) by simp
    show "?n \<noteq> []" "?sg \<noteq> []" using assms(7,12) by simp_all
    show "js_Number ?m = Finite (of_nat atMs)" by (rule millis_roundtrip [OF assms(9)])
  qed (fact wf row(7,8) dots m(2) skew key ver assms(13))+
  then show ?thesis using hdr row(4) by simp
qed

text \<open>A toy signature scheme, the key pair of the demo node, and the concrete codec.\<close>

definition toy_sign :: "unit \<Rightarrow> string \<Rightarrow> bytes" where
  "toy_sign _ message = 1 # utf8 message"

definition toy_verify :: "bytes \<Rightarrow> string \<Rightarrow> bytes \<Rightarrow> bool option" where
  "toy_verify _ message signature = Some (signature = 1 # utf8 message)"

definition toy_export :: "bytes \<Rightarrow> bytes" where
  "toy_export raw = SPKI_ED25519_PREFIX @ raw"

theorem genuine_header_accepted_witness:
  "\<exists>s' r'. authenticateNode Some toy_verify base64url_decode px_set OwnerConn 60000 1000 1001 s'
      (Some (nodeAuthHeader toy_sign demo_id () 2000 ''n'')) [] = (Inr (demo_id, ''org_a''), r')"
proof -
  let ?s = "auth_db\<lparr>t_nodes := []\<rparr>"
  have id: "isUuid demo_id" "toLowerCase demo_id = demo_id" by code_simp+
  have new: "newNodeKey toy_export ((), replicate 32 9) = ((), replicate 32 9)"
    by (rule newNodeKey_raw) (simp_all add: toy_export_def)
  have s: "wf_db ?s"
    by (simp add: auth_db_def wf_db_def wf_nodes_def wf_devices_def wf_pairing_def)
  have "\<exists>s'. createNode OwnerConn toy_export ((), replicate 32 9) demo_id 0 ''org_a'' (\<lambda>r. r) ?s = (Inr (demo_id, ()), s')"
    unfolding createNode_def new
    by (simp add: Let_def bind_check uuid_in_def id node_columns_def check_columns_def pg_text_def pg_int8_def pg_int4_def
        insert_node_def org_isolation_def auth_db_def)
  then obtain s' where s': "createNode OwnerConn toy_export ((), replicate 32 9) demo_id 0 ''org_a'' (\<lambda>r. r) ?s
      = (Inr (demo_id, ()), s')" ..
  have "js_mul (of_int 60000) 2 = 120000" using fl_of_int [of 120000] by (simp add: js_mul_def)
  moreover have "BigInt 120000 = Some 120000" using BigInt_of_int [of 120000] by simp
  ultimately have px: "px_set 1001 (nonce_key demo_id (base64url_encode (utf8 ''n''))) ''1'' (js_mul (of_int 60000) 2) []
      = (Inr (Some ''OK''), [(nonce_key demo_id (base64url_encode (utf8 ''n'')), 1001 + 120000)])"
    by (simp add: px_set_def px_live_def)
  have "authenticateNode Some toy_verify base64url_decode px_set OwnerConn (of_int 60000) 1000 1001 s'
      (Some (nodeAuthHeader toy_sign demo_id () (of_nat 2000) ''n'')) []
    = (Inr (demo_id, ''org_a''), [(nonce_key demo_id (base64url_encode (utf8 ''n'')), 1001 + 120000)])"
  proof (rule genuine_header_accepted [OF s])
    show "createNode OwnerConn toy_export ((), replicate 32 9) demo_id 0 ''org_a'' (\<lambda>r. r) ?s = (Inr (demo_id, ()), s')"
      by (rule s')
    show "toy_export (replicate 32 9) = SPKI_ED25519_PREFIX @ replicate 32 9" "length (replicate 32 9 :: bytes) = 32"
      by (simp_all add: toy_export_def)
    show "Some (toy_export (replicate 32 9)) = Some (toy_export (replicate 32 9))" ..
    show "px_set 1001 (nonce_key demo_id (base64url_encode (utf8 ''n''))) ''1'' (js_mul (of_int 60000) 2) []
      = (Inr (Some ''OK''), [(nonce_key demo_id (base64url_encode (utf8 ''n'')), 1001 + 120000)])" by (rule px)
  qed (simp_all add: toy_export_def toy_verify_def toy_sign_def base64url_roundtrip)
  then show ?thesis by auto
qed

end
