(* ===== verification/Env.thy ===== *)
theory Env
  imports Server
begin

text \<open>
  The environment: \<open>apps/control-plane/src/env.ts\<close>. The schema is the program's, the validators it is
  made of are zod's: a record of functions from the text of a variable (\<open>None\<close> when it is not set) to
  the value, or \<open>None\<close> when zod rejects it. The locale \<open>zod_laws\<close> states their documented behaviour.
\<close>

section \<open>The component\<close>

record zod =
  z_coerce_number :: "number \<Rightarrow> string option \<Rightarrow> js_num option"   \<comment> \<open>\<open>z.coerce.number().default(n)\<close>\<close>
  z_string_min :: "nat \<Rightarrow> string option \<Rightarrow> string option"         \<comment> \<open>\<open>z.string().min(n)\<close>\<close>
  z_string_optional :: "string option \<Rightarrow> string option option"    \<comment> \<open>\<open>z.string().optional()\<close>\<close>
  z_string_url :: "string option \<Rightarrow> string option"                \<comment> \<open>\<open>z.string().url()\<close>\<close>

record env =
  e_PORT :: js_num
  e_AGENT_PORT :: js_num
  e_DATABASE_URL :: string
  e_DATABASE_OWNER_URL :: "string option"
  e_REDIS_URL :: string
  e_PUBLIC_URL :: string
  e_BETTER_AUTH_SECRET :: string
  e_PAIRING_CODE_PEPPER :: string
  e_NODE_AUTH_SKEW_MS :: js_num
  e_SAMPLE_INTERVAL_MS :: js_num
  e_PAIRING_CODE_TTL_MS :: js_num

text \<open>\<open>Schema.parse(process.env)\<close>; \<open>None\<close> is the error that ends the process at boot.\<close>

definition Schema_parse :: "zod \<Rightarrow> (string \<Rightarrow> string option) \<Rightarrow> env option" where
  "Schema_parse z process_env =
     Option.bind (z_coerce_number z 3000 (process_env ''PORT'')) (\<lambda>port.
     Option.bind (z_coerce_number z 3001 (process_env ''AGENT_PORT'')) (\<lambda>agentPort.
     Option.bind (z_string_min z 1 (process_env ''DATABASE_URL'')) (\<lambda>databaseUrl.
     Option.bind (z_string_optional z (process_env ''DATABASE_OWNER_URL'')) (\<lambda>ownerUrl.
     Option.bind (z_string_min z 1 (process_env ''REDIS_URL'')) (\<lambda>redisUrl.
     Option.bind (z_string_url z (process_env ''PUBLIC_URL'')) (\<lambda>publicUrl.
     Option.bind (z_string_min z 32 (process_env ''BETTER_AUTH_SECRET'')) (\<lambda>secret.
     Option.bind (z_string_min z 32 (process_env ''PAIRING_CODE_PEPPER'')) (\<lambda>pepper.
     Option.bind (z_coerce_number z 60000 (process_env ''NODE_AUTH_SKEW_MS'')) (\<lambda>skew.
     Option.bind (z_coerce_number z 5000 (process_env ''SAMPLE_INTERVAL_MS'')) (\<lambda>sampleInterval.
     Option.bind (z_coerce_number z (js_mul 15 60000) (process_env ''PAIRING_CODE_TTL_MS'')) (\<lambda>ttl.
     Some \<lparr>e_PORT = port, e_AGENT_PORT = agentPort, e_DATABASE_URL = databaseUrl, e_DATABASE_OWNER_URL = ownerUrl,
       e_REDIS_URL = redisUrl, e_PUBLIC_URL = publicUrl, e_BETTER_AUTH_SECRET = secret,
       e_PAIRING_CODE_PEPPER = pepper, e_NODE_AUTH_SKEW_MS = skew, e_SAMPLE_INTERVAL_MS = sampleInterval,
       e_PAIRING_CODE_TTL_MS = ttl\<rparr>)))))))))))"

section \<open>What a booted process knows of its environment\<close>

text \<open>A number read from a variable with a default.\<close>

definition number_from :: "string option \<Rightarrow> number \<Rightarrow> js_num \<Rightarrow> bool" where
  "number_from v n x \<longleftrightarrow> (case v of None \<Rightarrow> x = Finite n | Some t \<Rightarrow> x = js_Number t \<and> x \<noteq> NaN)"

locale zod_laws =
  fixes z :: zod
  assumes number_default: "z_coerce_number z n None = Some (Finite n)"
    and number_coerced: "z_coerce_number z n (Some t) = (if js_Number t = NaN then None else Some (js_Number t))"
    and min_unset: "z_string_min z m None = None"
    and min_set: "z_string_min z m (Some t) = (if m \<le> length t then Some t else None)"
    and optional_same: "z_string_optional z v = Some v"
    and url_same: "z_string_url z v = Some t \<Longrightarrow> v = Some t"
begin

lemma number_given: "z_coerce_number z n v = Some x \<Longrightarrow> number_from v n x"
  by (cases v) (auto simp: number_from_def number_default number_coerced split: if_splits)

lemma min_given: "z_string_min z m v = Some t \<Longrightarrow> v = Some t \<and> m \<le> length t"
  by (cases v) (auto simp: min_unset min_set split: if_splits)

lemma parsed_texts:
  assumes "Schema_parse z penv = Some e"
  shows "penv ''DATABASE_URL'' = Some (e_DATABASE_URL e) \<and> 1 \<le> length (e_DATABASE_URL e)"
    "penv ''DATABASE_OWNER_URL'' = e_DATABASE_OWNER_URL e"
    "penv ''REDIS_URL'' = Some (e_REDIS_URL e) \<and> 1 \<le> length (e_REDIS_URL e)"
    "penv ''PUBLIC_URL'' = Some (e_PUBLIC_URL e)"
    "penv ''BETTER_AUTH_SECRET'' = Some (e_BETTER_AUTH_SECRET e) \<and> 32 \<le> length (e_BETTER_AUTH_SECRET e)"
    "penv ''PAIRING_CODE_PEPPER'' = Some (e_PAIRING_CODE_PEPPER e) \<and> 32 \<le> length (e_PAIRING_CODE_PEPPER e)"
  using assms
  by (auto simp: Schema_parse_def bind_eq_Some_conv optional_same dest!: min_given url_same)

lemma parsed_numbers:
  assumes "Schema_parse z penv = Some e"
  shows "number_from (penv ''PORT'') 3000 (e_PORT e)" "number_from (penv ''AGENT_PORT'') 3001 (e_AGENT_PORT e)"
    "number_from (penv ''NODE_AUTH_SKEW_MS'') 60000 (e_NODE_AUTH_SKEW_MS e)"
    "number_from (penv ''SAMPLE_INTERVAL_MS'') 5000 (e_SAMPLE_INTERVAL_MS e)"
    "number_from (penv ''PAIRING_CODE_TTL_MS'') 900000 (e_PAIRING_CODE_TTL_MS e)"
proof -
  have ttl: "js_mul 15 60000 = 900000" using fl_of_int [of 900000] by (simp add: js_mul_def)
  show "number_from (penv ''PORT'') 3000 (e_PORT e)" "number_from (penv ''AGENT_PORT'') 3001 (e_AGENT_PORT e)"
    "number_from (penv ''NODE_AUTH_SKEW_MS'') 60000 (e_NODE_AUTH_SKEW_MS e)"
    "number_from (penv ''SAMPLE_INTERVAL_MS'') 5000 (e_SAMPLE_INTERVAL_MS e)"
    "number_from (penv ''PAIRING_CODE_TTL_MS'') 900000 (e_PAIRING_CODE_TTL_MS e)"
    using assms by (auto simp: Schema_parse_def bind_eq_Some_conv ttl dest!: number_given)
qed

end

text \<open>A model of the laws.\<close>

definition zod_model :: zod where
  "zod_model = \<lparr>z_coerce_number = (\<lambda>n v. case v of None \<Rightarrow> Some (Finite n)
        | Some t \<Rightarrow> if js_Number t = NaN then None else Some (js_Number t)),
     z_string_min = (\<lambda>m v. case v of None \<Rightarrow> None | Some t \<Rightarrow> if m \<le> length t then Some t else None),
     z_string_optional = Some,
     z_string_url = (\<lambda>v. case v of None \<Rightarrow> None | Some t \<Rightarrow> if startsWith t ''http'' then Some t else None)\<rparr>"

interpretation zod_ref: zod_laws zod_model
  by unfold_locales (auto simp: zod_model_def split: option.splits if_splits)

text \<open>A process that boots has what it needs: the texts that the schema requires are set and long
  enough, every number is the one its variable says or the default when the variable is not set,
  never NaN, and opening the two database connections then does not throw: the owner's is the
  variable's when it is set, else the application's.\<close>

theorem booted_environment:
  assumes "zod_laws z" and "Schema_parse z process_env = Some e"
  shows "database_urls (process_env ''DATABASE_URL'') (process_env ''DATABASE_OWNER_URL'')
       = Inr (e_DATABASE_URL e, case e_DATABASE_OWNER_URL e of Some u \<Rightarrow> u | None \<Rightarrow> e_DATABASE_URL e)
     \<and> process_env ''REDIS_URL'' = Some (e_REDIS_URL e) \<and> e_REDIS_URL e \<noteq> []
     \<and> process_env ''PUBLIC_URL'' = Some (e_PUBLIC_URL e)
     \<and> 32 \<le> length (e_BETTER_AUTH_SECRET e) \<and> 32 \<le> length (e_PAIRING_CODE_PEPPER e)
     \<and> number_from (process_env ''PORT'') 3000 (e_PORT e)
     \<and> number_from (process_env ''AGENT_PORT'') 3001 (e_AGENT_PORT e)
     \<and> number_from (process_env ''NODE_AUTH_SKEW_MS'') 60000 (e_NODE_AUTH_SKEW_MS e)
     \<and> number_from (process_env ''SAMPLE_INTERVAL_MS'') 5000 (e_SAMPLE_INTERVAL_MS e)
     \<and> number_from (process_env ''PAIRING_CODE_TTL_MS'') 900000 (e_PAIRING_CODE_TTL_MS e)"
  using zod_laws.parsed_texts [OF assms] zod_laws.parsed_numbers [OF assms]
  by (auto simp: database_urls_def)

text \<open>A variable that is set to nothing is not a variable that is not set: a blank
  \<open>SAMPLE_INTERVAL_MS\<close> is the interval zero, not the default of five seconds, and the process boots
  with it; from then on every sweep takes every node that was ever seen before that moment offline
  at once.\<close>

theorem blank_interval_sweeps_all:
  assumes "zod_laws z" and "Schema_parse z process_env = Some e"
    and "process_env ''SAMPLE_INTERVAL_MS'' = Some blank" and "list_all is_space blank"
    and "0 \<le> now" and "now \<le> 253402300799999"
  shows "\<exists>interval. e_SAMPLE_INTERVAL_MS e = Finite interval \<and>
     (\<exists>changed. sweepOfflineNodes OwnerConn interval now s = (Inr changed,
        s\<lparr>t_nodes := map (\<lambda>n. if seen_before now n then n\<lparr>n_status := ''offline''\<rparr> else n) (t_nodes s)\<rparr>))"
proof -
  have z: "e_SAMPLE_INTERVAL_MS e = Finite 0"
    using zod_laws.parsed_numbers(4) [OF assms(1,2)] js_Number_blank [OF assms(4)]
    by (simp add: assms(3) number_from_def)
  have "n\<lparr>n_status := swept_status 0 now n\<rparr> = (if seen_before now n then n\<lparr>n_status := ''offline''\<rparr> else n)" for n
    by (simp add: swept_status_def seen_before_def split: option.split)
  then have "\<exists>changed. sweepOfflineNodes OwnerConn 0 now s = (Inr changed,
      s\<lparr>t_nodes := map (\<lambda>n. if seen_before now n then n\<lparr>n_status := ''offline''\<rparr> else n) (t_nodes s)\<rparr>)"
    using sweep_result [of 0 now s] assms(5,6) by simp
  with z show ?thesis by blast
qed

definition sample_env :: "string \<Rightarrow> string \<Rightarrow> string option" where
  "sample_env interval = map_of
     [(''DATABASE_URL'', ''postgres://app''), (''REDIS_URL'', ''redis://r''), (''PUBLIC_URL'', ''http://localhost''),
      (''BETTER_AUTH_SECRET'', replicate 32 CHR ''s''), (''PAIRING_CODE_PEPPER'', replicate 32 CHR ''p''),
      (''SAMPLE_INTERVAL_MS'', interval)]"

lemma sample_env_blank: "\<exists>e. Schema_parse zod_model (sample_env []) = Some e"
  by (simp add: Schema_parse_def zod_model_def sample_env_def js_Number_blank)

theorem booted_environment_witness:
  "database_urls (sample_env [] ''DATABASE_URL'') (sample_env [] ''DATABASE_OWNER_URL'')
     = Inr (''postgres://app'', ''postgres://app'')"
proof -
  obtain e where e: "Schema_parse zod_model (sample_env []) = Some e" using sample_env_blank by blast
  show ?thesis
    using booted_environment [OF zod_ref.zod_laws_axioms e] by (auto simp: sample_env_def database_urls_def)
qed

theorem blank_interval_sweeps_all_witness:
  "map n_status (t_nodes (snd (sweepOfflineNodes OwnerConn 0 100000 sweep_db)))
     = [''offline'', ''offline'', ''offline'', ''offline'']"
proof -
  obtain e where e: "Schema_parse zod_model (sample_env []) = Some e" using sample_env_blank by blast
  have "e_SAMPLE_INTERVAL_MS e = Finite 0"
    using zod_ref.parsed_numbers(4) [OF e] by (simp add: number_from_def sample_env_def js_Number_blank)
  then show ?thesis
    using blank_interval_sweeps_all [OF zod_ref.zod_laws_axioms e, of "[]" 100000 sweep_db]
    by (auto simp: sample_env_def sweep_db_def sweep_node_def seen_before_def)
qed

end
