(* ===== verification/Process.thy ===== *)
theory Process
  imports Env
begin

text \<open>
  The process: \<open>apps/control-plane/src/main.ts\<close> and the timer of \<open>jobs/offline-sweeper.ts\<close>. Building and
  binding the two listeners are awaited in order; then the sweeper's timer starts and the signal
  handlers are installed. What the runtime does of its own is an event: an await that settles, a
  tick of the timer, a sweep that settles, a signal, a listener that has closed. Node ends a process
  with status 1 on a rejected top-level await or a rejection that nothing handles (there is no
  \<open>unhandledRejection\<close> handler in the sources). \<open>Signal\<close> stands for the signals whose default action is to
  end the process: one without a handler kills it.
\<close>

section \<open>The component\<close>

datatype stage = BuildApp | ListenApp | BuildAgentApp | ListenAgentApp | Started

datatype listener = Unbuilt | Built | Listening | Closed

datatype ending = Exit nat | Killed string

record main_state =
  ms_stage :: stage
  ms_app :: listener
  ms_agentApp :: listener
  ms_timer :: bool
  ms_sweeps :: nat          \<comment> \<open>sweeps under way\<close>
  ms_shutdowns :: nat       \<comment> \<open>signals handled, each with a \<open>Promise.all\<close> of its own\<close>
  ms_ending :: "ending option"

datatype event =
    AwaitResolved
  | AwaitRejected
  | Tick
  | SweepSettled "error + nat"
  | Signal string
  | AppClosed
  | AgentAppClosed
  | CloseRejected

definition main_start :: main_state where
  "main_start = \<lparr>ms_stage = BuildApp, ms_app = Unbuilt, ms_agentApp = Unbuilt, ms_timer = False,
     ms_sweeps = 0, ms_shutdowns = 0, ms_ending = None\<rparr>"

text \<open>\<open>setInterval\<close>, its callback, which discards the promise of the sweep, and the returned \<open>clearInterval\<close>.\<close>

definition startOfflineSweeper :: "main_state \<Rightarrow> main_state" where
  "startOfflineSweeper m = m\<lparr>ms_timer := True\<rparr>"

definition sweeper_tick :: "main_state \<Rightarrow> main_state" where
  "sweeper_tick m = m\<lparr>ms_sweeps := Suc (ms_sweeps m)\<rparr>"

definition stopSweeper :: "main_state \<Rightarrow> main_state" where
  "stopSweeper m = m\<lparr>ms_timer := False\<rparr>"

definition end_process :: "ending \<Rightarrow> main_state \<Rightarrow> main_state" where
  "end_process x m = m\<lparr>ms_ending := Some x\<rparr>"

text \<open>The four awaits; the code after the last one runs to the end of the module at once.\<close>

definition boot_resolved :: "main_state \<Rightarrow> main_state option" where
  "boot_resolved m =
     (case ms_stage m of
        BuildApp \<Rightarrow> Some (m\<lparr>ms_stage := ListenApp, ms_app := Built\<rparr>)
      | ListenApp \<Rightarrow> Some (m\<lparr>ms_stage := BuildAgentApp, ms_app := Listening\<rparr>)
      | BuildAgentApp \<Rightarrow> Some (m\<lparr>ms_stage := ListenAgentApp, ms_agentApp := Built\<rparr>)
      | ListenAgentApp \<Rightarrow> Some (startOfflineSweeper (m\<lparr>ms_stage := Started, ms_agentApp := Listening\<rparr>))
      | Started \<Rightarrow> None)"

text \<open>The handler of \<open>SIGINT\<close> and \<open>SIGTERM\<close>.\<close>

definition on_signal :: "main_state \<Rightarrow> main_state" where
  "on_signal m = (stopSweeper m)\<lparr>ms_shutdowns := Suc (ms_shutdowns m)\<rparr>"

text \<open>\<open>.then(() => process.exit(0))\<close>.\<close>

definition after_close :: "main_state \<Rightarrow> main_state" where
  "after_close m = (if ms_app m = Closed \<and> ms_agentApp m = Closed then end_process (Exit 0) m else m)"

text \<open>What an event does; \<open>None\<close>: it cannot happen in this state.\<close>

definition main_event :: "event \<Rightarrow> main_state \<Rightarrow> main_state option" where
  "main_event ev m =
     (if ms_ending m \<noteq> None then None
      else case ev of
        AwaitResolved \<Rightarrow> boot_resolved m
      | AwaitRejected \<Rightarrow> if ms_stage m = Started then None else Some (end_process (Exit 1) m)
      | Tick \<Rightarrow> if ms_timer m then Some (sweeper_tick m) else None
      | SweepSettled result \<Rightarrow>
          if ms_sweeps m = 0 then None
          else (case result of
                  Inr _ \<Rightarrow> Some (m\<lparr>ms_sweeps := ms_sweeps m - 1\<rparr>)
                | Inl _ \<Rightarrow> Some (end_process (Exit 1) m))
      | Signal sg \<Rightarrow>
          if ms_stage m = Started \<and> sg \<in> {''SIGINT'', ''SIGTERM''} then Some (on_signal m)
          else Some (end_process (Killed sg) m)
      | AppClosed \<Rightarrow>
          if ms_shutdowns m = 0 \<or> ms_app m = Closed then None else Some (after_close (m\<lparr>ms_app := Closed\<rparr>))
      | AgentAppClosed \<Rightarrow>
          if ms_shutdowns m = 0 \<or> ms_agentApp m = Closed then None else Some (after_close (m\<lparr>ms_agentApp := Closed\<rparr>))
      | CloseRejected \<Rightarrow> if ms_shutdowns m = 0 then None else Some (end_process (Exit 1) m))"

fun main_run :: "event list \<Rightarrow> main_state \<Rightarrow> main_state option" where
  "main_run [] m = Some m"
| "main_run (ev # evs) m = Option.bind (main_event ev m) (main_run evs)"

inductive main_step :: "main_state \<Rightarrow> main_state \<Rightarrow> bool" where
  step: "main_event ev m = Some m' \<Longrightarrow> main_step m m'"

section \<open>The life of the process\<close>

definition main_inv :: "main_state \<Rightarrow> bool" where
  "main_inv m \<longleftrightarrow>
     (ms_timer m \<longleftrightarrow> ms_stage m = Started \<and> ms_shutdowns m = 0)
     \<and> (ms_stage m = Started \<and> ms_shutdowns m = 0 \<longrightarrow> ms_app m = Listening \<and> ms_agentApp m = Listening)
     \<and> (0 < ms_sweeps m \<or> 0 < ms_shutdowns m \<longrightarrow> ms_stage m = Started)
     \<and> (ms_app m = Closed \<or> ms_agentApp m = Closed \<longrightarrow> 0 < ms_shutdowns m)
     \<and> (ms_stage m \<in> {BuildAgentApp, ListenAgentApp} \<longrightarrow> ms_app m = Listening)
     \<and> (ms_ending m = Some (Exit 0) \<longrightarrow> ms_app m = Closed \<and> ms_agentApp m = Closed)
     \<and> (ms_app m = Closed \<longrightarrow> ms_agentApp m = Closed \<longrightarrow> ms_ending m = Some (Exit 0))"

lemmas main_defs = main_event_def boot_resolved_def startOfflineSweeper_def sweeper_tick_def stopSweeper_def
  end_process_def on_signal_def after_close_def

lemma main_start_inv: "main_inv main_start"
  by (simp add: main_inv_def main_start_def)

lemma boot_inv: "main_inv m \<Longrightarrow> ms_ending m = None \<Longrightarrow> boot_resolved m = Some m' \<Longrightarrow> main_inv m'"
  by (cases "ms_stage m") (auto simp: main_inv_def boot_resolved_def startOfflineSweeper_def)

lemma close_inv:
  assumes "main_inv m" and "ms_ending m = None" and "0 < ms_shutdowns m"
  shows "main_inv (after_close (m\<lparr>ms_app := Closed\<rparr>))" "main_inv (after_close (m\<lparr>ms_agentApp := Closed\<rparr>))"
proof -
  have timer: "\<not> ms_timer m" "ms_stage m = Started" using assms by (simp_all add: main_inv_def)
  have app: "after_close (m\<lparr>ms_app := Closed\<rparr>) =
      (if ms_agentApp m = Closed then m\<lparr>ms_app := Closed, ms_ending := Some (Exit 0)\<rparr> else m\<lparr>ms_app := Closed\<rparr>)"
    by (simp add: after_close_def end_process_def)
  show "main_inv (after_close (m\<lparr>ms_app := Closed\<rparr>))"
    using timer assms(2,3) unfolding app by (cases "ms_agentApp m = Closed") (simp_all add: main_inv_def)
  have agent: "after_close (m\<lparr>ms_agentApp := Closed\<rparr>) =
      (if ms_app m = Closed then m\<lparr>ms_agentApp := Closed, ms_ending := Some (Exit 0)\<rparr> else m\<lparr>ms_agentApp := Closed\<rparr>)"
    by (simp add: after_close_def end_process_def)
  show "main_inv (after_close (m\<lparr>ms_agentApp := Closed\<rparr>))"
    using timer assms(2,3) unfolding agent by (cases "ms_app m = Closed") (simp_all add: main_inv_def)
qed

lemma end_inv: "main_inv m \<Longrightarrow> ms_ending m = None \<Longrightarrow> x \<noteq> Exit 0 \<Longrightarrow> main_inv (end_process x m)"
proof -
  assume m: "main_inv m" and e: "ms_ending m = None" and x: "x \<noteq> Exit 0"
  have "ms_agentApp m \<noteq> Closed" if "ms_app m = Closed"
    using m that unfolding main_inv_def e by blast
  then show ?thesis using m x unfolding main_inv_def end_process_def by (simp (no_asm)) blast
qed

lemma main_event_inv: "main_inv m \<Longrightarrow> main_event ev m = Some m' \<Longrightarrow> main_inv m'"
proof (cases ev)
  case (Signal sg)
  assume m: "main_inv m" and ev: "main_event ev m = Some m'"
  have "main_inv (on_signal m)" if "ms_stage m = Started" "ms_ending m = None"
    using m that by (simp add: main_inv_def on_signal_def stopSweeper_def)
  then show ?thesis
    using ev m Signal end_inv [of m "Killed sg"] by (auto simp: main_event_def split: if_splits)
next
  case (SweepSettled r)
  assume m: "main_inv m" and ev: "main_event ev m = Some m'"
  have "main_inv (m\<lparr>ms_sweeps := ms_sweeps m - 1\<rparr>)" if "0 < ms_sweeps m"
    using m that by (simp add: main_inv_def)
  then show ?thesis
    using ev m SweepSettled end_inv [of m "Exit 1"] by (auto simp: main_event_def split: if_splits sum.splits)
next
  case Tick
  assume m: "main_inv m" and ev: "main_event ev m = Some m'"
  then have "ms_timer m" "m' = sweeper_tick m" using Tick by (auto simp: main_event_def split: if_splits)
  then show ?thesis using m by (auto simp: main_inv_def sweeper_tick_def)
qed (auto simp: main_event_def boot_inv close_inv end_inv split: if_splits)

interpretation life: invariant_system "\<lambda>m. m = main_start" main_step main_inv
  by unfold_locales (auto simp: main_start_inv elim!: main_step.cases intro: main_event_inv)

inductive_cases main_stepE: "main_step m m'"

lemma shutdowns_step: "main_step m m' \<Longrightarrow> ms_shutdowns m \<le> ms_shutdowns m'"
  by (auto elim!: main_stepE simp: main_defs split: event.splits if_splits stage.splits sum.splits)

lemma shutdowns_mono: "main_step\<^sup>*\<^sup>* m m' \<Longrightarrow> ms_shutdowns m \<le> ms_shutdowns m'"
proof (induction rule: rtranclp_induct)
  case (step y z)
  then show ?case using shutdowns_step [of y z] by linarith
qed simp

text \<open>(C16) The life of the process, in every order of the events: the sweeper's timer runs exactly from the
  moment both listeners accept connections until the first signal, so no sweep is started before
  the server is up or, ever again, after a signal; and the process exits with status 0 exactly
  when both listeners have been closed, which only a handled signal brings about.\<close>

theorem process_lifecycle:
  assumes "main_step\<^sup>*\<^sup>* main_start m"
  shows "(ms_timer m \<longleftrightarrow> ms_stage m = Started \<and> ms_shutdowns m = 0)
     \<and> (main_event Tick m \<noteq> None \<longrightarrow> ms_app m = Listening \<and> ms_agentApp m = Listening)
     \<and> (0 < ms_shutdowns m \<longrightarrow> (\<forall>m'. main_step\<^sup>*\<^sup>* m m' \<longrightarrow> main_event Tick m' = None))
     \<and> (ms_ending m = Some (Exit 0) \<longleftrightarrow> ms_app m = Closed \<and> ms_agentApp m = Closed)
     \<and> (ms_app m = Closed \<or> ms_agentApp m = Closed \<longrightarrow> 0 < ms_shutdowns m)"
proof -
  have inv: "main_inv m'" if "main_step\<^sup>*\<^sup>* main_start m'" for m'
    using life.reachable_inv [OF that refl] .
  note m = inv [OF assms, unfolded main_inv_def]
  have tick: "ms_timer m'" if "main_event Tick m' \<noteq> None" for m'
    using that by (auto simp: main_event_def split: if_splits)
  have "main_event Tick m' = None" if "0 < ms_shutdowns m" "main_step\<^sup>*\<^sup>* m m'" for m'
  proof (rule ccontr)
    assume "main_event Tick m' \<noteq> None"
    then have "ms_timer m'" by (rule tick)
    moreover have "main_inv m'" using assms that(2) by (intro inv) (rule rtranclp_trans)
    ultimately have "ms_shutdowns m' = 0" by (simp add: main_inv_def)
    then show False using shutdowns_mono [OF that(2)] that(1) by simp
  qed
  then show ?thesis using m tick [of m] by blast
qed

section \<open>A sweep that fails\<close>

text \<open>
  The runs of a process: every sweep that settles does so with the outcome of \<open>sweepOfflineNodes\<close> on
  some database, with the interval of the environment and a clock of the years 1970 to 9999.
\<close>

definition sweeps_of :: "number \<Rightarrow> event list \<Rightarrow> bool" where
  "sweeps_of interval evs \<longleftrightarrow> (\<forall>r. SweepSettled r \<in> set evs \<longrightarrow>
     (\<exists>owner now s. 0 \<le> now \<and> now \<le> 253402300799999 \<and> r = fst (sweepOfflineNodes owner interval now s)))"

lemma cutoff_out_of_range:
  assumes "1500000000000000 \<le> interval" and "now \<le> 253402300799999"
  shows "cutoff now (OFFLINE_AFTER_MS interval) s = (Inl RangeError, s)"
proof -
  have "fl (of_int 9000000000000000) \<le> fl (interval * 6)" using assms(1) by (intro fl_mono) simp
  then have ms: "9000000000000000 \<le> OFFLINE_AFTER_MS interval"
    by (simp add: OFFLINE_AFTER_MS_def js_mul_def fl_numeral)
  have "(of_int now :: rat) \<le> of_int 253402300799999" using assms(2) by (simp only: of_int_le_iff)
  then have "js_sub (of_int now) (OFFLINE_AFTER_MS interval) \<le> js_sub (of_int 253402300799999) (of_int 9000000000000000)"
    using ms by (intro js_sub_mono) simp_all
  also have "\<dots> = of_int (253402300799999 - 9000000000000000)" by (intro js_sub_exact) simp
  finally have "new_Date (js_sub (of_int now) (OFFLINE_AFTER_MS interval)) = None"
    by (auto simp: new_Date_def abs_le_iff)
  then show ?thesis by (simp add: cutoff_def)
qed

lemma sweep_out_of_range:
  assumes "1500000000000000 \<le> interval" and "now \<le> 253402300799999"
  shows "sweepOfflineNodes owner interval now s = (Inl RangeError, s)"
  unfolding sweepOfflineNodes_def offline_pass_def
  by (simp add: op_bind_Inl [OF cutoff_out_of_range [OF assms]])

lemma ended_run: "ms_ending m \<noteq> None \<Longrightarrow> main_run evs m = Some m' \<Longrightarrow> evs = [] \<and> m' = m"
  by (cases evs) (auto simp: main_event_def)

lemma failed_sweep_ends:
  "main_run evs m = Some m' \<Longrightarrow> SweepSettled (Inl e) \<in> set evs \<Longrightarrow> ms_ending m' = Some (Exit 1)"
proof (induction evs arbitrary: m)
  case (Cons ev evs)
  then obtain m1 where m1: "main_event ev m = Some m1" "main_run evs m1 = Some m'"
    by (auto simp: bind_eq_Some_conv)
  show ?case
  proof (cases "ev = SweepSettled (Inl e)")
    case True
    then have "ms_ending m1 = Some (Exit 1)" using m1(1) by (auto simp: main_event_def end_process_def split: if_splits)
    then show ?thesis using ended_run [of m1 evs m'] m1(2) by simp
  next
    case False
    then show ?thesis using Cons m1 by auto
  qed
qed simp

text \<open>(C29) Nothing catches a sweep that fails: the first one that does ends the whole process with status
  1, agents' streams and browsers' requests with it. One way there is the environment: the schema
  accepts any number, and with an interval of \<open>1.5e15\<close> or more the cutoff of every sweep is an invalid
  date, so the process boots, and no run of it outlives its first completed sweep.\<close>

theorem sweep_failure_is_fatal:
  assumes "main_run evs main_start = Some m"
  shows "(SweepSettled (Inl e) \<in> set evs \<longrightarrow> ms_ending m = Some (Exit 1))
     \<and> (1500000000000000 \<le> interval \<longrightarrow> sweeps_of interval evs \<longrightarrow> SweepSettled r \<in> set evs
         \<longrightarrow> ms_ending m = Some (Exit 1))"
proof (intro conjI impI)
  show "ms_ending m = Some (Exit 1)" if "SweepSettled (Inl e) \<in> set evs"
    using failed_sweep_ends [OF assms that] .
  assume i: "1500000000000000 \<le> interval" "sweeps_of interval evs" "SweepSettled r \<in> set evs"
  then obtain owner now s where "now \<le> 253402300799999" "r = fst (sweepOfflineNodes owner interval now s)"
    unfolding sweeps_of_def by blast
  then have "r = Inl RangeError" by (simp add: sweep_out_of_range [OF i(1)])
  then show "ms_ending m = Some (Exit 1)" using failed_sweep_ends [OF assms] i(3) by blast
qed

definition boot_events :: "event list" where
  "boot_events = [AwaitResolved, AwaitResolved, AwaitResolved, AwaitResolved]"

theorem process_lifecycle_witness:
  "\<exists>m. main_step\<^sup>*\<^sup>* main_start m \<and> ms_timer m \<and> ms_app m = Listening"
proof -
  have s: "main_step m m'" if "main_event ev m = Some m'" for ev m m' using that by (rule main_step.step)
  obtain m where m: "main_run boot_events main_start = Some m" "ms_timer m"
    by (simp add: boot_events_def main_start_def main_defs)
  have run: "main_run evs m0 = Some m1 \<Longrightarrow> main_step\<^sup>*\<^sup>* m0 m1" for evs m0 m1
  proof (induction evs arbitrary: m0)
    case (Cons ev evs)
    then obtain m2 where "main_event ev m0 = Some m2" "main_run evs m2 = Some m1" by (auto simp: bind_eq_Some_conv)
    then show ?case using Cons.IH s by (meson converse_rtranclp_into_rtranclp)
  qed simp
  have r: "main_step\<^sup>*\<^sup>* main_start m" using run [OF m(1)] .
  have "main_event Tick m \<noteq> None" using m by (auto simp: boot_events_def main_start_def main_defs)
  then show ?thesis using process_lifecycle [OF r] r m(2) by blast
qed

theorem sweep_failure_is_fatal_witness:
  "\<exists>m. main_run (boot_events @ [Tick, SweepSettled (fst (sweepOfflineNodes OwnerConn (10 ^ 16) 0 sweep_db))]) main_start = Some m
     \<and> ms_ending m = Some (Exit 1)"
proof -
  let ?r = "fst (sweepOfflineNodes OwnerConn (10 ^ 16) 0 sweep_db)"
  let ?evs = "boot_events @ [Tick, SweepSettled ?r]"
  obtain m where m: "main_run ?evs main_start = Some m"
    by (simp add: boot_events_def main_start_def main_defs sweep_out_of_range)
  have "sweeps_of (10 ^ 16) ?evs" unfolding sweeps_of_def boot_events_def by force
  then have "ms_ending m = Some (Exit 1)"
    using sweep_failure_is_fatal [OF m, of RangeError "10 ^ 16" ?r] by simp
  with m show ?thesis by blast
qed

end
