(* ===== verification/Routes.thy ===== *)
theory Routes
  imports Server Auth_Schema
begin

text \<open>
  What is served where: the service descriptors of \<open>packages/proto-ts\<close>, the registrations of
  \<open>rpc/fleet-service.ts\<close> and \<open>rpc/node-service.ts\<close>, and the two applications \<open>buildApp\<close> and
  \<open>buildAgentApp\<close> of \<open>server.ts\<close>, as data: which handler each listener has, under which method or
  URL. Matching a request with a route is Fastify's and Connect's. The handlers are the operations of
  the other theories, and the result says what the two listeners can do to the database.
\<close>

section \<open>Service descriptors\<close>

datatype method_kind = Unary | BidiStreaming

record rpc_method =
  rm_localName :: string
  rm_name :: string
  rm_kind :: method_kind
  rm_input :: string
  rm_output :: string

record service =
  sv_typeName :: string
  sv_methods :: "rpc_method list"

definition FleetService :: service where
  "FleetService = \<lparr>sv_typeName = ''modelhub.v1.FleetService'', sv_methods =
     [\<lparr>rm_localName = ''listNodes'', rm_name = ''ListNodes'', rm_kind = Unary,
        rm_input = ''ListNodesRequest'', rm_output = ''ListNodesResponse''\<rparr>,
      \<lparr>rm_localName = ''getNode'', rm_name = ''GetNode'', rm_kind = Unary,
        rm_input = ''GetNodeRequest'', rm_output = ''GetNodeResponse''\<rparr>,
      \<lparr>rm_localName = ''createPairingCode'', rm_name = ''CreatePairingCode'', rm_kind = Unary,
        rm_input = ''CreatePairingCodeRequest'', rm_output = ''CreatePairingCodeResponse''\<rparr>]\<rparr>"

definition NodeService :: service where
  "NodeService = \<lparr>sv_typeName = ''modelhub.v1.NodeService'', sv_methods =
     [\<lparr>rm_localName = ''enroll'', rm_name = ''Enroll'', rm_kind = Unary,
        rm_input = ''EnrollRequest'', rm_output = ''EnrollResponse''\<rparr>,
      \<lparr>rm_localName = ''connect'', rm_name = ''Connect'', rm_kind = BidiStreaming,
        rm_input = ''AgentMessage'', rm_output = ''ServerMessage''\<rparr>]\<rparr>"

section \<open>The two applications\<close>

datatype handler = ListNodes | GetNode | CreatePairingCode | Enroll | Connect | Healthz | AuthRoute | Me

text \<open>\<open>router.service(descriptor, { localName: handler, ... })\<close>.\<close>

type_synonym router = "(service \<times> (string \<times> handler) list) list"

definition registerFleetService :: "router \<Rightarrow> router" where
  "registerFleetService router = router @ [(FleetService,
     [(''listNodes'', ListNodes), (''getNode'', GetNode), (''createPairingCode'', CreatePairingCode)])]"

definition registerNodeService :: "router \<Rightarrow> router" where
  "registerNodeService router = router @ [(NodeService, [(''enroll'', Enroll), (''connect'', Connect)])]"

record options =
  op_level :: string
  op_bodyLimit :: nat
  op_http2 :: bool

record app =
  ap_options :: options
  ap_rpc :: router
  ap_notFound :: "(string \<Rightarrow> reply) option"
  ap_error :: "(failure \<Rightarrow> reply) option"
  ap_routes :: "(string list \<times> string \<times> handler) list"

text \<open>\<open>LOG_LEVEL\<close> is the variable, \<open>None\<close> when it is not set.\<close>

definition baseOptions :: "string option \<Rightarrow> options" where
  "baseOptions LOG_LEVEL =
     \<lparr>op_level = (case LOG_LEVEL of Some l \<Rightarrow> l | None \<Rightarrow> ''info''), op_bodyLimit = bodyLimit, op_http2 = False\<rparr>"

definition Fastify :: "options \<Rightarrow> app" where
  "Fastify opts = \<lparr>ap_options = opts, ap_rpc = [], ap_notFound = None, ap_error = None, ap_routes = []\<rparr>"

definition withConnect :: "app \<Rightarrow> (router \<Rightarrow> router) \<Rightarrow> app" where
  "withConnect app1 routes =
     app1\<lparr>ap_rpc := routes [], ap_notFound := Some notFoundHandler, ap_error := Some errorHandler\<rparr>"

definition add_route :: "string list \<Rightarrow> string \<Rightarrow> handler \<Rightarrow> app \<Rightarrow> app" where
  "add_route methods url h app1 = app1\<lparr>ap_routes := ap_routes app1 @ [(methods, url, h)]\<rparr>"

definition buildApp :: "string option \<Rightarrow> app" where
  "buildApp LOG_LEVEL =
     (let app1 = withConnect (Fastify (baseOptions LOG_LEVEL)) registerFleetService;
          app2 = add_route [''GET''] ''/healthz'' Healthz app1;
          app3 = add_route [''GET'', ''POST''] ''/api/auth/*'' AuthRoute app2
      in add_route [''GET''] ''/api/me'' Me app3)"

definition buildAgentApp :: "string option \<Rightarrow> app" where
  "buildAgentApp LOG_LEVEL =
     withConnect (Fastify ((baseOptions LOG_LEVEL)\<lparr>op_http2 := True\<rparr>)) registerNodeService"

text \<open>The methods an application answers, each with the handler registered under its local name.\<close>

definition rpc_handlers :: "app \<Rightarrow> (string \<times> rpc_method \<times> handler option) list" where
  "rpc_handlers app1 = concat (map (\<lambda>(sv, impl). map (\<lambda>m. (sv_typeName sv, m, map_of impl (rm_localName m)))
     (sv_methods sv)) (ap_rpc app1))"

definition handlers :: "app \<Rightarrow> handler list" where
  "handlers app1 = concat (map (\<lambda>(_, _, h). case h of Some x \<Rightarrow> [x] | None \<Rightarrow> []) (rpc_handlers app1))
     @ map (\<lambda>(_, _, h). h) (ap_routes app1)"

lemmas app_defs = buildApp_def buildAgentApp_def withConnect_def add_route_def Fastify_def baseOptions_def
  registerFleetService_def registerNodeService_def FleetService_def NodeService_def

lemma browser_handlers: "handlers (buildApp l) = [ListNodes, GetNode, CreatePairingCode, Healthz, AuthRoute, Me]"
  by (simp add: handlers_def rpc_handlers_def app_defs Let_def)

lemma agent_handlers: "handlers (buildAgentApp l) = [Enroll, Connect]"
  by (simp add: handlers_def rpc_handlers_def app_defs Let_def)

text \<open>
  Every method of a registered service has its handler, the one stream is on the listener that
  speaks HTTP/2, and both listeners have the shared handlers for unknown routes and for errors.
\<close>

lemma services_complete:
  "\<forall>(sv, m, h) \<in> set (rpc_handlers (buildApp l)) \<union> set (rpc_handlers (buildAgentApp l)). h \<noteq> None"
  "\<forall>(sv, m, h) \<in> set (rpc_handlers (buildApp l)). rm_kind m = Unary"
  "op_http2 (ap_options (buildAgentApp l))" "\<not> op_http2 (ap_options (buildApp l))"
  "ap_error (buildApp l) = ap_error (buildAgentApp l)" "ap_notFound (buildApp l) = ap_notFound (buildAgentApp l)"
  by (simp_all add: rpc_handlers_def app_defs Let_def)

section \<open>What the handlers do\<close>

text \<open>The inputs of one request, as far as a handler of that listener uses them.\<close>

record 'h browser_request =
  br_headers :: 'h
  br_getNode :: get_node_request
  br_create :: create_pairing_code_request
  br_random :: "nat \<Rightarrow> nat"
  br_fresh :: uuid
  br_created :: millis
  br_now :: millis

record agent_request =
  ar_enroll :: enroll_request
  ar_header :: "string option"
  ar_messages :: "received list"
  ar_claimed :: millis
  ar_checked :: millis
  ar_stored :: millis
  ar_fresh :: uuid
  ar_created :: millis

text \<open>
  The database effect of each handler. \<open>better_auth\<close> is the effect of a request handed to Better Auth;
  the health check only reads.
\<close>

definition ignore :: "('s, 'e, 'a) op \<Rightarrow> ('s, 'e, unit) op" where
  "ignore m = op_bind m (\<lambda>_. op_return ())"

definition browser_handler ::
  "('h, db) auth_api \<Rightarrow> string \<Rightarrow> ('h \<Rightarrow> (db, error, unit) op) \<Rightarrow> (string \<Rightarrow> 'k :: linorder)
   \<Rightarrow> (string \<Rightarrow> string \<Rightarrow> string) \<Rightarrow> string \<Rightarrow> number \<Rightarrow> 'h browser_request \<Rightarrow> handler \<Rightarrow> (db, error, unit) op" where
  "browser_handler api hex better_auth collate hmac pepper ttl rq h =
     (case h of
        ListNodes \<Rightarrow> ignore (listNodes api hex collate (br_headers rq))
      | GetNode \<Rightarrow> ignore (getNode api hex collate (br_getNode rq) (br_headers rq))
      | CreatePairingCode \<Rightarrow> ignore (createPairingCode api hex hmac pepper ttl (br_random rq) (br_fresh rq)
          (br_created rq) (br_now rq) (br_create rq) (br_headers rq))
      | AuthRoute \<Rightarrow> better_auth (br_headers rq)
      | Me \<Rightarrow> ignore (me api hex (br_headers rq))
      | _ \<Rightarrow> op_return ())"

definition agent_handler ::
  "conn \<Rightarrow> (string \<Rightarrow> string \<Rightarrow> string) \<Rightarrow> string \<Rightarrow> (bytes \<Rightarrow> 'key option) \<Rightarrow> ('key \<Rightarrow> string \<Rightarrow> bytes \<Rightarrow> bool option)
   \<Rightarrow> (string \<Rightarrow> bytes) \<Rightarrow> 'r redis_set \<Rightarrow> number \<Rightarrow> number \<Rightarrow> 'r \<Rightarrow> agent_request \<Rightarrow> handler \<Rightarrow> db \<Rightarrow> db" where
  "agent_handler owner hmac pepper ck vf b64 redis_set skew interval r rq h s =
     (case h of
        Enroll \<Rightarrow> snd (enroll owner hmac pepper (ar_claimed rq) (ar_checked rq) (ar_fresh rq) (ar_created rq) (ar_enroll rq) s)
      | Connect \<Rightarrow>
          (case connect ck vf b64 redis_set owner skew interval (ar_checked rq) (ar_stored rq) (ar_header rq) (ar_messages rq) (s, r) of
             (_, _, s', _) \<Rightarrow> s')
      | _ \<Rightarrow> s)"

section \<open>The powers of the two listeners\<close>

definition fleet_view :: "db \<Rightarrow> node_row list \<times> device_row list" where
  "fleet_view s = (t_nodes s, t_devices s)"

text \<open>The codes without their use.\<close>

definition code_of :: "pairing_row \<Rightarrow> pairing_row" where
  "code_of p = p\<lparr>p_usedAt := None\<rparr>"

definition codes_view :: "db \<Rightarrow> organization_row list \<times> pairing_row list" where
  "codes_view s = (t_organization s, map code_of (t_pairing s))"

lemma fleet_reads:
  "preserves v (list_in collate org)" "preserves v (get_in collate nid org)"
  unfolding list_in_def get_in_def withOrg_def
  by (auto intro!: preserves_transaction preserves_bind split: option.split)

lemma fleet_mint: "preserves fleet_view (mintPairingCode hmac pepper ttl ri fresh created now org uid name)"
proof -
  have "preserves fleet_view (insert_pairing_code c row)" for c row
    by (simp add: preserves_def insert_pairing_code_def fleet_view_def)
  moreover have "preserves fleet_view (pg_check x)" for x :: "pg_error + 'z"
    by (cases x) (simp_all add: pg_check_def)
  ultimately show ?thesis
    unfolding mintPairingCode_def withOrg_def Let_def
    by (auto intro!: preserves_transaction preserves_bind split: option.split)
qed

lemma preserves_check [simp, intro]: "preserves v (pg_check x)"
  by (cases x) (simp_all add: pg_check_def)

lemma preserves_ignore [intro]: "preserves v m \<Longrightarrow> preserves v (ignore m)"
  unfolding ignore_def by (intro preserves_bind preserves_return)

lemma preserves_session:
  assumes "\<And>h. preserves v (getSession api h)" and "\<And>h. preserves v (listOrganizations api h)"
    and "\<And>n s u. preserves v (createOrganization api n s u)"
  shows "preserves v (requireSession api hex headers)" "preserves v (fleet_session api hex headers)"
proof -
  show r: "preserves v (requireSession api hex headers)"
    unfolding requireSession_def selfHealOrganization_def ensurePersonalOrganization_def
    using assms by (auto intro!: preserves_bind preserves_catch split: option.split)
  then show "preserves v (fleet_session api hex headers)"
    unfolding fleet_session_def by (auto intro!: preserves_catch split: error.split)
qed

lemma browser_preserves:
  assumes api: "\<And>h. preserves fleet_view (getSession api h)" "\<And>h. preserves fleet_view (listOrganizations api h)"
    "\<And>n s u. preserves fleet_view (createOrganization api n s u)"
    and own: "h \<noteq> AuthRoute"
  shows "preserves fleet_view (browser_handler api hex better_auth collate hmac pepper ttl rq h)"
proof -
  note s = preserves_session [of fleet_view api, OF api]
  have "preserves fleet_view (listNodes api hex collate hs)" "preserves fleet_view (getNode api hex collate gq hs)" for hs gq
    unfolding listNodes_def getNode_def by (intro preserves_bind s fleet_reads preserves_return)+
  moreover have "preserves fleet_view (createPairingCode api hex hmac pepper ttl ri fr cr nw cq hs)" for ri fr cr nw cq hs
    unfolding createPairingCode_def
    by (intro preserves_bind s fleet_mint) (auto intro!: preserves_bind split: prod.split)
  moreover have "preserves fleet_view (me api hex hs)" for hs
    unfolding me_def Let_def by (intro preserves_bind s api preserves_return)
  ultimately show ?thesis
    using own by (cases h) (auto simp: browser_handler_def)
qed

text \<open>On the agents' side: codes are only ever spent or released.\<close>

lemma codes_tables:
  "preserves codes_view (on_nodes st)" "preserves codes_view (on_devices st')" "preserves codes_view (insert_node c row)"
  "preserves codes_view (upsert_device c d g)"
  by (auto simp: preserves_def on_table_def insert_node_def upsert_device_def codes_view_def split: sum.split)

lemma codes_used: "preserves codes_view (on_pairing (sql_update c p_orgId P (\<lambda>r. r\<lparr>p_usedAt := x\<rparr>)))"
  by (auto simp: preserves_def on_table_def codes_view_def code_of_def dest!: sql_update_rows split: sum.split)

lemma codes_redeem: "preserves codes_view (redeemPairingCode owner hmac pepper claimed checked code)"
  unfolding redeemPairingCode_def Let_def
  by (intro preserves_bind codes_used) (auto intro!: preserves_bind codes_used split: option.split)

lemma codes_enroll: "preserves codes_view (enroll owner hmac pepper claimed checked fresh created req)"
proof -
  have "preserves codes_view (enrollNode owner hmac pepper claimed checked fresh created i)" for i
    unfolding enrollNode_def withOrg_def
    by (auto intro!: preserves_bind preserves_catch preserves_transaction codes_redeem codes_tables split: prod.split)
  then show ?thesis unfolding enroll_def by (auto intro!: preserves_catch split: error.split)
qed

lemma codes_message: "preserves codes_view (handle_message org nid m)"
  unfolding handle_message_def markNodeOnline_def recordInventory_def recordSamples_def withOrg_def Let_def
  by (auto intro!: preserves_bind preserves_transaction preserves_for codes_tables split: agent_message.split prod.split)

lemma agent_preserves: "codes_view (agent_handler owner hmac pepper ck vf b64 redis_set skew interval r rq h s) = codes_view s"
proof -
  have loop: "codes_view (snd (op_for ms (handle_message org nid) s)) = codes_view s" for ms org nid
    using preserves_for [of ms codes_view "handle_message org nid"] codes_message unfolding preserves_def by blast
  have "codes_view s' = codes_view s"
    if "connect ck vf b64 redis_set owner skew interval checked stored header ms (s, r) = (out, x, s', r')"
    for checked stored header ms out x s' r'
  proof (cases "authenticateNode ck vf b64 redis_set owner skew checked stored s header r")
    case (Pair y r1)
    show ?thesis
    proof (cases y)
      case (Inr p)
      then show ?thesis using that Pair loop by (auto simp: connect_def split: prod.splits) (metis snd_conv)
    qed (use that Pair in \<open>auto simp: connect_def\<close>)
  qed
  moreover have "codes_view (snd (enroll owner hmac pepper a b c d e s)) = codes_view s" for a b c d e
    using codes_enroll unfolding preserves_def by blast
  ultimately show ?thesis by (cases h) (auto simp: agent_handler_def split: prod.split)
qed

text \<open>What deleting organizations, with the cascades of the schema, leaves of the fleet.\<close>

definition fleet_without :: "string set \<Rightarrow> db \<Rightarrow> node_row list \<times> device_row list" where
  "fleet_without D s = (filter (\<lambda>n. n_orgId n \<notin> D) (t_nodes s), filter (\<lambda>d. d_orgId d \<notin> D) (t_devices s))"

lemma fleet_without_none [simp]: "fleet_without {} s = fleet_view s"
  by (simp add: fleet_without_def fleet_view_def)

lemma delete_organizations_fleet:
  "wf_store st \<Longrightarrow> fleet_view (st_db (fold delete_organization orgs st)) = fleet_without (set orgs) (st_db st)"
proof (induction orgs arbitrary: st)
  case (Cons org orgs)
  have "fleet_without (set orgs) (st_db (delete_organization org st)) = fleet_without (set (org # orgs)) (st_db st)"
    by (simp add: delete_organization_rows [OF Cons.prems] fleet_without_def conj_commute)
  then show ?case using Cons.IH [OF wf_delete_organization [OF Cons.prems]] by simp
qed simp

text \<open>(C25) The two listeners have separate powers: no handler is on both. Nothing sent to the browsers'
  listener creates or alters a node or a device; the program's own handlers there leave all of them
  as they are, and Better Auth's, which writes its own tables, can only make them go with their
  organization, by the cascades of the schema. Whatever is sent to the agents' listener, no organization
  and no pairing code is created, removed or altered, except that a code is spent or released.\<close>

theorem listener_powers:
  assumes "\<And>h. preserves fleet_view (getSession api h)" and "\<And>h. preserves fleet_view (listOrganizations api h)"
    and "\<And>n s u. preserves fleet_view (createOrganization api n s u)"
    and "\<And>st h x s'. wf_store st \<Longrightarrow> better_auth h (st_db st) = (x, s') \<Longrightarrow>
          \<exists>orgs. fleet_view s' = fleet_view (st_db (fold delete_organization orgs st))"
    and "wf_store st"
  shows "set (handlers (buildApp l)) \<inter> set (handlers (buildAgentApp l)) = {}
     \<and> (\<forall>h \<in> set (handlers (buildApp l)). \<exists>D. (h \<noteq> AuthRoute \<longrightarrow> D = {})
          \<and> fleet_view (snd (browser_handler api hex better_auth collate hmac pepper ttl rq h (st_db st)))
              = fleet_without D (st_db st))
     \<and> (\<forall>h \<in> set (handlers (buildAgentApp l)).
          codes_view (agent_handler owner hmac pepper ck vf b64 redis_set skew interval r rq' h s) = codes_view s)"
proof -
  have own: "fleet_view (snd (browser_handler api hex better_auth collate hmac pepper ttl rq h (st_db st))) = fleet_view (st_db st)"
    if "h \<noteq> AuthRoute" for h
    using browser_preserves [where collate = collate, OF assms(1-3) that] by (simp add: preserves_def)
  obtain orgs where "fleet_view (snd (browser_handler api hex better_auth collate hmac pepper ttl rq AuthRoute (st_db st)))
      = fleet_view (st_db (fold delete_organization orgs st))"
    using assms(4) [OF assms(5) prod.collapse [symmetric]] by (auto simp: browser_handler_def)
  then have auth: "fleet_view (snd (browser_handler api hex better_auth collate hmac pepper ttl rq AuthRoute (st_db st)))
      = fleet_without (set orgs) (st_db st)"
    by (simp add: delete_organizations_fleet [OF assms(5)])
  have "\<exists>D. (h \<noteq> AuthRoute \<longrightarrow> D = {})
      \<and> fleet_view (snd (browser_handler api hex better_auth collate hmac pepper ttl rq h (st_db st))) = fleet_without D (st_db st)" for h
    using auth own [of h] by (cases "h = AuthRoute") (auto intro: exI [of _ "{}"])
  then show ?thesis by (simp add: browser_handlers agent_handlers agent_preserves)
qed

text \<open>A Better Auth that deletes \<open>org_a\<close>, whatever it is asked.\<close>

definition deleting_auth :: "unit \<Rightarrow> (db, error, unit) op" where
  "deleting_auth = (\<lambda>_ s. (Inr (), st_db (delete_organization ''org_a'' (demo_store\<lparr>st_db := s\<rparr>))))"

theorem listener_powers_witness:
  "\<exists>D. fleet_view (snd (deleting_auth () (st_db demo_store))) = fleet_without D (st_db demo_store)
   \<and> t_nodes (st_db demo_store) \<noteq> [] \<and> t_nodes (snd (deleting_auth () (st_db demo_store))) = []"
proof -
  have api: "preserves fleet_view (getSession sample_api h)" "preserves fleet_view (listOrganizations sample_api h)"
    "preserves fleet_view (createOrganization sample_api n u1 u2)" for h n u1 u2
    by (simp_all add: sample_api_def)
  let ?rq = "\<lparr>br_headers = (), br_getNode = \<lparr>gnq_nodeId = demo_id\<rparr>, br_create = \<lparr>cpq_nodeName = ''n''\<rparr>,
      br_random = (\<lambda>_. 0), br_fresh = demo_id, br_created = 0, br_now = 0\<rparr>"
  let ?ar = "\<lparr>ar_enroll = demo_request, ar_header = Some sample_header, ar_messages = [], ar_claimed = 0, ar_checked = 0,
      ar_stored = 0, ar_fresh = demo_id, ar_created = 0\<rparr>"
  have "set (handlers (buildApp None)) \<inter> set (handlers (buildAgentApp None)) = {}
     \<and> (\<forall>h \<in> set (handlers (buildApp None)). \<exists>D. (h \<noteq> AuthRoute \<longrightarrow> D = {})
          \<and> fleet_view (snd (browser_handler sample_api ''00'' deleting_auth length demo_hmac [] 900000 ?rq h (st_db demo_store)))
              = fleet_without D (st_db demo_store))
     \<and> (\<forall>h \<in> set (handlers (buildAgentApp None)).
          codes_view (agent_handler OwnerConn demo_hmac [] Some sample_verify sample_base64 px_set 60000 5000 [] ?ar h auth_db)
            = codes_view auth_db)"
  proof (rule listener_powers)
    fix st :: store and h x s' assume "deleting_auth h (st_db st) = (x, s')"
    then have "fleet_view s' = fleet_view (st_db (fold delete_organization [''org_a''] st))"
      by (auto simp: deleting_auth_def delete_organization_def delete_nodes_def Let_def fleet_view_def)
    then show "\<exists>orgs. fleet_view s' = fleet_view (st_db (fold delete_organization orgs st))" by blast
  qed (rule api demo_store_wf)+
  then obtain D where "fleet_view (snd (deleting_auth () (st_db demo_store))) = fleet_without D (st_db demo_store)"
    unfolding browser_handlers by (auto simp: browser_handler_def)
  moreover have "t_nodes (st_db demo_store) \<noteq> []" "t_nodes (snd (deleting_auth () (st_db demo_store))) = []"
    by (simp_all add: deleting_auth_def delete_organization_def delete_nodes_def Let_def demo_store_def auth_db_def auth_node_def)
  ultimately show ?thesis by blast
qed

end
