(* ===== verification/Web_Format.thy ===== *)
theory Web_Format
  imports Js_Print Proto
begin

text \<open>
  The figures of the pages, \<open>apps/web/src/format.ts\<close>: byte counts in binary units and ages. The
  model computes with the rounding numbers of the browser; the theorems say what the texts mean,
  read back as decimals: a byte count is shown to a twentieth of its unit, an age is the result of
  integer rounding, unit by unit.
\<close>

section \<open>Byte counts\<close>

definition UNITS :: "string list" where
  "UNITS = [''B'', ''KiB'', ''MiB'', ''GiB'', ''TiB'']"

text \<open>The loop: divide until the number is below 1024 or the units end.\<close>

function unit_loop :: "number \<Rightarrow> nat \<Rightarrow> number \<times> nat" where
  "unit_loop num unit =
     (if 1024 \<le> num \<and> unit < length UNITS - 1 then unit_loop (js_div num 1024) (unit + 1) else (num, unit))"
  by pat_completeness auto
termination by (relation "measure (\<lambda>(num, unit). length UNITS - 1 - unit)") auto

declare unit_loop.simps [simp del]

definition formatBytes :: "int \<Rightarrow> string" where
  "formatBytes bytes =
     (let num = Number_bigint bytes in
      if num < 1024 then js_toString num @ '' B''
      else (case unit_loop num 0 of (num, unit) \<Rightarrow> toFixed 1 num @ '' '' @ UNITS ! unit))"

section \<open>Ages\<close>

definition formatRelativeTime :: "int \<Rightarrow> number \<Rightarrow> string" where
  "formatRelativeTime unixMs now =
     (if unixMs = 0 then ''never''
      else
        let seconds = max 0 (math_round (js_div (js_sub now (Number_bigint unixMs)) 1000)) in
        if seconds < 60 then js_toString seconds @ ''s ago''
        else
          let minutes = math_round (js_div seconds 60) in
          if minutes < 60 then js_toString minutes @ ''m ago''
          else
            let hours = math_round (js_div minutes 60) in
            if hours < 24 then js_toString hours @ ''h ago''
            else js_toString (math_round (js_div hours 24)) @ ''d ago'')"

section \<open>Dividing by a power of two is exact\<close>

definition representable :: "rat \<Rightarrow> bool" where
  "representable v \<longleftrightarrow> (\<exists>m e. 0 \<le> m \<and> m \<le> 2 ^ 53 \<and> v * scale = of_int m * 2 ^ e)"

lemma representable_fl: "0 \<le> x \<Longrightarrow> representable (fl x)"
proof -
  assume x: "0 \<le> x"
  let ?y = "x * scale"
  let ?m = "rhe (?y / 2 ^ excess ?y)"
  have "fl x * scale = of_int ?m * 2 ^ excess ?y" using x by (simp add: fl_def fl_units_def)
  moreover have "0 \<le> ?m" using x by (intro rhe_ge) simp
  moreover have "?m \<le> 2 ^ 53"
  proof (rule rhe_le)
    show "?y / 2 ^ excess ?y \<le> of_int (2 ^ 53)"
      using excess_less [of ?y] x by (simp add: power_add divide_le_eq less_imp_le)
  qed
  ultimately show ?thesis unfolding representable_def by blast
qed

lemma fl_representable: "representable v \<Longrightarrow> fl v = v"
proof -
  assume "representable v"
  then obtain m e where v: "0 \<le> m" "m \<le> 2 ^ 53" "v * scale = of_int m * 2 ^ e" by (auto simp: representable_def)
  have "0 \<le> v * scale" unfolding v(3) using v(1) by simp
  then have "0 \<le> v" using scale_pos by (simp add: zero_le_mult_iff)
  then show ?thesis unfolding fl_def v(3) using fl_units_fix [OF v(1,2), of e] v(3) [symmetric] by simp
qed

lemma representable_div: "representable v \<Longrightarrow> 1 \<le> v \<Longrightarrow> representable (v / 1024)"
proof -
  assume "representable v" and v1: "1 \<le> v"
  then obtain m e where v: "0 \<le> m" "m \<le> 2 ^ 53" "v * scale = of_int m * 2 ^ e" by (auto simp: representable_def)
  have "10 \<le> e"
  proof (rule ccontr)
    assume "\<not> 10 \<le> e"
    then have "(2 :: rat) ^ e \<le> 2 ^ 10" by (intro power_increasing) simp_all
    moreover have "(of_int m :: rat) \<le> 2 ^ 53" using v(2) by (metis of_int_le_iff of_int_numeral of_int_power)
    ultimately have "of_int m * 2 ^ e \<le> (2 :: rat) ^ 53 * 2 ^ 10" using v(1) by (intro mult_mono) simp_all
    also have "\<dots> < 2 ^ 1074" by (simp add: power_strict_increasing flip: power_add)
    also have "\<dots> = 1 * scale" by (simp add: scale_def)
    also have "\<dots> \<le> v * scale" using v1 by (rule mult_right_mono) simp
    finally show False using v(3) by simp
  qed
  then have "(2 :: rat) ^ e = 2 ^ (e - 10) * 1024" using power_add [of "2 :: rat" "e - 10" 10] by simp
  then have "v / 1024 * scale = of_int m * 2 ^ (e - 10)" using v(3) by simp
  then show ?thesis using v(1,2) by (auto simp: representable_def)
qed

lemma div_1024: "representable v \<Longrightarrow> 1 \<le> v \<Longrightarrow> js_div v 1024 = v / 1024"
  unfolding js_div_def by (intro fl_representable representable_div)

lemma unit_loop_result:
  assumes "unit_loop v u = (w, t)" and "representable v" and "1 \<le> v" and "u \<le> 4"
  shows "u \<le> t \<and> t \<le> 4 \<and> w * 1024 ^ (t - u) = v \<and> 1 \<le> w \<and> (t < 4 \<longrightarrow> w < 1024) \<and> (1024 \<le> v \<and> u < 4 \<longrightarrow> u < t)"
  using assms
proof (induction v u rule: unit_loop.induct)
  case (1 v u)
  have len: "length UNITS - Suc 0 = 4" by (simp add: UNITS_def)
  show ?case
  proof (cases "1024 \<le> v \<and> u < 4")
    case True
    then have d: "js_div v 1024 = v / 1024" "representable (v / 1024)" "1 \<le> v / 1024"
      using div_1024 [of v] representable_div [of v] "1.prems" by simp_all
    have "unit_loop (v / 1024) (u + 1) = (w, t)"
      using "1.prems"(1) True by (subst (asm) unit_loop.simps) (simp add: len d(1))
    then have ih: "u + 1 \<le> t" "t \<le> 4" "w * 1024 ^ (t - (u + 1)) = v / 1024" "1 \<le> w" "t < 4 \<longrightarrow> w < 1024"
      using "1.IH" True d len by simp_all
    have "t - u = Suc (t - (u + 1))" using ih(1) by simp
    then have "w * 1024 ^ (t - u) = v" using ih(3) by simp
    then show ?thesis using ih by simp
  next
    case False
    then have "w = v" "t = u" using "1.prems"(1) by (subst (asm) unit_loop.simps, auto simp: len)+
    then show ?thesis using False "1.prems" by auto
  qed
qed

lemma fixed_near: "0 \<le> x \<Longrightarrow> \<bar>of_nat (fixed_digits f x) / 10 ^ f - x\<bar> \<le> 1 / (2 * 10 ^ f)"
proof -
  assume x: "0 \<le> x"
  have "0 \<le> \<lfloor>x * 10 ^ f + 1 / 2\<rfloor>" using x by simp
  then have "(of_nat (fixed_digits f x) :: rat) = of_int \<lfloor>x * 10 ^ f + 1 / 2\<rfloor>" by (simp add: fixed_digits_def)
  then have "\<bar>of_nat (fixed_digits f x) - x * 10 ^ f\<bar> \<le> 1 / 2" by linarith
  then have "\<bar>of_nat (fixed_digits f x) - x * 10 ^ f\<bar> / 10 ^ f \<le> 1 / 2 / 10 ^ f" by (rule divide_right_mono) simp
  moreover have "of_nat (fixed_digits f x) / 10 ^ f - x = (of_nat (fixed_digits f x) - x * 10 ^ f) / 10 ^ f"
    by (simp add: diff_divide_distrib)
  ultimately show ?thesis by (simp add: abs_divide)
qed

lemma fixed_mono: "x \<le> y \<Longrightarrow> fixed_digits f x \<le> fixed_digits f y"
  unfolding fixed_digits_def by (intro nat_mono floor_mono add_right_mono mult_right_mono) simp_all

text \<open>What \<open>toFixed(1)\<close> shows: the tenths next to the number, never less than one or more than
  a thousand and twenty-four of a number in between.\<close>

lemma toFixed_reads:
  assumes "1 \<le> x" and "x < 10 ^ 21"
  shows "\<exists>v. unsigned_decimal (toFixed 1 x) = Some v \<and> \<bar>v - x\<bar> \<le> 1 / 20 \<and> 1 \<le> v \<and> (x < 1024 \<longrightarrow> v \<le> 1024)"
proof -
  let ?n = "fixed_digits 1 x"
  have "fixed_digits 1 1 \<le> ?n" using assms(1) by (rule fixed_mono)
  then have "10 \<le> ?n" by (simp add: fixed_digits_def floor_frac_numeral)
  moreover have "?n \<le> 10240" if "x < 1024"
    using fixed_mono [OF less_imp_le [OF that], of 1] by (simp add: fixed_digits_def floor_frac_numeral)
  moreover have "unsigned_decimal (toFixed 1 x) = Some (of_nat ?n / 10)"
    using assms fixed_text_reads [of 1 ?n] by (simp add: toFixed_def)
  moreover have "\<bar>of_nat ?n / 10 - x\<bar> \<le> 1 / 20" using fixed_near [of x 1] assms(1) by simp
  ultimately show ?thesis by (intro exI [of _ "of_nat ?n / 10"]) (simp add: le_divide_eq divide_le_eq)
qed

text \<open>(C34) A byte count is shown correctly: for every \<open>uint64\<close> the text is a decimal and a unit; below
  1024 it is the exact count in bytes, otherwise a number of the unit that is at least one, at most
  1024 unless the unit is the largest, and off by at most a twentieth of the unit (and the
  rounding of the count to a double).\<close>

theorem formatBytes_accurate:
  assumes "uint64 bytes"
  shows "\<exists>t u v. formatBytes bytes = t @ '' '' @ UNITS ! u \<and> u < length UNITS \<and> unsigned_decimal t = Some v
     \<and> (if bytes < 1024 then u = 0 \<and> v = of_int bytes
        else 0 < u \<and> 1 \<le> v \<and> (u < 4 \<longrightarrow> v \<le> 1024)
           \<and> \<bar>v * 1024 ^ u - of_int bytes\<bar> \<le> 1024 ^ u / 20 + of_int bytes / 2 ^ 53)"
proof (cases "bytes < 1024")
  case True
  then have "Number_bigint bytes = of_nat (nat bytes)" using assms by (simp add: uint64_def)
  moreover have "unsigned_decimal (js_toString (of_nat (nat bytes))) = Some (of_nat (nat bytes))"
    using True by (intro toString_nat) simp
  moreover have "of_nat (nat bytes) < (1024 :: rat)" using True assms
    by (metis of_nat_less_iff of_nat_numeral nat_less_iff uint64_def of_int_numeral of_nat_nat zless_nat_eq_int_zless of_nat_numeral)
  ultimately show ?thesis using True assms
    by (intro exI [of _ "js_toString (of_nat (nat bytes))"] exI [of _ 0] exI [of _ "of_int bytes"])
      (simp add: formatBytes_def UNITS_def uint64_def)
next
  case False
  let ?x = "Number_bigint bytes"
  have lo: "1024 \<le> ?x" using Number_bigint_mono [of 1024 bytes] False by simp
  have hi: "?x \<le> 2 ^ 64" using assms by (intro Number_bigint_le_pow2) (simp add: uint64_def)
  obtain w t where l: "unit_loop ?x 0 = (w, t)" by (cases "unit_loop ?x 0")
  have "representable ?x" unfolding Number_bigint_def using False by (intro representable_fl) simp
  from unit_loop_result [OF l this] lo have w: "t \<le> 4" "w * 1024 ^ t = ?x" "1 \<le> w" "t < 4 \<longrightarrow> w < 1024" "0 < t"
    by simp_all
  have "w * 1 \<le> w * 1024 ^ t" using w(3) by (intro mult_left_mono) simp_all
  then have "w < 10 ^ 21" using w(2) hi by simp
  then obtain v where v: "unsigned_decimal (toFixed 1 w) = Some v" "\<bar>v - w\<bar> \<le> 1 / 20" "1 \<le> v" "w < 1024 \<longrightarrow> v \<le> 1024"
    using toFixed_reads [OF w(3)] by blast
  have "\<bar>v - w\<bar> * 1024 ^ t \<le> 1 / 20 * 1024 ^ t" using v(2) by (rule mult_right_mono) simp
  then have "\<bar>v * 1024 ^ t - ?x\<bar> \<le> 1024 ^ t / 20" unfolding w(2) [symmetric]
    by (simp add: abs_mult flip: left_diff_distrib)
  moreover have "\<bar>?x - of_int bytes\<bar> \<le> of_int bytes / 2 ^ 53"
  proof -
    have "1 / 2 ^ 1022 \<le> (1 :: rat)" by simp
    also have "1 \<le> (of_int bytes :: rat)" using False by simp
    finally show ?thesis unfolding Number_bigint_def by (rule fl_error)
  qed
  ultimately have "\<bar>v * 1024 ^ t - of_int bytes\<bar> \<le> 1024 ^ t / 20 + of_int bytes / 2 ^ 53" by linarith
  moreover have "formatBytes bytes = toFixed 1 w @ '' '' @ UNITS ! t" using lo l by (simp add: formatBytes_def)
  ultimately show ?thesis using False w v by (intro exI [of _ "toFixed 1 w"] exI [of _ t] exI [of _ v]) (auto simp: UNITS_def)
qed

lemma formatBytes_1536: "formatBytes 1536 = ''1.5 KiB''"
proof -
  have "fl (of_int 3 / 2 ^ 1) = of_int 3 / 2 ^ 1" by (rule fl_dyadic) simp_all
  then have d: "js_div 1536 1024 = 3 / 2" by (simp add: js_div_def)
  have "unit_loop 1536 0 = (3 / 2, 1)"
    by (subst unit_loop.simps, subst unit_loop.simps) (simp add: UNITS_def d)
  moreover have "fixed_digits 1 (3 / 2) = 15" by (simp add: fixed_digits_def floor_frac_numeral)
  moreover have "fixed_text 1 15 = ''1.5''" by code_simp
  ultimately show ?thesis by (simp add: formatBytes_def toFixed_def UNITS_def)
qed

theorem formatBytes_accurate_witness:
  "formatBytes 1536 = ''1.5 KiB''
   \<and> (\<exists>t u v. formatBytes 1536 = t @ '' '' @ UNITS ! u \<and> unsigned_decimal t = Some v \<and> 0 < u \<and> 1 \<le> v
        \<and> \<bar>v * 1024 ^ u - 1536\<bar> \<le> 1024 ^ u / 20 + 1536 / 2 ^ 53)"
proof -
  have "uint64 1536" by (simp add: uint64_def)
  from formatBytes_accurate [OF this] formatBytes_1536 show ?thesis by auto
qed

section \<open>Ages are rounded unit by unit\<close>

text \<open>Rounding the quotient of an integer and an even number: the double quotient never crosses a tie.\<close>

lemma round_quotient:
  assumes "0 \<le> a" and "a < 2 ^ 51" and "0 < h" and "h \<le> 1000"
  shows "math_round (js_div (of_int a) (of_int (2 * h))) = of_int ((a + h) div (2 * h))"
proof -
  let ?H = "of_int (2 * h) :: rat"
  let ?q = "of_int a / ?H" and ?n = "(a + h) div (2 * h)" and ?r = "(a + h) mod (2 * h)"
  have H: "0 < ?H" using assms(3) by simp
  have r: "0 \<le> ?r" "?r \<le> 2 * h - 1" using assms(3) pos_mod_bound [of "2 * h" "a + h"] by simp_all
  have "a = 2 * h * ?n + (?r - h)" using mult_div_mod_eq [of "2 * h" "a + h"] by linarith
  then have "(of_int a :: rat) = ?H * of_int ?n + (of_int ?r - of_int h)"
    by (metis of_int_add of_int_diff of_int_mult)
  then have q: "?q = of_int ?n + (of_int ?r - of_int h) / ?H" using H by (simp add: add_divide_distrib)
  have "(of_int ?r - of_int h) / ?H \<ge> - of_int h / ?H" using H r(1) by (intro divide_right_mono) simp_all
  then have low: "of_int ?n - 1 / 2 \<le> ?q" unfolding q using assms(3) by simp
  have "(of_int ?r :: rat) \<le> of_int (2 * h - 1)" using r(2) by (simp only: of_int_le_iff)
  then have "(of_int ?r - of_int h) / ?H \<le> (of_int h - 1) / ?H" using H by (intro divide_right_mono) simp_all
  then have up: "?q \<le> of_int ?n + 1 / 2 - 1 / ?H" unfolding q using assms(3) by (simp add: diff_divide_distrib)
  have n: "0 \<le> ?n" "?n \<le> a + h"
    using assms by (simp_all add: pos_imp_zdiv_nonneg_iff) (smt (verit) int_div_less_self zdiv_mono_strict div_by_1 div_pos_pos_trivial)
  have "of_int (2 * ?n - 1) / 2 ^ 1 = fl (of_int (2 * ?n - 1) / 2 ^ 1)"
    using n assms by (intro fl_dyadic [symmetric]) simp_all
  also have "\<dots> \<le> fl ?q" using low by (intro fl_mono) (simp add: diff_divide_distrib)
  finally have 1: "of_int ?n \<le> fl ?q + 1 / 2" by (simp add: diff_divide_distrib)
  have "fl ?q < ?q + 1 / ?H"
  proof (cases "a = 0")
    case False
    have "1 / 2 ^ 1022 \<le> (1 / 2 ^ 11 :: rat)" by (rule divide_left_mono) (simp_all add: power_increasing)
    also have "\<dots> \<le> 1 / ?H" using assms(3,4) H by (intro divide_left_mono) simp_all
    also have "\<dots> \<le> ?q" using H False assms(1) by (intro divide_right_mono) simp_all
    finally have "fl ?q - ?q \<le> ?q / 2 ^ 53" using fl_error abs_le_D1 by blast
    also have "\<dots> = of_int a / 2 ^ 53 / ?H" by simp
    also have "\<dots> < 1 / ?H"
    proof (rule divide_strict_right_mono [OF _ H])
      have "(of_int a :: rat) < of_int (2 ^ 51)" using assms(2) by (simp only: of_int_less_iff)
      then show "of_int a / 2 ^ 53 < (1 :: rat)" by simp
    qed
    finally show ?thesis by linarith
  qed (use H in simp)
  then have 2: "fl ?q + 1 / 2 < of_int ?n + 1" using up by linarith
  show ?thesis unfolding math_round_def js_div_def using 1 2 by (simp add: floor_unique)
qed

text \<open>The age in whole units, from milliseconds: a reference in integer arithmetic.\<close>

definition shown_age :: "int \<Rightarrow> int \<times> string" where
  "shown_age ms =
     (let s = (ms + 500) div 1000; m = (s + 30) div 60; h = (m + 30) div 60 in
      if s < 60 then (s, ''s'') else if m < 60 then (m, ''m'') else if h < 24 then (h, ''h'')
      else ((h + 12) div 24, ''d''))"

definition unit_ms :: "string \<Rightarrow> int" where
  "unit_ms u = (if u = ''s'' then 1000 else if u = ''m'' then 60000 else if u = ''h'' then 3600000 else 86400000)"

lemma round_int:
  assumes "0 \<le> a" and "a < 2 ^ 51"
  shows "math_round (js_div (of_int a) 1000) = of_int ((a + 500) div 1000)"
    and "math_round (js_div (of_int a) 60) = of_int ((a + 30) div 60)"
    and "math_round (js_div (of_int a) 24) = of_int ((a + 12) div 24)"
  using round_quotient [OF assms, of 500] round_quotient [OF assms, of 30] round_quotient [OF assms, of 12]
  by simp_all

lemma age_seconds:
  assumes "\<bar>now - t\<bar> < 2 ^ 51" and "\<bar>t\<bar> \<le> 2 ^ 53"
  shows "max 0 (math_round (js_div (js_sub (of_int now) (Number_bigint t)) 1000))
       = of_int ((max 0 (now - t) + 500) div 1000)"
proof (cases "t \<le> now")
  case True
  then show ?thesis using assms round_int(1) [of "now - t"]
    by (simp add: js_sub_exact max_def pos_imp_zdiv_nonneg_iff)
next
  case False
  have "fl (of_int (now - t) / 1000) \<le> fl (0 :: rat)" using False by (intro fl_mono) simp
  then have "math_round (js_div (of_int (now - t)) 1000) \<le> 0"
    unfolding js_div_def math_round_def by (simp add: floor_less_iff floor_le_iff)
  then show ?thesis using False assms by (simp add: js_sub_exact max_def)
qed

lemma div_bounds: "0 < (b :: int) \<Longrightarrow> b * (a div b) \<le> a \<and> a < b * (a div b) + b"
  using mult_div_mod_eq [of b a] pos_mod_bound [of b a] pos_mod_sign [of b a] by linarith

lemma shown_age_accurate:
  assumes "0 \<le> ms" and "shown_age ms = (c, u)"
  shows "(u = ''s'' \<and> 0 \<le> c \<and> c < 60 \<or> u = ''m'' \<and> 0 < c \<and> c < 60 \<or> u = ''h'' \<and> 0 < c \<and> c < 24 \<or> u = ''d'' \<and> 0 < c)
     \<and> \<bar>c * unit_ms u - ms\<bar> \<le>
         (if u = ''s'' then 500 else if u = ''m'' then 30500 else if u = ''h'' then 1830500 else 45030500)"
proof -
  define s where "s = (ms + 500) div 1000"
  define m where "m = (s + 30) div 60"
  define h where "h = (m + 30) div 60"
  define d where "d = (h + 12) div 24"
  have b: "1000 * s \<le> ms + 500" "ms + 500 < 1000 * s + 1000" "60 * m \<le> s + 30" "s + 30 < 60 * m + 60"
    "60 * h \<le> m + 30" "m + 30 < 60 * h + 60" "24 * d \<le> h + 12" "h + 12 < 24 * d + 24"
    using div_bounds [of 1000 "ms + 500"] div_bounds [of 60 "s + 30"] div_bounds [of 60 "m + 30"] div_bounds [of 24 "h + 12"]
    by (simp_all add: s_def m_def h_def d_def)
  have "(c, u) = (if s < 60 then (s, ''s'') else if m < 60 then (m, ''m'') else if h < 24 then (h, ''h'') else (d, ''d''))"
    using assms(2) [symmetric] unfolding shown_age_def Let_def s_def [symmetric] m_def [symmetric] h_def [symmetric] d_def [symmetric] .
  then consider "c = s" "u = ''s''" "s < 60" | "c = m" "u = ''m''" "60 \<le> s" "m < 60"
    | "c = h" "u = ''h''" "60 \<le> m" "h < 24" | "c = d" "u = ''d''" "24 \<le> h"
    by (auto split: if_splits)
  then show ?thesis
  proof cases
    case 1 then show ?thesis using b assms(1) by (simp add: unit_ms_def abs_le_iff)
  next
    case 2 then show ?thesis using b by (simp add: unit_ms_def abs_le_iff)
  next
    case 3 then show ?thesis using b by (simp add: unit_ms_def abs_le_iff)
  next
    case 4 then show ?thesis using b by (simp add: unit_ms_def abs_le_iff)
  qed
qed

lemma div_small: "0 \<le> a \<Longrightarrow> a < 2 ^ 51 \<Longrightarrow> 0 \<le> r \<Longrightarrow> 2 * r \<le> b \<Longrightarrow> 1 < b \<Longrightarrow> 0 \<le> (a + r) div b \<and> (a + r) div b < (2 :: int) ^ 51"
proof -
  assume a: "0 \<le> a" "a < 2 ^ 51" "0 \<le> r" "2 * r \<le> b" "1 < b"
  let ?q = "(a + r) div b"
  have q: "0 \<le> ?q" using a by (simp add: pos_imp_zdiv_nonneg_iff)
  have "b * ?q \<le> a + r" using div_bounds [of b "a + r"] a by simp
  moreover have "2 * ?q + (b - 2) * ?q = b * ?q" by (simp add: algebra_simps)
  moreover have "(b - 2) * 1 \<le> (b - 2) * ?q" if "1 \<le> ?q" using a that by (intro mult_left_mono) simp_all
  ultimately have "?q \<le> 0 \<or> 2 * ?q + b - 2 \<le> a + r" by (cases "1 \<le> ?q") simp_all
  then show ?thesis using a q by auto
qed

lemma age_text:
  assumes "0 \<le> ms" and "ms < 2 ^ 51" and "t \<noteq> 0"
    and sec: "max 0 (math_round (js_div (js_sub now (Number_bigint t)) 1000)) = of_int ((ms + 500) div 1000)"
  shows "formatRelativeTime t now = (case shown_age ms of (c, u) \<Rightarrow> js_toString (of_int c) @ u @ '' ago'')"
proof -
  define s where "s = (ms + 500) div 1000"
  define m where "m = (s + 30) div 60"
  define h where "h = (m + 30) div 60"
  have s: "0 \<le> s" "s < 2 ^ 51" unfolding s_def using div_small [OF assms(1,2), of 500 1000] by simp_all
  have m: "0 \<le> m" "m < 2 ^ 51" unfolding m_def using div_small [OF s, of 30 60] by simp_all
  have h: "0 \<le> h" "h < 2 ^ 51" unfolding h_def using div_small [OF m, of 30 60] by simp_all
  note eqs = round_int(2) [OF s, folded m_def] round_int(2) [OF m, folded h_def] round_int(3) [OF h]
  show ?thesis
    unfolding formatRelativeTime_def sec shown_age_def Let_def s_def [symmetric] eqs m_def [symmetric] h_def [symmetric]
    using assms(3) by simp
qed

text \<open>(C35) The age shown for a machine: it equals the reference in integer arithmetic, the count of its
  unit is never out of range (no \<open>60s\<close>, \<open>60m\<close> or \<open>24h\<close>), and because every unit is rounded from the
  rounded smaller one it may be off by half of each unit up to its own, and by no more; a time in
  the future is shown as zero seconds.\<close>

theorem relative_time_accurate:
  assumes "t \<noteq> 0" and "\<bar>now - t\<bar> < 2 ^ 51" and "\<bar>t\<bar> \<le> 2 ^ 53"
    and "(c, u) = shown_age (max 0 (now - t))"
  shows "formatRelativeTime t (of_int now) = js_toString (of_int c) @ u @ '' ago''
     \<and> unsigned_decimal (js_toString (of_int c)) = Some (of_int c)
     \<and> (u = ''s'' \<and> 0 \<le> c \<and> c < 60 \<or> u = ''m'' \<and> 0 < c \<and> c < 60 \<or> u = ''h'' \<and> 0 < c \<and> c < 24 \<or> u = ''d'' \<and> 0 < c)
     \<and> \<bar>c * unit_ms u - max 0 (now - t)\<bar> \<le>
         (if u = ''s'' then 500 else if u = ''m'' then 30500 else if u = ''h'' then 1830500 else 45030500)"
proof -
  let ?ms = "max 0 (now - t)"
  have ms: "0 \<le> ?ms" "?ms < 2 ^ 51" using assms(2) by auto
  note a = shown_age_accurate [OF ms(1) assms(4) [symmetric]]
  have "0 \<le> c" using a by auto
  moreover have "c \<le> 10 ^ 13"
  proof -
    have "c * 1000 \<le> c * unit_ms u" using \<open>0 \<le> c\<close> by (intro mult_left_mono) (simp_all add: unit_ms_def)
    moreover have "c * unit_ms u \<le> ?ms + 45030500" using a by (auto split: if_splits simp: abs_le_iff)
    ultimately have "c * 1000 \<le> 2 ^ 51 + 45030500" using ms(2) by linarith
    then show ?thesis by simp
  qed
  ultimately have "unsigned_decimal (js_toString (of_int c)) = Some (of_int c)"
    using toString_nat [of "nat c"] by simp
  moreover have "formatRelativeTime t (of_int now) = js_toString (of_int c) @ u @ '' ago''"
    using age_text [OF ms assms(1) age_seconds [OF assms(2,3)]] assms(4) by (metis case_prod_conv)
  ultimately show ?thesis using a by blast
qed

lemma toString_5: "js_toString 5 = ''5''"
proof -
  have d: "dec_exp 5 = 1" "decimal_text 5 0 = ''5''" by code_simp+
  have "shortest (Suc 16) 5 1 1 = (5, 0)"
    unfolding shortest.simps by (simp add: neighbours_def Let_def scaled_def reads_as_def fl_numeral nearer_def)
  then show ?thesis using d by (simp add: js_toString_def pos_toString_def)
qed

theorem relative_time_accurate_witness:
  "formatRelativeTime 1000 301000 = ''5m ago'' \<and> unsigned_decimal ''5'' = Some 5"
proof -
  have "(5, ''m'') = shown_age (max 0 (301000 - 1000))" by code_simp
  from relative_time_accurate [OF _ _ _ this] show ?thesis by (simp add: toString_5)
qed

end
