(* ===== verification/Web_View.thy ===== *)
theory Web_View
  imports Web_Format Wire
begin

text \<open>
  What the pages show of a machine: \<open>apps/web/src/components/DeviceMemoryBar.tsx\<close> and
  \<open>NodeCard.tsx\<close>. A component is a function from its properties to the elements it renders; the
  \<open>key\<close> property of React leaves no trace in them. The two characters of the pages beyond \<open>U+00FF\<close>,
  the em dash and the ellipsis, stand at their places in Windows-1252.
\<close>

section \<open>Elements\<close>

datatype html = Text string | Element string "(string \<times> string) list" "html list"

abbreviation className :: "string \<Rightarrow> string \<times> string" where
  "className c \<equiv> (''className'', c)"

definition middot :: string where "middot = [CHR 0xB7]"
definition em_dash :: string where "em_dash = [CHR 0x97]"
definition ellipsis :: string where "ellipsis = [CHR 0x85]"

text \<open>The texts of a page in order, and the elements with an attribute.\<close>

primrec texts :: "html \<Rightarrow> string list" where
  "texts (Text t) = [t]"
| "texts (Element tag attrs children) = concat (map texts children)"

primrec with_attr :: "string \<times> string \<Rightarrow> html \<Rightarrow> html list" where
  "with_attr a (Text t) = []"
| "with_attr a (Element tag attrs children) =
     (if a \<in> set attrs then [Element tag attrs children] else []) @ concat (map (with_attr a) children)"

section \<open>\<open>DeviceMemoryBar.tsx\<close>\<close>

definition percent :: "int \<Rightarrow> int \<Rightarrow> string" where
  "percent part whole =
     (if whole = 0 then ''0%''
      else js_toString (js_div (math_round (js_mul (js_div (Number_bigint part) (Number_bigint whole)) 10000)) 100) @ ''%'')"

record segment =
  sg_key :: string
  sg_label :: string
  sg_className :: string

definition SEGMENTS :: "segment list" where
  "SEGMENTS =
     [\<lparr>sg_key = ''managedBytes'', sg_label = ''Model Hub'', sg_className = ''bg-[#2a78d6]''\<rparr>,
      \<lparr>sg_key = ''foreignBytes'', sg_label = ''Other processes'', sg_className = ''bg-[#eb6834]''\<rparr>,
      \<lparr>sg_key = ''headroomBytes'', sg_label = ''Reserved headroom'', sg_className = ''bg-[#c3c2b7]''\<rparr>,
      \<lparr>sg_key = ''availableBytes'', sg_label = ''Available'', sg_className = ''bg-[#1baf7a]''\<rparr>]"

text \<open>\<open>device[key]\<close> for the keys of the segments.\<close>

definition device_field :: "device_view \<Rightarrow> string \<Rightarrow> int" where
  "device_field device key =
     (if key = ''managedBytes'' then dv_managedBytes device
      else if key = ''foreignBytes'' then dv_foreignBytes device
      else if key = ''headroomBytes'' then dv_headroomBytes device
      else dv_availableBytes device)"

definition bar_segment :: "device_view \<Rightarrow> segment \<Rightarrow> html" where
  "bar_segment device s =
     (let bytes = device_field device (sg_key s) in
      Element ''div''
        [(''data-testid'', ''segment-'' @ sg_key s), (''data-bytes'', show_int bytes),
         (''title'', sg_label s @ '': '' @ formatBytes bytes), className (sg_className s),
         (''style'', ''width: '' @ percent bytes (dv_totalBytes device))] [])"

definition bar_legend :: "device_view \<Rightarrow> segment \<Rightarrow> html" where
  "bar_legend device s =
     Element ''div'' [className ''flex items-center gap-1.5'']
       [Element ''span'' [(''aria-hidden'', ''true''), className (''h-2 w-2 shrink-0 rounded-full '' @ sg_className s)] [],
        Element ''dt'' [className ''sr-only''] [Text (sg_label s)],
        Element ''dd'' [] [Text (sg_label s @ '' '' @ middot @ '' '' @ formatBytes (device_field device (sg_key s)))]]"

definition bar_warning :: "device_view \<Rightarrow> html list" where
  "bar_warning device =
     (if dv_schedulable device then []
      else [Element ''p'' [className ''text-xs text-amber-700'']
             [Text (if MEMORY_PRESSURE_WARN \<le> dv_pressure device
                    then ''Not accepting work '' @ em_dash @ '' the machine is under memory pressure''
                    else ''Not accepting work'')]])"

definition DeviceMemoryBar :: "device_view \<Rightarrow> html" where
  "DeviceMemoryBar device =
     Element ''div'' [className ''space-y-1'']
       ([Element ''div'' [className ''flex items-baseline justify-between text-sm'']
           [Element ''span'' [className ''font-medium''] [Text (dv_name device)],
            Element ''span'' [className ''text-slate-500''] [Text (dv_localId device)]],
         Element ''div'' [className ''flex h-3 w-full overflow-hidden rounded bg-slate-200'']
           (map (bar_segment device) SEGMENTS),
         Element ''dl'' [className ''grid grid-cols-2 gap-x-3 gap-y-0.5 text-xs text-slate-600 sm:grid-cols-4'']
           (map (bar_legend device) SEGMENTS),
         Element ''p'' [className ''text-xs text-slate-600'']
           [Text (formatBytes (dv_availableBytes device) @ '' available of ''
                  @ formatBytes (dv_totalBytes device) @ '' total'')]]
        @ bar_warning device)"

section \<open>\<open>NodeCard.tsx\<close>\<close>

definition STATUS_STYLES :: "(string \<times> string) list" where
  "STATUS_STYLES =
     [(''online'', ''bg-emerald-100 text-emerald-800''),
      (''degraded'', ''bg-amber-100 text-amber-800''),
      (''offline'', ''bg-slate-200 text-slate-600'')]"

definition status_style :: "string \<Rightarrow> string" where
  "status_style status =
     (case map_of STATUS_STYLES status of Some c \<Rightarrow> c | None \<Rightarrow> the (map_of STATUS_STYLES ''offline''))"

definition NodeCard :: "number \<Rightarrow> node_view \<Rightarrow> html" where
  "NodeCard now node =
     Element ''section'' [className ''rounded-lg border bg-white p-4 shadow-sm'']
       [Element ''header'' [className ''mb-3 flex items-start justify-between'']
          [Element ''div'' [className ''min-w-0'']
             [Element ''h2'' [className ''truncate text-lg font-semibold''] [Text (nv_name node)],
              Element ''p'' [className ''text-xs text-slate-500'']
                [Text (case nv_host node of
                   Some host \<Rightarrow>
                     hc_platform host @ ''/'' @ hc_arch host @ '' '' @ middot @ '' '' @ show_int (hc_cpuCores host)
                       @ '' cores '' @ middot @ '' agent ''
                       @ (if hc_agentVersion host \<noteq> [] then hc_agentVersion host else em_dash)
                 | None \<Rightarrow> ''Host details not reported yet'')]],
           Element ''div'' [className ''text-right'']
             [Element ''span'' [className (''rounded px-2 py-0.5 text-xs '' @ status_style (nv_status node))]
                [Text (nv_status node)],
              Element ''p'' [className ''mt-1 text-xs text-slate-500'']
                [Text (''seen '' @ formatRelativeTime (nv_lastSeenUnixMs node) now)]]],
        if nv_devices node = []
        then Element ''p'' [className ''text-sm text-slate-500''] [Text ''No devices reported yet.'']
        else Element ''div'' [className ''space-y-3''] (map DeviceMemoryBar (nv_devices node))]"

section \<open>Widths\<close>

text \<open>The width of a segment is the share of the total in hundredths of a percent, rounded.\<close>

lemma ratio_error:
  assumes "0 < part" and "part \<le> whole" and "whole \<le> 2 ^ 53"
  shows "\<bar>js_mul (js_div (of_int part) (of_int whole)) 10000 - 10000 * (of_int part / of_int whole)\<bar> \<le> 1 / 1000"
    and "js_mul (js_div (of_int part) (of_int whole)) 10000 \<le> 10000"
    and "0 \<le> js_mul (js_div (of_int part) (of_int whole)) 10000"
proof -
  let ?r = "of_int part / of_int whole :: rat"
  have w: "(0 :: rat) < of_int whole" "(1 :: rat) \<le> of_int part" using assms by simp_all
  have r1: "?r \<le> 1" using assms w(1) by (simp add: divide_le_eq)
  have "(of_int whole :: rat) \<le> 2 ^ 53" using assms(3) by (metis of_int_le_iff of_int_numeral of_int_power)
  then have "1 / 2 ^ 53 \<le> 1 / (of_int whole :: rat)" using w(1) by (intro divide_left_mono) simp_all
  also have "\<dots> \<le> ?r" using w by (intro divide_right_mono) simp_all
  finally have r0: "1 / 2 ^ 53 \<le> ?r" .
  have tiny: "1 / 2 ^ 1022 \<le> (1 / 2 ^ 54 :: rat)" by (rule divide_left_mono) (simp_all add: power_increasing)
  let ?q = "fl ?r"
  have q: "\<bar>?q - ?r\<bar> \<le> ?r / 2 ^ 53" by (intro fl_error order_trans [OF tiny] order_trans [OF _ r0]) simp
  have q1: "?q \<le> 1" using fl_mono [OF r1] fl_of_int [of 1] by simp
  have "?r / 2 ^ 53 \<le> 1 / 2 ^ 53" using r1 by (intro divide_right_mono) simp_all
  then have q2: "\<bar>?q - ?r\<bar> \<le> 1 / 2 ^ 53" using q by linarith
  have "?r / 2 ^ 53 \<le> ?r / 2" using w by (intro divide_left_mono) simp_all
  then have "?r / 2 \<le> ?q" using abs_le_D2 [OF q] by linarith
  moreover have "1 / 2 ^ 54 = (1 / 2 ^ 53 :: rat) / 2" by simp
  then have "1 / 2 ^ 54 \<le> ?r / 2" using divide_right_mono [OF r0, of 2] by simp
  ultimately have q0: "1 / 2 ^ 54 \<le> ?q" by linarith
  have m: "\<bar>fl (?q * 10000) - ?q * 10000\<bar> \<le> ?q * 10000 / 2 ^ 53"
  proof (rule fl_error)
    have "?q * 1 \<le> ?q * 10000" using order_trans [OF _ q0, of 0] by (intro mult_left_mono) simp_all
    then show "1 / 2 ^ 1022 \<le> ?q * 10000" by (intro order_trans [OF tiny] order_trans [OF q0]) simp
  qed
  also have "\<dots> \<le> 10000 / 2 ^ 53" using q1 by (intro divide_right_mono) simp_all
  finally have m': "\<bar>fl (?q * 10000) - ?q * 10000\<bar> \<le> 10000 / 2 ^ 53" .
  show "\<bar>js_mul (js_div (of_int part) (of_int whole)) 10000 - 10000 * ?r\<bar> \<le> 1 / 1000"
  proof -
    have "\<bar>fl (?q * 10000) - ?q * 10000\<bar> \<le> 1 / 2000" using m' by (rule order_trans) simp
    moreover have "\<bar>?q - ?r\<bar> \<le> 1 / 20000000" using q2 by (rule order_trans) simp
    ultimately show ?thesis unfolding js_mul_def js_div_def by linarith
  qed
  have "fl (?q * 10000) \<le> fl (of_int 10000)" using q1 by (intro fl_mono) simp
  then show "js_mul (js_div (of_int part) (of_int whole)) 10000 \<le> 10000"
    unfolding js_mul_def js_div_def by (simp add: fl_numeral)
  show "0 \<le> js_mul (js_div (of_int part) (of_int whole)) 10000"
    unfolding js_mul_def js_div_def using order_trans [OF _ q0, of 0] by (intro fl_nonneg) simp
qed

lemma percent_reads:
  assumes "0 \<le> part" and "part \<le> whole" and "0 < whole" and "whole \<le> 2 ^ 53"
  shows "\<exists>t k. percent part whole = t @ ''%'' \<and> unsigned_decimal t = Some (of_nat k / 100) \<and> k \<le> 10000
     \<and> \<bar>of_nat k - 10000 * (of_int part / of_int whole)\<bar> \<le> (501 / 1000 :: rat)"
proof -
  let ?y = "js_mul (js_div (of_int part) (of_int whole)) 10000" and ?r = "of_int part / of_int whole :: rat"
  have y: "\<bar>?y - 10000 * ?r\<bar> \<le> 1 / 1000" "?y \<le> 10000" "0 \<le> ?y"
    using ratio_error [of part whole] assms by (cases "part = 0"; simp add: js_mul_def js_div_def)+
  let ?k = "nat \<lfloor>?y + 1 / 2\<rfloor>"
  have "\<lfloor>?y + 1 / 2\<rfloor> \<le> \<lfloor>20001 / 2 :: rat\<rfloor>" using y(2) by (intro floor_mono) simp
  also have "\<lfloor>20001 / 2 :: rat\<rfloor> = 10000" by (simp add: floor_frac_numeral)
  finally have k: "?k \<le> 10000" by (simp only: nat_le_iff)
  have z: "(of_nat ?k :: rat) = of_int \<lfloor>?y + 1 / 2\<rfloor>" using y(3) by simp
  have "percent part whole = js_toString (fl (of_nat ?k / 100)) @ ''%''"
    unfolding z using assms by (simp add: percent_def math_round_def js_div_def)
  moreover have "unsigned_decimal (js_toString (fl (of_nat ?k / 100))) = Some (of_nat ?k / 100)"
    using k by (intro toString_hundredth) simp
  moreover have "\<bar>of_nat ?k - 10000 * ?r\<bar> \<le> 501 / 1000" unfolding z using y(1) by linarith
  ultimately show ?thesis using k by blast
qed

text \<open>The widths of the segments, read from the style texts.\<close>

definition width_of :: "string \<Rightarrow> rat option" where
  "width_of w = (if w \<noteq> [] \<and> last w = CHR ''%'' then unsigned_decimal (butlast w) else None)"

definition segment_width :: "device_view \<Rightarrow> segment \<Rightarrow> rat option" where
  "segment_width device s = width_of (percent (device_field device (sg_key s)) (dv_totalBytes device))"

lemma segment_width_near:
  assumes "0 \<le> device_field v (sg_key g)" and "device_field v (sg_key g) \<le> dv_totalBytes v"
    and "0 < dv_totalBytes v" and "dv_totalBytes v \<le> 2 ^ 53"
  shows "\<exists>k. segment_width v g = Some (of_nat k / 100)
     \<and> \<bar>of_nat k - 10000 * (of_int (device_field v (sg_key g)) / of_int (dv_totalBytes v))\<bar> \<le> (501 / 1000 :: rat)"
  using percent_reads [OF assms] by (auto simp: segment_width_def width_of_def)

lemma shares_sum:
  fixes ka kb kc ke :: nat and a b c e T :: int
  assumes "\<bar>of_nat ka - 10000 * (of_int a / of_int T)\<bar> \<le> (501 / 1000 :: rat)"
    and "\<bar>of_nat kb - 10000 * (of_int b / of_int T)\<bar> \<le> (501 / 1000 :: rat)"
    and "\<bar>of_nat kc - 10000 * (of_int c / of_int T)\<bar> \<le> (501 / 1000 :: rat)"
    and "\<bar>of_nat ke - 10000 * (of_int e / of_int T)\<bar> \<le> (501 / 1000 :: rat)"
    and "a + b + c + e \<le> T" and "0 < T"
  shows "ka + kb + kc + ke \<le> 10002"
proof -
  have T: "(0 :: rat) < of_int T" using assms(6) by simp
  have "of_nat (ka + kb + kc + ke) \<le>
      10000 * (of_int a / of_int T + of_int b / of_int T + of_int c / of_int T + of_int e / of_int T) + (2004 / 1000 :: rat)"
    using abs_le_D1 [OF assms(1)] abs_le_D1 [OF assms(2)] abs_le_D1 [OF assms(3)] abs_le_D1 [OF assms(4)] by simp
  also have "of_int a / of_int T + of_int b / of_int T + of_int c / of_int T + of_int e / (of_int T :: rat)
      = of_int (a + b + c + e) / of_int T" by (simp add: add_divide_distrib)
  also have "of_int (a + b + c + e) / of_int T \<le> (1 :: rat)"
    using T assms(5) by (simp only: divide_le_eq_1_pos of_int_le_iff)
  finally have "(of_nat (ka + kb + kc + ke) :: rat) < of_nat 10003" by simp
  then have "ka + kb + kc + ke < 10003" by (simp only: of_nat_less_iff)
  then show ?thesis by simp
qed

text \<open>(C33) The memory bar never overflows while memory is offered: for a stored device of at most
  \<open>2\<^sup>5\<^sup>3\<close> bytes that offers memory, the widths of the four segments, as the page spells them, each
  are within 0.00501 points of the exact share of the total and together make at most 100.02
  percent. (Figures that leave nothing to offer may add up to more than the total; the reserve of
  a small device can exceed it.)\<close>

theorem bar_fits:
  assumes "device_ok d" and "d_totalBytes d \<le> 2 ^ 53" and "d_lastUsedBytes d \<le> 2 ^ 53"
    and "d_lastManagedBytes d \<le> 2 ^ 53" and "d_wiredLimitBytes d \<le> 2 ^ 53"
    and "deviceView d = Inr v" and "0 < dv_availableBytes v"
  shows "\<exists>widths. map (segment_width v) SEGMENTS = map Some widths \<and> sum_list widths \<le> 10002 / 100
     \<and> list_all2 (\<lambda>w g. \<bar>w - 100 * (of_int (device_field v (sg_key g)) / of_int (dv_totalBytes v))\<bar> \<le> 501 / 100000)
         widths SEGMENTS"
proof -
  let ?T = "dv_totalBytes v" and ?F = "\<lambda>g. device_field v (sg_key g)"
  note f = view_segments [OF assms]
  have T: "0 < ?T" "?T \<le> 2 ^ 53" using f assms(7) by linarith+
  have "\<exists>k. segment_width v g = Some (of_nat k / 100)
     \<and> \<bar>of_nat k - 10000 * (of_int (?F g) / of_int ?T)\<bar> \<le> (501 / 1000 :: rat)" if "g \<in> set SEGMENTS" for g
    using that f assms(7) T by (intro segment_width_near) (auto simp: SEGMENTS_def device_field_def)
  then obtain K where K: "\<And>g. g \<in> set SEGMENTS \<Longrightarrow> segment_width v g = Some (of_nat (K g) / 100)"
      "\<And>g. g \<in> set SEGMENTS \<Longrightarrow> \<bar>of_nat (K g) - 10000 * (of_int (?F g) / of_int ?T)\<bar> \<le> (501 / 1000 :: rat)"
    by metis
  let ?W = "map (\<lambda>g. of_nat (K g) / 100 :: rat) SEGMENTS"
  obtain a b c e where g: "SEGMENTS = [a, b, c, e]" "?F a = dv_managedBytes v" "?F b = dv_foreignBytes v"
    "?F c = dv_headroomBytes v" "?F e = dv_availableBytes v" by (simp add: SEGMENTS_def device_field_def)
  have "K a + K b + K c + K e \<le> 10002"
  proof (rule shares_sum [OF K(2) K(2) K(2) K(2) _ T(1)])
    show "a \<in> set SEGMENTS" "b \<in> set SEGMENTS" "c \<in> set SEGMENTS" "e \<in> set SEGMENTS" by (simp_all add: g(1))
    show "?F a + ?F b + ?F c + ?F e \<le> ?T" using f unfolding g by linarith
  qed
  then have "(of_nat (K a + K b + K c + K e) :: rat) \<le> of_nat 10002" by (simp only: of_nat_le_iff)
  then have "sum_list ?W \<le> 10002 / 100" by (simp add: g)
  moreover have "map (segment_width v) SEGMENTS = map Some ?W" using K(1) by simp
  moreover have "\<bar>of_nat (K x) / 100 - 100 * (of_int (?F x) / of_int ?T)\<bar> \<le> (501 / 100000 :: rat)"
    if "x \<in> set SEGMENTS" for x
    using K(2) [OF that] by (simp add: abs_le_iff field_simps)
  then have "list_all2 (\<lambda>w x. \<bar>w - 100 * (of_int (?F x) / of_int ?T)\<bar> \<le> 501 / 100000) ?W SEGMENTS"
    unfolding list.rel_map by (intro list.rel_refl_strong)
  ultimately show ?thesis by blast
qed

theorem bar_fits_witness:
  "\<exists>v widths. deviceView demo_device = Inr v \<and> 0 < dv_availableBytes v
     \<and> map (segment_width v) SEGMENTS = map Some widths \<and> sum_list widths \<le> 10002 / 100"
proof -
  let ?i = "budget_input demo_device"
  have plain: "plain_input ?i" "0 < mi_totalBytes ?i"
    by (simp_all add: budget_input_def demo_device_def plain_input_def byte_count_def)
  have lim: "kind_limits ?i = Inr (2061584302, 24 * 1024 ^ 3)"
    using card_share by (simp add: kind_limits_def budget_input_def demo_device_def HEADROOM_MIN_BYTES_def)
  obtain b where b: "computeBudget ?i = Inr b" using computeBudget_positive [OF plain(2) lim] by simp
  have "mb_availableBytes b = 24 * 1024 ^ 3 - 2 * 1024 ^ 3 - 2061584302"
    using b computeBudget_positive [OF plain(2) lim] raw_clamped_exact [OF plain(1) lim] foreign_exact [OF plain(1)]
    by (auto simp: budget_input_def demo_device_def)
  then obtain v where v: "deviceView demo_device = Inr v" "0 < dv_availableBytes v"
    using budget_input_view [OF demo_device_ok b] by auto
  then show ?thesis using bar_fits [OF demo_device_ok _ _ _ _ v] by (auto simp: demo_device_def)
qed

end
