(* ===== verification/Web_State.thy ===== *)
theory Web_State
  imports Web_View
begin

text \<open>
  The pages that keep state: the dialog that mints pairing codes
  (\<open>apps/web/src/components/AddNodeDialog.tsx\<close>), the forms that sign in and sign up
  (\<open>routes/auth.tsx\<close>), the fleet page (\<open>routes/fleet.tsx\<close>) and the layout that guards it
  (\<open>routes/root.tsx\<close>). Every \<open>useState\<close> is a field of a record. A handler that waits for a reply is
  cut in two at the \<open>await\<close>: what it does when it is called and what it does when the promise
  settles; in between any other handler may run. The step relations put the handlers together,
  guarded by what the page renders: a button that is not shown or is disabled cannot be pressed.
\<close>

section \<open>\<open>AddNodeDialog.tsx\<close>\<close>

record dialog =
  dg_open :: bool
  dg_code :: "string option"
  dg_name :: string
  dg_busy :: bool
  dg_error :: "string option"

definition dialog_init :: dialog where
  "dialog_init = \<lparr>dg_open = False, dg_code = None, dg_name = [], dg_busy = False, dg_error = None\<rparr>"

text \<open>How a promise settles; a rejection carries a message when the reason is an \<open>Error\<close>.\<close>

datatype 'a settled = Resolved 'a | Rejected "string option"

text \<open>\<open>mint\<close> up to the \<open>await\<close>, with the request it sends, and the rest of it.\<close>

definition mint_call :: "dialog \<Rightarrow> dialog \<times> create_pairing_code_request" where
  "mint_call d = (d\<lparr>dg_busy := True, dg_error := None\<rparr>, \<lparr>cpq_nodeName = dg_name d\<rparr>)"

definition mint_settle :: "create_pairing_code_response settled \<Rightarrow> dialog \<Rightarrow> dialog" where
  "mint_settle r d =
     (case r of
        Resolved res \<Rightarrow> d\<lparr>dg_code := Some (cpr_code res)\<rparr>
      | Rejected err \<Rightarrow>
          d\<lparr>dg_error := Some (case err of Some message \<Rightarrow> message | None \<Rightarrow> ''Could not generate a pairing code'')\<rparr>)
     \<lparr>dg_busy := False\<rparr>"

definition dialog_close :: "dialog \<Rightarrow> dialog" where
  "dialog_close d = d\<lparr>dg_open := False, dg_code := None, dg_error := None\<rparr>"

definition newline :: string where "newline = [CHR 0x0A]"
definition backslash :: string where "backslash = [CHR 0x5C]"

definition AddNodeDialog :: "string \<Rightarrow> dialog \<Rightarrow> html" where
  "AddNodeDialog AGENT_URL d =
     (if \<not> dg_open d then
        Element ''button'' [className ''rounded bg-slate-900 px-3 py-2 text-sm text-white''] [Text ''Add a machine'']
      else
        Element ''div'' [className ''rounded-lg border bg-white p-4'']
          [Element ''h3'' [className ''font-semibold''] [Text ''Add a machine''],
           case dg_code d of
             None \<Rightarrow>
               Element ''div'' [className ''mt-3 space-y-3'']
                 ([Element ''input'' [(''aria-label'', ''Machine name''), (''value'', dg_name d), (''placeholder'', ''mac-studio''),
                      className ''w-full rounded border px-3 py-2 text-sm''] [],
                   Element ''button'' ((if dg_busy d then [(''disabled'', '''')] else [])
                       @ [className ''rounded bg-slate-900 px-3 py-2 text-sm text-white disabled:opacity-50''])
                     [Text (if dg_busy d then ''Generating'' @ ellipsis else ''Generate pairing code'')]]
                  @ (case dg_error d of
                       Some e \<Rightarrow> if e = [] then []
                                 else [Element ''p'' [(''role'', ''alert''), className ''text-sm text-red-600''] [Text e]]
                     | None \<Rightarrow> []))
           | Some code \<Rightarrow>
               Element ''div'' [className ''mt-3 space-y-3 text-sm'']
                 [Element ''p'' [] [Text ''Install the agent on that machine, then run:''],
                  Element ''pre'' [className ''overflow-x-auto rounded bg-slate-900 p-3 text-xs text-slate-100'']
                    [Text (''modelhub-agent enroll '' @ backslash @ newline @ ''  --code '' @ code @ '' '' @ backslash
                           @ newline @ ''  --server '' @ AGENT_URL)],
                  Element ''p'' [className ''text-xs text-slate-500'']
                    [Text ''This code works once and expires in 15 minutes.'']],
           Element ''button'' [className ''mt-3 text-sm text-slate-600''] [Text ''Close'']])"

text \<open>The dialog with the requests that are under way.\<close>

inductive dialog_step :: "dialog \<times> create_pairing_code_request list \<Rightarrow> dialog \<times> create_pairing_code_request list \<Rightarrow> bool" where
  dg_opens: "\<not> dg_open d \<Longrightarrow> dialog_step (d, q) (d\<lparr>dg_open := True\<rparr>, q)"
| dg_types: "dg_open d \<Longrightarrow> dg_code d = None \<Longrightarrow> dialog_step (d, q) (d\<lparr>dg_name := name\<rparr>, q)"
| dg_mints: "dg_open d \<Longrightarrow> dg_code d = None \<Longrightarrow> \<not> dg_busy d \<Longrightarrow> mint_call d = (d', request)
    \<Longrightarrow> dialog_step (d, q) (d', q @ [request])"
| dg_settles: "dialog_step (d, q1 @ request # q2) (mint_settle r d, q1 @ q2)"
| dg_closes: "dg_open d \<Longrightarrow> dialog_step (d, q) (dialog_close d, q)"

section \<open>\<open>routes/auth.tsx\<close>\<close>

datatype field = Name | Email | Password

record auth_values =
  av_name :: string
  av_email :: string
  av_password :: string

definition field_value :: "auth_values \<Rightarrow> field \<Rightarrow> string" where
  "field_value v f = (case f of Name \<Rightarrow> av_name v | Email \<Rightarrow> av_email v | Password \<Rightarrow> av_password v)"

definition set_field :: "field \<Rightarrow> string \<Rightarrow> auth_values \<Rightarrow> auth_values" where
  "set_field f x v = (case f of Name \<Rightarrow> v\<lparr>av_name := x\<rparr> | Email \<Rightarrow> v\<lparr>av_email := x\<rparr> | Password \<Rightarrow> v\<lparr>av_password := x\<rparr>)"

text \<open>\<open>AuthResult\<close>: no error, or an error with or without a message.\<close>

type_synonym auth_result = "string option option"

definition INPUT_TYPES :: "field \<Rightarrow> string" where
  "INPUT_TYPES f = (case f of Name \<Rightarrow> ''text'' | Email \<Rightarrow> ''email'' | Password \<Rightarrow> ''password'')"

definition LABELS :: "field \<Rightarrow> string" where
  "LABELS f = (case f of Name \<Rightarrow> ''Name'' | Email \<Rightarrow> ''Email'' | Password \<Rightarrow> ''Password'')"

definition field_id :: "field \<Rightarrow> string" where
  "field_id f = (case f of Name \<Rightarrow> ''name'' | Email \<Rightarrow> ''email'' | Password \<Rightarrow> ''password'')"

record form_props =
  fp_title :: string
  fp_fields :: "field list"
  fp_submitLabel :: string
  fp_busyLabel :: string

record auth_form =
  af_values :: auth_values
  af_error :: "string option"
  af_busy :: bool

definition form_init :: auth_form where
  "form_init = \<lparr>af_values = \<lparr>av_name = [], av_email = [], av_password = []\<rparr>, af_error = None, af_busy = False\<rparr>"

text \<open>\<open>submit\<close> up to the \<open>await\<close>; what follows it runs only when \<open>onSubmit\<close> resolves.\<close>

definition submit_call :: "auth_form \<Rightarrow> auth_form \<times> auth_values" where
  "submit_call a = (a\<lparr>af_busy := True, af_error := None\<rparr>, af_values a)"

definition submit_settle :: "form_props \<Rightarrow> auth_result settled \<Rightarrow> auth_form \<Rightarrow> auth_form" where
  "submit_settle p r a =
     (case r of
        Resolved result \<Rightarrow>
          (let a = a\<lparr>af_busy := False\<rparr> in
           case result of
             Some err \<Rightarrow> a\<lparr>af_error := Some (case err of Some message \<Rightarrow> message
                                     | None \<Rightarrow> ''Could not '' @ toLowerCase (fp_submitLabel p))\<rparr>
           | None \<Rightarrow> a)
      | Rejected _ \<Rightarrow> a)"

definition AuthForm :: "form_props \<Rightarrow> auth_form \<Rightarrow> html" where
  "AuthForm p a =
     Element ''form'' [className ''mx-auto mt-24 w-full max-w-sm space-y-4'']
       ([Element ''h1'' [className ''text-2xl font-semibold''] [Text (fp_title p)]]
        @ map (\<lambda>f. Element ''div'' [className ''space-y-1'']
            [Element ''label'' [(''htmlFor'', field_id f), className ''block text-sm''] [Text (LABELS f)],
             Element ''input'' [(''id'', field_id f), (''type'', INPUT_TYPES f), (''value'', field_value (af_values a) f),
                 (''required'', ''''), className ''w-full rounded border px-3 py-2''] []]) (fp_fields p)
        @ (case af_error a of
             Some e \<Rightarrow> if e = [] then []
                       else [Element ''p'' [(''role'', ''alert''), className ''text-sm text-red-600''] [Text e]]
           | None \<Rightarrow> [])
        @ [Element ''button'' ([(''type'', ''submit'')] @ (if af_busy a then [(''disabled'', '''')] else [])
              @ [className ''w-full rounded bg-slate-900 px-3 py-2 text-white disabled:opacity-50''])
             [Text (if af_busy a then fp_busyLabel p else fp_submitLabel p)]])"

text \<open>
  \<open>useAuthSubmit\<close>: the call to the authentication client and then the navigation, each of which may
  reject; the result is what \<open>onSubmit\<close> settles with, and whether the page navigates.
\<close>

definition useAuthSubmit :: "auth_result settled \<Rightarrow> unit settled \<Rightarrow> auth_result settled \<times> bool" where
  "useAuthSubmit call navigate =
     (case call of
        Rejected e \<Rightarrow> (Rejected e, False)
      | Resolved (Some err) \<Rightarrow> (Resolved (Some err), False)
      | Resolved None \<Rightarrow>
          (case navigate of Resolved _ \<Rightarrow> (Resolved None, True) | Rejected e \<Rightarrow> (Rejected e, True)))"

definition sign_in_props :: form_props where
  "sign_in_props = \<lparr>fp_title = ''Sign in to Model Hub'', fp_fields = [Email, Password],
     fp_submitLabel = ''Sign in'', fp_busyLabel = ''Signing in'' @ ellipsis\<rparr>"

definition sign_up_props :: form_props where
  "sign_up_props = \<lparr>fp_title = ''Create your Model Hub account'', fp_fields = [Name, Email, Password],
     fp_submitLabel = ''Create account'', fp_busyLabel = ''Creating account'' @ ellipsis\<rparr>"

inductive form_step :: "form_props \<Rightarrow> auth_form \<times> auth_values list \<Rightarrow> auth_form \<times> auth_values list \<Rightarrow> bool" for p where
  af_edits: "f \<in> set (fp_fields p) \<Longrightarrow> form_step p (a, q) (a\<lparr>af_values := set_field f x (af_values a)\<rparr>, q)"
| af_submits: "\<not> af_busy a \<Longrightarrow> \<forall>f \<in> set (fp_fields p). field_value (af_values a) f \<noteq> [] \<Longrightarrow> submit_call a = (a', vals)
    \<Longrightarrow> form_step p (a, q) (a', q @ [vals])"
| af_settles: "fst (useAuthSubmit call navigate) = r \<Longrightarrow> form_step p (a, q1 @ vals # q2) (submit_settle p r a, q1 @ q2)"

section \<open>\<open>routes/fleet.tsx\<close> and \<open>routes/root.tsx\<close>\<close>

text \<open>What the query of the page last knew; the error as its text.\<close>

record fleet_query =
  fq_data :: "list_nodes_response option"
  fq_isPending :: bool
  fq_error :: "string option"

definition FleetRoute :: "string \<Rightarrow> number \<Rightarrow> dialog \<Rightarrow> fleet_query \<Rightarrow> html" where
  "FleetRoute AGENT_URL now d q =
     Element ''div'' [className ''mx-auto max-w-4xl space-y-4'']
       ([Element ''div'' [className ''flex items-center justify-between'']
           [Element ''h1'' [className ''text-2xl font-semibold''] [Text ''Fleet''], AddNodeDialog AGENT_URL d]]
        @ (if fq_isPending q
           then [Element ''p'' [className ''text-sm text-slate-500''] [Text (''Loading your machines'' @ ellipsis)]] else [])
        @ (case fq_error q of
             Some e \<Rightarrow> [Element ''p'' [(''role'', ''alert''), className ''text-sm text-red-600''] [Text e]] | None \<Rightarrow> [])
        @ (case fq_data q of
             Some r \<Rightarrow>
               (if lnr_nodes r = []
                then [Element ''p'' [className ''rounded border border-dashed p-8 text-center text-sm text-slate-500'']
                        [Text ''No machines yet. Add one to see its GPUs and memory here.'']] else [])
               @ map (NodeCard now) (lnr_nodes r)
           | None \<Rightarrow> []))"

text \<open>The session as the authentication client reports it; the layout renders the page below it only
  in a session, and the effect sends everyone else to the sign-in page.\<close>

record 'u session_state =
  ss_data :: "'u option"
  ss_isPending :: bool

definition root_effect :: "'u session_state \<Rightarrow> string option" where
  "root_effect s = (if \<not> ss_isPending s \<and> ss_data s = None then Some ''/sign-in'' else None)"

definition RootLayout :: "'u session_state \<Rightarrow> html \<Rightarrow> html list" where
  "RootLayout s outlet =
     (if ss_isPending s then [Element ''p'' [className ''p-8 text-sm text-slate-500''] [Text (''Loading'' @ ellipsis)]]
      else if ss_data s = None then []
      else [Element ''div'' [className ''min-h-screen bg-slate-50'']
        [Element ''header'' [className ''flex items-center justify-between border-b bg-white px-6 py-3'']
           [Element ''nav'' [className ''flex gap-4 text-sm'']
              [Element ''a'' [(''to'', ''/''), className ''font-semibold''] [Text ''Fleet'']],
            Element ''button'' [className ''text-sm text-slate-600''] [Text ''Sign out'']],
         Element ''main'' [className ''p-6''] [outlet]]])"

section \<open>The dialog stays consistent\<close>

inductive_cases dialog_stepE: "dialog_step y y'"
inductive_cases form_stepE: "form_step p y y'"

definition dialog_inv :: "dialog \<times> create_pairing_code_request list \<Rightarrow> bool" where
  "dialog_inv = (\<lambda>(d, q). (dg_busy d \<longleftrightarrow> q \<noteq> []) \<and> length q \<le> 1
     \<and> (dg_code d \<noteq> None \<longrightarrow> q = [] \<and> dg_error d = None) \<and> (dg_error d \<noteq> None \<longrightarrow> q = []))"

lemma single: "length (q1 @ x # q2) \<le> 1 \<Longrightarrow> q1 = [] \<and> q2 = []"
  by auto

lemma mint_settle_simps [simp]:
  "dg_busy (mint_settle r d) = False"
  "dg_open (mint_settle r d) = dg_open d"
  "dg_code (mint_settle r d) = (case r of Resolved res \<Rightarrow> Some (cpr_code res) | Rejected e \<Rightarrow> dg_code d)"
  "dg_error (mint_settle r d) = (case r of Resolved res \<Rightarrow> dg_error d
     | Rejected e \<Rightarrow> Some (case e of Some message \<Rightarrow> message | None \<Rightarrow> ''Could not generate a pairing code''))"
  by (auto simp: mint_settle_def split: settled.split)

lemma dialog_inv_step: "dialog_inv y \<Longrightarrow> dialog_step y y' \<Longrightarrow> dialog_inv y'"
proof (erule dialog_stepE)
  fix d q1 request q2 r
  assume inv: "dialog_inv y" and y: "y = (d, q1 @ request # q2)" and y': "y' = (mint_settle r d, q1 @ q2)"
  have "q1 = []" "q2 = []" "dg_error d = None" "dg_code d = None" using inv single by (auto simp: y dialog_inv_def)
  then show "dialog_inv y'" by (auto simp: y' dialog_inv_def split: settled.splits)
qed (auto simp: dialog_inv_def mint_call_def dialog_close_def)

interpretation mint_dialog: invariant_system "\<lambda>y. y = (dialog_init, [])" dialog_step dialog_inv
  by unfold_locales (simp add: dialog_inv_def dialog_init_def, rule dialog_inv_step)

text \<open>(C37) The dialog that mints codes is never stuck and never doubles a request: however clicks,
  typing and replies interleave, the busy mark is shown exactly while a request is under way, at
  most one is, and a code, an error and a request under way exclude each other; when a reply
  arrives, whether a code or a failure, the button can be pressed again.\<close>

theorem dialog_consistent:
  assumes "dialog_step\<^sup>*\<^sup>* (dialog_init, []) (d, q)"
  shows "(dg_busy d \<longleftrightarrow> q \<noteq> []) \<and> length q \<le> 1
     \<and> (dg_code d \<noteq> None \<longrightarrow> q = [] \<and> dg_error d = None) \<and> (dg_error d \<noteq> None \<longrightarrow> q = [])
     \<and> \<not> dg_busy (mint_settle r d)"
  using mint_dialog.reachable_inv [OF assms] by (simp add: dialog_inv_def)

text \<open>A reply that arrives after the dialog was closed is kept: the next opening shows that code
  instead of the form, although closing clears the code.\<close>

definition demo_dialog :: dialog where
  "demo_dialog = dialog_init\<lparr>dg_open := True, dg_busy := True\<rparr>"

lemma demo_dialog_reached: "dialog_step\<^sup>*\<^sup>* (dialog_init, []) (demo_dialog, [\<lparr>cpq_nodeName = []\<rparr>])"
proof -
  have "dialog_step (dialog_init, []) (dialog_init\<lparr>dg_open := True\<rparr>, [])"
    by (rule dg_opens) (simp add: dialog_init_def)
  moreover have "dialog_step (dialog_init\<lparr>dg_open := True\<rparr>, []) (demo_dialog, [] @ [\<lparr>cpq_nodeName = []\<rparr>])"
    by (rule dg_mints) (simp_all add: dialog_init_def mint_call_def demo_dialog_def)
  ultimately show ?thesis by (metis append_Nil converse_rtranclp_into_rtranclp rtranclp.rtrancl_refl)
qed

theorem late_code_kept:
  "\<exists>d. dialog_step\<^sup>*\<^sup>* (dialog_init, []) (d, []) \<and> \<not> dg_open d \<and> dg_code d = Some (cpr_code (res :: create_pairing_code_response))"
proof -
  let ?d = "mint_settle (Resolved res) (dialog_close demo_dialog)" and ?r = "\<lparr>cpq_nodeName = []\<rparr>"
  have "dialog_step (demo_dialog, [?r]) (dialog_close demo_dialog, [?r])"
    by (rule dg_closes) (simp add: demo_dialog_def)
  moreover have "dialog_step (dialog_close demo_dialog, [] @ ?r # []) (?d, [] @ [])" by (rule dg_settles)
  ultimately have "dialog_step\<^sup>*\<^sup>* (dialog_init, []) (?d, [])"
    using demo_dialog_reached by (metis append_Nil rtranclp.rtrancl_into_rtrancl)
  then show ?thesis by (intro exI [of _ ?d]) (simp add: dialog_close_def)
qed

theorem dialog_consistent_witness:
  "dialog_step\<^sup>*\<^sup>* (dialog_init, []) (demo_dialog, [\<lparr>cpq_nodeName = []\<rparr>]) \<and> dg_busy demo_dialog
   \<and> \<not> dg_busy (mint_settle (Rejected None) demo_dialog)"
  using dialog_consistent [OF demo_dialog_reached, of "Rejected None"] demo_dialog_reached by simp

section \<open>A form whose call rejects\<close>

definition form_inv :: "auth_form \<times> auth_values list \<Rightarrow> bool" where
  "form_inv = (\<lambda>(a, q). length q \<le> 1 \<and> (q \<noteq> [] \<longrightarrow> af_busy a \<and> af_error a = None))"

lemma form_inv_step: "form_inv y \<Longrightarrow> form_step p y y' \<Longrightarrow> form_inv y'"
proof (erule form_stepE)
  fix call navigate r a q1 vals q2
  assume inv: "form_inv y" and y: "y = (a, q1 @ vals # q2)" and y': "y' = (submit_settle p r a, q1 @ q2)"
  have "q1 = []" "q2 = []" using inv single by (auto simp: y form_inv_def)
  then show "form_inv y'" by (simp add: y' form_inv_def)
qed (auto simp: form_inv_def submit_call_def)

interpretation auth_form: invariant_system "\<lambda>y. y = (form_init, [])" "form_step p" form_inv for p
  by unfold_locales (simp add: form_inv_def form_init_def, rule form_inv_step)

text \<open>Busy with nothing under way: no handler leads out of it.\<close>

definition form_stuck :: "auth_form \<times> auth_values list \<Rightarrow> bool" where
  "form_stuck = (\<lambda>(a, q). af_busy a \<and> q = [])"

lemma form_stuck_step: "form_stuck y \<Longrightarrow> form_step p y y' \<Longrightarrow> form_stuck y'"
  by (erule form_stepE) (auto simp: form_stuck_def)

interpretation stuck_form: invariant_system form_stuck "form_step p" form_stuck for p
  by unfold_locales (assumption, rule form_stuck_step)

text \<open>A form that has an answer: it is not busy, and it shows an error exactly when the answer has one.\<close>

lemma submit_resolved:
  "\<not> af_busy (submit_settle p (Resolved result) a)"
  "af_error a = None \<Longrightarrow> af_error (submit_settle p (Resolved result) a) = None \<longleftrightarrow> result = None"
  "af_values (submit_settle p (Resolved result) a) = af_values a"
  by (auto simp: submit_settle_def Let_def split: option.splits)

definition signing_in :: auth_form where
  "signing_in = \<lparr>af_values = \<lparr>av_name = [], av_email = ''a@b'', av_password = ''secret''\<rparr>, af_error = None, af_busy = True\<rparr>"

lemma signing_in_reached: "(form_step sign_in_props)\<^sup>*\<^sup>* (form_init, []) (signing_in, [af_values signing_in])"
proof -
  let ?a = "form_init\<lparr>af_values := set_field Email ''a@b'' (af_values form_init)\<rparr>"
  let ?b = "?a\<lparr>af_values := set_field Password ''secret'' (af_values ?a)\<rparr>"
  have "form_step sign_in_props (form_init, []) (?a, [])" by (rule af_edits) (simp add: sign_in_props_def)
  moreover have "form_step sign_in_props (?a, []) (?b, [])" by (rule af_edits) (simp add: sign_in_props_def)
  moreover have "form_step sign_in_props (?b, []) (signing_in, [] @ [af_values signing_in])"
    by (rule af_submits) (auto simp: sign_in_props_def form_init_def signing_in_def set_field_def field_value_def submit_call_def)
  ultimately show ?thesis unfolding append_Nil
    by (blast intro: converse_rtranclp_into_rtranclp rtranclp.rtrancl_refl)
qed

text \<open>A sign-in whose call rejects locks the form: from the empty form one reaches, by filling in
  both fields, submitting and a rejected promise, a form that is busy and shows no error, and
  every state reachable from there is busy too with no request under way: the button never works
  again until the page is loaded anew.\<close>

theorem rejected_sign_in_locks:
  "\<exists>a. (form_step sign_in_props)\<^sup>*\<^sup>* (form_init, []) (a, []) \<and> af_error a = None
     \<and> {y. (form_step sign_in_props)\<^sup>*\<^sup>* (a, []) y} \<subseteq> {(a', q'). af_busy a' \<and> q' = []}"
proof -
  have "submit_settle sign_in_props (Rejected None) signing_in = signing_in" by (simp add: submit_settle_def)
  moreover have "form_step sign_in_props (signing_in, [] @ af_values signing_in # [])
      (submit_settle sign_in_props (Rejected None) signing_in, [] @ [])"
    by (rule af_settles [where call = "Rejected None"]) (simp add: useAuthSubmit_def)
  ultimately have "(form_step sign_in_props)\<^sup>*\<^sup>* (form_init, []) (signing_in, [])"
    using signing_in_reached by (metis append_Nil rtranclp.rtrancl_into_rtrancl)
  moreover have "form_stuck (signing_in, [])" by (simp add: form_stuck_def signing_in_def)
  then have "form_stuck y" if "(form_step sign_in_props)\<^sup>*\<^sup>* (signing_in, []) y" for y
    using stuck_form.reachable_inv [OF that] by blast
  then have "{y. (form_step sign_in_props)\<^sup>*\<^sup>* (signing_in, []) y} \<subseteq> {(a', q'). af_busy a' \<and> q' = []}"
    by (auto simp: form_stuck_def)
  moreover have "af_error signing_in = None" by (simp add: signing_in_def)
  ultimately show ?thesis by blast
qed

section \<open>The layout guards the page\<close>

lemma root_guard:
  "ss_isPending s \<or> ss_data s = None \<Longrightarrow> RootLayout s outlet = RootLayout s outlet'"
  "\<not> ss_isPending s \<Longrightarrow> ss_data s = None \<Longrightarrow> RootLayout s outlet = [] \<and> root_effect s = Some ''/sign-in''"
  by (auto simp: RootLayout_def root_effect_def)

end
