(* ===== verification/Web_Routes.thy ===== *)
theory Web_Routes
  imports Web_State
begin

text \<open>
  The pages and their layout: \<open>apps/web/src/router.tsx\<close>. A route has a path or is a pathless layout, a
  component and child routes; the page of a URL renders the components from the root down to the
  route, each inside the \<open>Outlet\<close> of the one above. Matching a URL with a path is the router's.
\<close>

section \<open>The route tree\<close>

datatype page_component = OutletOnly | Layout | SignInPage | SignUpPage | FleetPage

datatype route = Route "string option" page_component "route list"

definition addChildren :: "route \<Rightarrow> route list \<Rightarrow> route" where
  "addChildren r new = (case r of Route path component _ \<Rightarrow> Route path component new)"

definition rootRoute :: route where
  "rootRoute = Route None OutletOnly []"

definition signInRoute :: route where
  "signInRoute = Route (Some ''/sign-in'') SignInPage []"

definition signUpRoute :: route where
  "signUpRoute = Route (Some ''/sign-up'') SignUpPage []"

definition appRoute :: route where
  "appRoute = Route None Layout []"

definition fleetRoute :: route where
  "fleetRoute = Route (Some ''/'') FleetPage []"

definition routeTree :: route where
  "routeTree = addChildren rootRoute [signInRoute, signUpRoute, addChildren appRoute [fleetRoute]]"

text \<open>The routes with a path, each with the components from the root down.\<close>

fun branches :: "route \<Rightarrow> (string \<times> page_component list) list" where
  "branches (Route path component kids) =
     (case path of Some p \<Rightarrow> [(p, [component])] | None \<Rightarrow> [])
     @ map (\<lambda>(p, cs). (p, component # cs)) (concat (map branches kids))"

section \<open>Rendering\<close>

text \<open>Everything the pages read: the session, the state of the fleet page and the forms'.\<close>

record 'u page_state =
  pg_session :: "'u session_state"
  pg_agentUrl :: string
  pg_now :: number
  pg_dialog :: dialog
  pg_fleet :: fleet_query
  pg_signIn :: auth_form
  pg_signUp :: auth_form

fun render :: "'u page_state \<Rightarrow> page_component list \<Rightarrow> html list" where
  "render s [] = []"
| "render s (c # cs) =
     (case c of
        OutletOnly \<Rightarrow> render s cs
      | Layout \<Rightarrow> RootLayout (pg_session s) (case render s cs of [x] \<Rightarrow> x | _ \<Rightarrow> Text [])
      | SignInPage \<Rightarrow> [AuthForm sign_in_props (pg_signIn s)]
      | SignUpPage \<Rightarrow> [AuthForm sign_up_props (pg_signUp s)]
      | FleetPage \<Rightarrow> [FleetRoute (pg_agentUrl s) (pg_now s) (pg_dialog s) (pg_fleet s)])"

text \<open>All elements of a page.\<close>

fun elements :: "html \<Rightarrow> html list" where
  "elements (Text t) = [Text t]"
| "elements (Element tag attrs kids) = Element tag attrs kids # concat (map elements kids)"

section \<open>The fleet is behind the layout\<close>

lemma routeTree_branches:
  "branches routeTree = [(''/sign-in'', [OutletOnly, SignInPage]), (''/sign-up'', [OutletOnly, SignUpPage]),
     (''/'', [OutletOnly, Layout, FleetPage])]"
  by (simp add: routeTree_def addChildren_def rootRoute_def signInRoute_def signUpRoute_def appRoute_def fleetRoute_def)

lemma elements_self: "x \<in> set (elements x)"
  by (cases x) simp_all

text \<open>(C36) The pages are guarded: whatever page is rendered, as long as the session is not known nothing of
  the fleet is on it (the same elements appear for any two states of the fleet page), the visitor
  of the fleet page without a session is sent to a page that exists and shows the sign-in form, and
  with a session the fleet page is there, inside the layout.\<close>

theorem pages_guarded:
  assumes "(path, components) \<in> set (branches routeTree)"
  shows "(pg_session s = pg_session s' \<and> pg_signIn s = pg_signIn s' \<and> pg_signUp s = pg_signUp s'
           \<and> (ss_isPending (pg_session s) \<or> ss_data (pg_session s) = None) \<longrightarrow> render s components = render s' components)
     \<and> (ss_data (pg_session s) = None \<and> \<not> ss_isPending (pg_session s) \<and> FleetPage \<in> set components \<longrightarrow>
          render s components = [] \<and> (\<exists>target cs. root_effect (pg_session s) = Some target
            \<and> map_of (branches routeTree) target = Some cs \<and> render s cs = [AuthForm sign_in_props (pg_signIn s)]))
     \<and> (ss_data (pg_session s) \<noteq> None \<and> \<not> ss_isPending (pg_session s) \<and> path = ''/'' \<longrightarrow>
          root_effect (pg_session s) = None
          \<and> (\<exists>x \<in> set (render s components).
               FleetRoute (pg_agentUrl s) (pg_now s) (pg_dialog s) (pg_fleet s) \<in> set (elements x)))"
proof -
  have "components = [OutletOnly, SignInPage] \<and> path = ''/sign-in'' \<or> components = [OutletOnly, SignUpPage] \<and> path = ''/sign-up''
      \<or> components = [OutletOnly, Layout, FleetPage] \<and> path = ''/''"
    using assms by (auto simp: routeTree_branches)
  then show ?thesis
    by (elim disjE conjE) (auto simp: routeTree_branches RootLayout_def root_effect_def elements_self)
qed

definition demo_page :: "nat page_state" where
  "demo_page = \<lparr>pg_session = \<lparr>ss_data = None, ss_isPending = False\<rparr>, pg_agentUrl = [], pg_now = 0, pg_dialog = dialog_init,
     pg_fleet = \<lparr>fq_data = None, fq_isPending = True, fq_error = None\<rparr>, pg_signIn = form_init, pg_signUp = form_init\<rparr>"

theorem pages_guarded_witness:
  "render demo_page [OutletOnly, Layout, FleetPage] = []
   \<and> (\<exists>x \<in> set (render (demo_page\<lparr>pg_session := \<lparr>ss_data = Some 1, ss_isPending = False\<rparr>\<rparr>) [OutletOnly, Layout, FleetPage]).
        FleetRoute [] 0 dialog_init \<lparr>fq_data = None, fq_isPending = True, fq_error = None\<rparr> \<in> set (elements x))"
proof -
  have b: "(''/'', [OutletOnly, Layout, FleetPage]) \<in> set (branches routeTree)" by (simp add: routeTree_branches)
  show ?thesis
    using pages_guarded [OF b, of demo_page demo_page]
      pages_guarded [OF b, of "demo_page\<lparr>pg_session := \<lparr>ss_data = Some 1, ss_isPending = False\<rparr>\<rparr>" demo_page]
    by (simp add: demo_page_def)
qed

end
