(* ===== verification/Clients.thy ===== *)
theory Clients
  imports Process Routes Web_Routes Js_Print
begin

text \<open>
  How the pieces are configured to meet: Better Auth's options in \<open>auth/auth.ts\<close>, the Redis client of
  \<open>redis.ts\<close>, the browser's clients in \<open>apps/web/src\<close> (\<open>api.ts\<close>, \<open>auth.ts\<close>, \<open>main.tsx\<close>) and the proxy of the
  development server in \<open>vite.config.ts\<close>. The constructors are third-party; what the program passes to
  them is data here, and the lemmas relate it to the routes of the two listeners.
\<close>

section \<open>The server's clients\<close>

text \<open>The options handed to \<open>betterAuth\<close>; the hook is the program's.\<close>

record ('h, 's) auth_options =
  ao_secret :: string
  ao_baseURL :: string
  ao_basePath :: string
  ao_provider :: string
  ao_emailAndPassword :: bool
  ao_trustedOrigins :: "string list"
  ao_generateId :: "string \<Rightarrow> string \<Rightarrow> string"
  ao_plugins :: "string list"
  ao_afterUserCreate :: "string \<Rightarrow> user \<Rightarrow> ('s, error, unit) op"

definition auth_config :: "env \<Rightarrow> ('h, 's) auth_api \<Rightarrow> ('h, 's) auth_options" where
  "auth_config e api =
     \<lparr>ao_secret = e_BETTER_AUTH_SECRET e, ao_baseURL = e_PUBLIC_URL e, ao_basePath = ''/api/auth'', ao_provider = ''pg'',
      ao_emailAndPassword = True, ao_trustedOrigins = [e_PUBLIC_URL e], ao_generateId = generateId,
      ao_plugins = [''organization''], ao_afterUserCreate = afterUserCreate api\<rparr>"

text \<open>\<open>new Redis(env.REDIS_URL, { maxRetriesPerRequest: 3 })\<close>.\<close>

definition redis_options :: "env \<Rightarrow> string \<times> (string \<times> nat) list" where
  "redis_options e = (e_REDIS_URL e, [(''maxRetriesPerRequest'', 3)])"

section \<open>The browser's clients\<close>

record transport =
  tr_baseUrl :: string
  tr_fetch_init :: "(string \<rightharpoonup> string) \<Rightarrow> (string \<rightharpoonup> string)"

definition fleet_transport :: "string \<Rightarrow> transport" where
  "fleet_transport origin1 =
     \<lparr>tr_baseUrl = origin1, tr_fetch_init = (\<lambda>init. init(''credentials'' \<mapsto> ''include''))\<rparr>"

definition fleetClient :: "string \<Rightarrow> service \<times> transport" where
  "fleetClient origin1 = (FleetService, fleet_transport origin1)"

record auth_client_options =
  ac_baseURL :: string
  ac_basePath :: string
  ac_plugins :: "string list"

definition authClient :: "string \<Rightarrow> auth_client_options" where
  "authClient origin1 = \<lparr>ac_baseURL = origin1, ac_basePath = ''/api/auth'', ac_plugins = [''organization'']\<rparr>"

record query_options =
  qo_staleTime :: number
  qo_refetchOnWindowFocus :: bool

definition queryClient :: query_options where
  "queryClient = \<lparr>qo_staleTime = 2000, qo_refetchOnWindowFocus = True\<rparr>"

text \<open>\<open>main.tsx\<close>: the page of the current route, below the providers.\<close>

definition browser_start :: "'u page_state \<Rightarrow> page_component list \<Rightarrow> query_options \<times> html list" where
  "browser_start s components = (queryClient, render s components)"

section \<open>The development server\<close>

text \<open>A request whose path starts with a key goes to its target; other paths are the web application's.\<close>

definition dev_port :: nat where
  "dev_port = 5173"

definition dev_proxy :: "(string \<times> string) list" where
  "dev_proxy = [(''/api'', ''http://localhost:3000''), (''/modelhub.v1.FleetService'', ''http://localhost:3000'')]"

definition proxy_target :: "string \<Rightarrow> string option" where
  "proxy_target path = map_option snd (find (\<lambda>(key, _). startsWith path key) dev_proxy)"

section \<open>Everything the browser calls is served, and only by the browsers' listener\<close>

text \<open>The path of a method in the Connect protocol.\<close>

definition rpc_path :: "string \<Rightarrow> rpc_method \<Rightarrow> string" where
  "rpc_path typeName m = ''/'' @ typeName @ ''/'' @ rm_name m"

text \<open>
  The methods of the client's service are exactly the methods the browsers' listener answers, and
  the development server passes them on to it; it passes no method of the agents' listener on.
\<close>

lemma fleet_calls_served:
  "map (\<lambda>(sv, m, h). (sv, m)) (rpc_handlers (buildApp l))
     = map (\<lambda>m. (sv_typeName (fst (fleetClient origin1)), m)) (sv_methods (fst (fleetClient origin1)))"
  "\<forall>(sv, m, h) \<in> set (rpc_handlers (buildApp l)). proxy_target (rpc_path sv m) = Some ''http://localhost:3000''"
  "\<forall>(sv, m, h) \<in> set (rpc_handlers (buildAgentApp l)). proxy_target (rpc_path sv m) = None"
  by (simp_all add: rpc_handlers_def app_defs Let_def fleetClient_def rpc_path_def proxy_target_def dev_proxy_def)

text \<open>Client, server and Better Auth agree on where sign-in lives, and the proxy passes all of it on.\<close>

lemma auth_paths_agree:
  "ac_basePath (authClient origin1) = ao_basePath (auth_config e api)"
  "([''GET'', ''POST''], ac_basePath (authClient origin1) @ ''/*'', AuthRoute) \<in> set (ap_routes (buildApp l))"
  "proxy_target (ac_basePath (authClient origin1) @ rest) = Some ''http://localhost:3000''"
  by (simp_all add: authClient_def auth_config_def app_defs Let_def proxy_target_def dev_proxy_def)

text \<open>The proxy's target is the default port of the browsers' listener.\<close>

lemma proxy_port:
  assumes "zod_laws z" and "Schema_parse z penv = Some e" and "penv ''PORT'' = None"
  shows "\<exists>p. e_PORT e = Finite p \<and> snd ` set dev_proxy = {''http://localhost:'' @ js_toString p}"
proof -
  have "e_PORT e = Finite 3000" using zod_laws.parsed_numbers(1) [OF assms(1,2)] assms(3) by (simp add: number_from_def)
  moreover have "show_nat 3000 = ''3000''" by code_simp
  then have "js_toString (of_nat 3000) = ''3000''" using toString_nat_digits [of 3000] by simp
  ultimately show ?thesis by (simp add: dev_proxy_def)
qed

text \<open>What Better Auth is configured with in a booted process: a secret of at least 32 characters and no
  origin but the public one.\<close>

lemma auth_config_booted:
  assumes "zod_laws z" and "Schema_parse z penv = Some e"
  shows "32 \<le> length (ao_secret (auth_config e api))"
    "ao_trustedOrigins (auth_config e api) = [ao_baseURL (auth_config e api)]"
    "\<exists>t. ao_afterUserCreate (auth_config e api) hex u s = (Inr (), t)"
  using zod_laws.parsed_texts(5) [OF assms] after_user_create_returns by (simp_all add: auth_config_def)

end
