(* ===== verification/Wire_Format.thy ===== *)
theory Wire_Format
  imports Fixtures
begin

text \<open>
  Reading what is stored in base64 and in the binary wire format of protocol buffers, as both are
  published: base64 with the standard alphabet and without padding; a message as a sequence of
  fields, each a tag (field number and wire type) and a varint or a counted run of bytes. The runtime
  of \<open>packages/proto-ts\<close> is not among the sources; this reader is the reference its embedded
  descriptors are compared with. That it undoes the writing of a message is
  \<open>read_write_fields\<close>.
\<close>

section \<open>Base64\<close>

definition base64_value :: "char \<Rightarrow> nat" where
  "base64_value c =
     (let n = of_char c :: nat in
      if 97 \<le> n then n - 71 else if 65 \<le> n then n - 65 else if 48 \<le> n then n + 4
      else if n = 43 then 62 else 63)"

definition base64_decode :: "string \<Rightarrow> nat list" where
  "base64_decode s = octets (map base64_value s)"

definition BASE64 :: string where
  "BASE64 = ''ABCDEFGHIJKLMNOPQRSTUVWXYZabcdefghijklmnopqrstuvwxyz0123456789+/''"

definition base64_encode :: "nat list \<Rightarrow> string" where
  "base64_encode bs = map (\<lambda>i. BASE64 ! i) (sextets bs)"

lemma base64_values: "map base64_value BASE64 = [0..<64]"
  by code_simp

lemma base64_value_nth: "i < 64 \<Longrightarrow> base64_value (BASE64 ! i) = i"
proof -
  assume "i < 64"
  moreover have "length BASE64 = 64" by (simp add: BASE64_def)
  ultimately have "base64_value (BASE64 ! i) = map base64_value BASE64 ! i" by simp
  then show ?thesis using \<open>i < 64\<close> by (simp add: base64_values)
qed

lemma base64_roundtrip:
  assumes "\<forall>b \<in> set bs. b < 256"
  shows "base64_decode (base64_encode bs) = bs"
proof -
  have "map base64_value (map (\<lambda>i. BASE64 ! i) (sextets bs)) = sextets bs"
    using sextets_bound [OF assms] by (simp add: comp_def base64_value_nth map_idI)
  then show ?thesis by (simp add: base64_decode_def base64_encode_def octets_sextets [OF assms] del: map_map)
qed

section \<open>Varints and fields\<close>

fun read_varint :: "nat list \<Rightarrow> (nat \<times> nat list) option" where
  "read_varint [] = None"
| "read_varint (b # bs) =
     (if b < 128 then Some (b, bs)
      else (case read_varint bs of None \<Rightarrow> None | Some (n, r) \<Rightarrow> Some (b - 128 + 128 * n, r)))"

fun write_varint :: "nat \<Rightarrow> nat list" where
  "write_varint n = (if n < 128 then [n] else (n mod 128 + 128) # write_varint (n div 128))"

declare write_varint.simps [simp del]

lemma read_write_varint: "read_varint (write_varint n @ r) = Some (n, r)"
proof (induction n rule: write_varint.induct)
  case (1 n)
  then show ?case by (subst write_varint.simps) simp
qed

lemma read_varint_shorter: "read_varint bs = Some (n, r) \<Longrightarrow> length r < length bs"
  by (induction bs arbitrary: n) (fastforce split: if_splits option.splits)+

datatype wire = Varint nat | Bytes "nat list"

text \<open>The first \<open>n\<close> bytes and the rest, when there are so many.\<close>

fun cut :: "nat \<Rightarrow> 'a list \<Rightarrow> ('a list \<times> 'a list) option" where
  "cut n [] = (if n = 0 then Some ([], []) else None)"
| "cut n (x # xs) =
     (if n = 0 then Some ([], x # xs)
      else (case cut (n - 1) xs of None \<Rightarrow> None | Some (ys, zs) \<Rightarrow> Some (x # ys, zs)))"

lemma cut_append: "cut (length xs) (xs @ ys) = Some (xs, ys)"
  by (induction xs) (cases ys; simp)+

lemma cut_length: "cut n xs = Some (ys, zs) \<Longrightarrow> length zs \<le> length xs"
  by (induction n xs arbitrary: ys rule: cut.induct) (auto split: if_splits option.splits)

function read_fields :: "nat list \<Rightarrow> (nat \<times> wire) list option" where
  "read_fields [] = Some []"
| "read_fields (b # bs) =
     (case read_varint (b # bs) of None \<Rightarrow> None
      | Some (tag, r) \<Rightarrow>
          (case read_varint r of None \<Rightarrow> None
           | Some (n, r') \<Rightarrow>
               if tag mod 8 = 0 then map_option (Cons (tag div 8, Varint n)) (read_fields r')
               else if tag mod 8 = 2
               then (case cut n r' of None \<Rightarrow> None
                     | Some (ys, zs) \<Rightarrow> map_option (Cons (tag div 8, Bytes ys)) (read_fields zs))
               else None))"
  by pat_completeness auto
termination
  by (relation "measure length") (fastforce dest!: read_varint_shorter cut_length)+

fun write_field :: "nat \<times> wire \<Rightarrow> nat list" where
  "write_field (k, Varint n) = write_varint (8 * k) @ write_varint n"
| "write_field (k, Bytes bs) = write_varint (8 * k + 2) @ write_varint (length bs) @ bs"

lemma write_varint_nonempty [simp]: "write_varint n \<noteq> []"
  by (subst write_varint.simps) simp

text \<open>What is written is read back, whatever the fields are.\<close>

lemma read_fields_start:
  "read_fields (write_varint k @ r) =
     (case read_varint r of None \<Rightarrow> None
      | Some (n, r') \<Rightarrow>
          if k mod 8 = 0 then map_option (Cons (k div 8, Varint n)) (read_fields r')
          else if k mod 8 = 2
          then (case cut n r' of None \<Rightarrow> None
                | Some (ys, zs) \<Rightarrow> map_option (Cons (k div 8, Bytes ys)) (read_fields zs))
          else None)"
proof -
  obtain b bs where b: "write_varint k @ r = b # bs" by (cases "write_varint k") auto
  show ?thesis unfolding b read_fields.simps by (simp add: read_write_varint flip: b)
qed

lemma read_write_fields: "read_fields (concat (map write_field fs)) = Some fs"
proof (induction fs)
  case (Cons f fs)
  obtain k v where f: "f = (k, v)" by (cases f)
  have "(8 * k + 2) mod 8 = 2" "(8 * k + 2) div 8 = k" by presburger+
  then show ?case
    using Cons f by (cases v) (simp_all add: read_fields_start read_write_varint cut_append)
qed simp

section \<open>Contracts\<close>

text \<open>
  A \<open>.proto\<close> file as it is written, and the \<open>FileDescriptorProto\<close> it stands for
  (\<open>google/protobuf/descriptor.proto\<close>): the fields the generator embeds, in the order of their numbers.
  It leaves the dependencies out, which are an argument of \<open>fileDesc\<close>, and the JSON names.
\<close>

datatype label = Singular | Repeated

datatype proto_field = ProtoField label string string nat

datatype member = Field proto_field | Oneof string "proto_field list"

datatype proto_method = Rpc string bool string bool string

record proto_file =
  pr_path :: string
  pr_package :: string
  pr_imports :: "string list"
  pr_goPackage :: string
  pr_messages :: "(string \<times> member list) list"
  pr_enums :: "(string \<times> (string \<times> nat) list) list"
  pr_services :: "(string \<times> proto_method list) list"

definition text_bytes :: "string \<Rightarrow> wire" where
  "text_bytes s = Bytes (map of_char s)"

definition message_bytes :: "(nat \<times> wire) list \<Rightarrow> nat list" where
  "message_bytes fs = concat (map write_field fs)"

text \<open>The number of a type; a named type is an enumeration or a message.\<close>

definition scalar_number :: "string \<Rightarrow> nat option" where
  "scalar_number = map_of [(''double'', 1), (''int64'', 3), (''uint64'', 4), (''bool'', 8), (''string'', 9),
     (''bytes'', 12), (''uint32'', 13)]"

definition dotted :: "string \<Rightarrow> string \<Rightarrow> string" where
  "dotted package name = package @ CHR ''.'' # name"

fun field_fields :: "string \<Rightarrow> string list \<Rightarrow> nat option \<Rightarrow> proto_field \<Rightarrow> (nat \<times> wire) list" where
  "field_fields package enums oneof (ProtoField l ty name k) =
     [(1, text_bytes name), (3, Varint k), (4, Varint (case l of Singular \<Rightarrow> 1 | Repeated \<Rightarrow> 3))]
     @ (case scalar_number ty of
          Some n \<Rightarrow> [(5, Varint n)]
        | None \<Rightarrow> [(5, Varint (if ty \<in> set enums then 14 else 11)), (6, text_bytes (CHR ''.'' # dotted package ty))])
     @ (case oneof of None \<Rightarrow> [] | Some i \<Rightarrow> [(9, Varint i)])"

fun member_fields :: "string \<Rightarrow> string list \<Rightarrow> nat \<Rightarrow> member list \<Rightarrow> (nat \<times> wire) list" where
  "member_fields package enums i [] = []"
| "member_fields package enums i (Field f # ms) =
     (2, Bytes (message_bytes (field_fields package enums None f))) # member_fields package enums i ms"
| "member_fields package enums i (Oneof name fs # ms) =
     map (\<lambda>f. (2, Bytes (message_bytes (field_fields package enums (Some i) f)))) fs
     @ member_fields package enums (Suc i) ms"

fun oneof_names :: "member list \<Rightarrow> string list" where
  "oneof_names [] = []"
| "oneof_names (Field f # ms) = oneof_names ms"
| "oneof_names (Oneof name fs # ms) = name # oneof_names ms"

definition message_fields :: "string \<Rightarrow> string list \<Rightarrow> string \<times> member list \<Rightarrow> (nat \<times> wire) list" where
  "message_fields package enums m =
     (case m of (name, ms) \<Rightarrow> (1, text_bytes name) # member_fields package enums 0 ms
        @ map (\<lambda>o1. (8, Bytes (message_bytes [(1, text_bytes o1)]))) (oneof_names ms))"

definition enum_fields :: "string \<times> (string \<times> nat) list \<Rightarrow> (nat \<times> wire) list" where
  "enum_fields e = (case e of (name, vs) \<Rightarrow> (1, text_bytes name)
     # map (\<lambda>(v, n). (2, Bytes (message_bytes [(1, text_bytes v), (2, Varint n)]))) vs)"

fun method_fields :: "string \<Rightarrow> proto_method \<Rightarrow> (nat \<times> wire) list" where
  "method_fields package (Rpc name cs input ss output) =
     [(1, text_bytes name), (2, text_bytes (CHR ''.'' # dotted package input)),
      (3, text_bytes (CHR ''.'' # dotted package output))]
     @ (if cs then [(5, Varint 1)] else []) @ (if ss then [(6, Varint 1)] else [])"

definition service_fields :: "string \<Rightarrow> string \<times> proto_method list \<Rightarrow> (nat \<times> wire) list" where
  "service_fields package s = (case s of (name, ms) \<Rightarrow> (1, text_bytes name)
     # map (\<lambda>m. (2, Bytes (message_bytes (method_fields package m)))) ms)"

definition file_fields :: "string list \<Rightarrow> proto_file \<Rightarrow> (nat \<times> wire) list" where
  "file_fields enums p =
     [(1, text_bytes (pr_path p)), (2, text_bytes (pr_package p))]
     @ map (\<lambda>m. (4, Bytes (message_bytes (message_fields (pr_package p) enums m)))) (pr_messages p)
     @ map (\<lambda>e. (5, Bytes (message_bytes (enum_fields e)))) (pr_enums p)
     @ map (\<lambda>s. (6, Bytes (message_bytes (service_fields (pr_package p) s)))) (pr_services p)
     @ [(8, Bytes (message_bytes [(11, text_bytes (pr_goPackage p))])), (12, text_bytes ''proto3'')]"

lemma read_message_bytes: "read_fields (message_bytes fs) = Some fs"
  by (simp add: message_bytes_def read_write_fields)

end
