(* ===== verification/Descriptors.thy ===== *)
theory Descriptors
  imports Wire_Format Routes
begin

text \<open>
  The contract \<open>proto/modelhub/v1/*.proto\<close> and the files \<open>packages/proto-ts/src/gen/modelhub/v1/*_pb.ts\<close>
  generated from it. A generated file says everything twice: as a binary descriptor in base64, which
  the runtime encodes and decodes by, and as TypeScript types, which the sources are checked against.
  Here is all of it, as data: the contract; the argument of each \<open>fileDesc\<close>; what each \<open>...Schema\<close> points
  to; the declared types with the \<open>@generated from\<close> comments of their fields. That the three agree is
  \<open>descriptors_agree\<close>.
\<close>

section \<open>The contract\<close>

definition common_proto :: proto_file where
  "common_proto = \<lparr>pr_path = ''modelhub/v1/common.proto'', pr_package = ''modelhub.v1'', pr_imports = [],
     pr_goPackage = ''github.com/modelhub/agent/gen/modelhub/v1;modelhubv1'',
     pr_messages =
      [(''HostInfo'',
        [Field (ProtoField Singular ''string'' ''hostname'' 1),
         Field (ProtoField Singular ''string'' ''platform'' 2),
         Field (ProtoField Singular ''string'' ''arch'' 3),
         Field (ProtoField Singular ''string'' ''os_version'' 4),
         Field (ProtoField Singular ''string'' ''agent_version'' 5),
         Field (ProtoField Singular ''uint64'' ''total_memory_bytes'' 6),
         Field (ProtoField Singular ''uint32'' ''cpu_cores'' 7)]),
       (''Device'',
        [Field (ProtoField Singular ''string'' ''local_id'' 1),
         Field (ProtoField Singular ''DeviceKind'' ''kind'' 2),
         Field (ProtoField Singular ''uint32'' ''index'' 3),
         Field (ProtoField Singular ''string'' ''name'' 4),
         Field (ProtoField Singular ''uint64'' ''total_bytes'' 5),
         Field (ProtoField Singular ''string'' ''driver_version'' 6),
         Field (ProtoField Singular ''string'' ''compute_capability'' 7),
         Field (ProtoField Singular ''uint64'' ''wired_limit_bytes'' 8)]),
       (''DeviceSample'',
        [Field (ProtoField Singular ''string'' ''local_id'' 1),
         Field (ProtoField Singular ''uint64'' ''used_bytes'' 2),
         Field (ProtoField Singular ''uint64'' ''managed_bytes'' 3),
         Field (ProtoField Singular ''double'' ''utilization'' 4),
         Field (ProtoField Singular ''double'' ''temperature_c'' 5),
         Field (ProtoField Singular ''double'' ''power_watts'' 6),
         Field (ProtoField Singular ''MemoryPressure'' ''pressure'' 7),
         Field (ProtoField Singular ''int64'' ''sampled_at_unix_ms'' 8)])],
     pr_enums = [(''DeviceKind'',
        [(''DEVICE_KIND_UNSPECIFIED'', 0), (''DEVICE_KIND_CPU'', 1), (''DEVICE_KIND_CUDA'', 2), (''DEVICE_KIND_METAL'', 3)]),
       (''MemoryPressure'',
        [(''MEMORY_PRESSURE_UNSPECIFIED'', 0), (''MEMORY_PRESSURE_NORMAL'', 1), (''MEMORY_PRESSURE_WARN'', 2), (''MEMORY_PRESSURE_CRITICAL'', 3)])],
     pr_services = []\<rparr>"

definition node_proto :: proto_file where
  "node_proto = \<lparr>pr_path = ''modelhub/v1/node.proto'', pr_package = ''modelhub.v1'', pr_imports = [''modelhub/v1/common.proto''],
     pr_goPackage = ''github.com/modelhub/agent/gen/modelhub/v1;modelhubv1'',
     pr_messages =
      [(''EnrollRequest'',
        [Field (ProtoField Singular ''string'' ''pairing_code'' 1),
         Field (ProtoField Singular ''bytes'' ''public_key'' 2),
         Field (ProtoField Singular ''string'' ''node_name'' 3),
         Field (ProtoField Singular ''HostInfo'' ''host'' 4)]),
       (''EnrollResponse'',
        [Field (ProtoField Singular ''string'' ''node_id'' 1),
         Field (ProtoField Singular ''string'' ''org_id'' 2),
         Field (ProtoField Singular ''string'' ''org_name'' 3)]),
       (''AgentMessage'',
        [Oneof ''payload''
         [ProtoField Singular ''Hello'' ''hello'' 1,
          ProtoField Singular ''InventoryReport'' ''inventory'' 2,
          ProtoField Singular ''SampleBatch'' ''samples'' 3]]),
       (''Hello'',
        [Field (ProtoField Singular ''string'' ''agent_version'' 1),
         Field (ProtoField Singular ''HostInfo'' ''host'' 2)]),
       (''InventoryReport'',
        [Field (ProtoField Repeated ''Device'' ''devices'' 1)]),
       (''SampleBatch'',
        [Field (ProtoField Repeated ''DeviceSample'' ''samples'' 1)]),
       (''ServerMessage'',
        [Oneof ''payload''
         [ProtoField Singular ''HelloAck'' ''hello_ack'' 1,
          ProtoField Singular ''AgentConfig'' ''config'' 2]]),
       (''HelloAck'',
        [Field (ProtoField Singular ''string'' ''node_id'' 1),
         Field (ProtoField Singular ''uint32'' ''sample_interval_ms'' 2)]),
       (''AgentConfig'',
        [Field (ProtoField Singular ''uint32'' ''sample_interval_ms'' 1)])],
     pr_enums = [],
     pr_services = [(''NodeService'',
        [Rpc ''Enroll'' False ''EnrollRequest'' False ''EnrollResponse'',
         Rpc ''Connect'' True ''AgentMessage'' True ''ServerMessage''])]\<rparr>"

definition fleet_proto :: proto_file where
  "fleet_proto = \<lparr>pr_path = ''modelhub/v1/fleet.proto'', pr_package = ''modelhub.v1'', pr_imports = [''modelhub/v1/common.proto''],
     pr_goPackage = ''github.com/modelhub/agent/gen/modelhub/v1;modelhubv1'',
     pr_messages =
      [(''ListNodesRequest'',
        []),
       (''ListNodesResponse'',
        [Field (ProtoField Repeated ''NodeView'' ''nodes'' 1)]),
       (''GetNodeRequest'',
        [Field (ProtoField Singular ''string'' ''node_id'' 1)]),
       (''GetNodeResponse'',
        [Field (ProtoField Singular ''NodeView'' ''node'' 1)]),
       (''CreatePairingCodeRequest'',
        [Field (ProtoField Singular ''string'' ''node_name'' 1)]),
       (''CreatePairingCodeResponse'',
        [Field (ProtoField Singular ''string'' ''code'' 1),
         Field (ProtoField Singular ''int64'' ''expires_at_unix_ms'' 2)]),
       (''NodeView'',
        [Field (ProtoField Singular ''string'' ''id'' 1),
         Field (ProtoField Singular ''string'' ''name'' 2),
         Field (ProtoField Singular ''string'' ''status'' 3),
         Field (ProtoField Singular ''HostInfo'' ''host'' 4),
         Field (ProtoField Singular ''int64'' ''last_seen_unix_ms'' 5),
         Field (ProtoField Repeated ''DeviceView'' ''devices'' 6)]),
       (''DeviceView'',
        [Field (ProtoField Singular ''string'' ''id'' 1),
         Field (ProtoField Singular ''string'' ''local_id'' 2),
         Field (ProtoField Singular ''DeviceKind'' ''kind'' 3),
         Field (ProtoField Singular ''string'' ''name'' 4),
         Field (ProtoField Singular ''uint64'' ''total_bytes'' 5),
         Field (ProtoField Singular ''uint64'' ''managed_bytes'' 6),
         Field (ProtoField Singular ''uint64'' ''foreign_bytes'' 7),
         Field (ProtoField Singular ''uint64'' ''headroom_bytes'' 8),
         Field (ProtoField Singular ''uint64'' ''available_bytes'' 9),
         Field (ProtoField Singular ''double'' ''utilization'' 10),
         Field (ProtoField Singular ''MemoryPressure'' ''pressure'' 11),
         Field (ProtoField Singular ''bool'' ''schedulable'' 12)])],
     pr_enums = [],
     pr_services = [(''FleetService'',
        [Rpc ''ListNodes'' False ''ListNodesRequest'' False ''ListNodesResponse'',
         Rpc ''GetNode'' False ''GetNodeRequest'' False ''GetNodeResponse'',
         Rpc ''CreatePairingCode'' False ''CreatePairingCodeRequest'' False ''CreatePairingCodeResponse''])]\<rparr>"

section \<open>The constructs of a generated file\<close>

text \<open>\<open>fileDesc(text, imports)\<close>; \<open>messageDesc\<close>, \<open>enumDesc\<close> and \<open>serviceDesc\<close> with an index into the file.\<close>

datatype gen_file = fileDesc (file_text: string) (file_imports: "gen_file list")

datatype gen_desc = messageDesc gen_file nat | enumDesc gen_file nat | serviceDesc gen_file nat

text \<open>A property \<open>name: T\<close>, \<open>name?: T | undefined\<close> or \<open>name: T[]\<close>, after the comment that says from which
  field it is generated; in a \<open>oneof\<close> a case with its value.\<close>

datatype ts_type = Plain string | Optional string | ArrayOf string

datatype ts_field = TsField string string ts_type

record ts_message =
  tm_typeName :: string
  tm_fields :: "ts_field list"
  tm_oneofs :: "(string \<times> ts_field list) list"

type_synonym ts_enum = "string \<times> (string \<times> enum) list"

section \<open>\<open>common_pb.ts\<close>\<close>

definition file_modelhub_v1_common :: gen_file where
  "file_modelhub_v1_common = fileDesc (
     ''Chhtb2RlbGh1Yi92MS9jb21tb24ucHJvdG8SC21vZGVsaHViLnYxIpYBCghIb3N0SW5mbxIQCghob3N0bmFtZRgBIAEoCRIQCghw'' @
     ''bGF0Zm9ybRgCIAEoCRIMCgRhcmNoGAMgASgJEhIKCm9zX3ZlcnNpb24YBCABKAkSFQoNYWdlbnRfdmVyc2lvbhgFIAEoCRIaChJ0'' @
     ''b3RhbF9tZW1vcnlfYnl0ZXMYBiABKAQSEQoJY3B1X2NvcmVzGAcgASgNIsIBCgZEZXZpY2USEAoIbG9jYWxfaWQYASABKAkSJQoE'' @
     ''a2luZBgCIAEoDjIXLm1vZGVsaHViLnYxLkRldmljZUtpbmQSDQoFaW5kZXgYAyABKA0SDAoEbmFtZRgEIAEoCRITCgt0b3RhbF9i'' @
     ''eXRlcxgFIAEoBBIWCg5kcml2ZXJfdmVyc2lvbhgGIAEoCRIaChJjb21wdXRlX2NhcGFiaWxpdHkYByABKAkSGQoRd2lyZWRfbGlt'' @
     ''aXRfYnl0ZXMYCCABKAQi1wEKDERldmljZVNhbXBsZRIQCghsb2NhbF9pZBgBIAEoCRISCgp1c2VkX2J5dGVzGAIgASgEEhUKDW1h'' @
     ''bmFnZWRfYnl0ZXMYAyABKAQSEwoLdXRpbGl6YXRpb24YBCABKAESFQoNdGVtcGVyYXR1cmVfYxgFIAEoARITCgtwb3dlcl93YXR0'' @
     ''cxgGIAEoARItCghwcmVzc3VyZRgHIAEoDjIbLm1vZGVsaHViLnYxLk1lbW9yeVByZXNzdXJlEhoKEnNhbXBsZWRfYXRfdW5peF9t'' @
     ''cxgIIAEoAyprCgpEZXZpY2VLaW5kEhsKF0RFVklDRV9LSU5EX1VOU1BFQ0lGSUVEEAASEwoPREVWSUNFX0tJTkRfQ1BVEAESFAoQ'' @
     ''REVWSUNFX0tJTkRfQ1VEQRACEhUKEURFVklDRV9LSU5EX01FVEFMEAMqhQEKDk1lbW9yeVByZXNzdXJlEh8KG01FTU9SWV9QUkVT'' @
     ''U1VSRV9VTlNQRUNJRklFRBAAEhoKFk1FTU9SWV9QUkVTU1VSRV9OT1JNQUwQARIYChRNRU1PUllfUFJFU1NVUkVfV0FSThACEhwK'' @
     ''GE1FTU9SWV9QUkVTU1VSRV9DUklUSUNBTBADQjZaNGdpdGh1Yi5jb20vbW9kZWxodWIvYWdlbnQvZ2VuL21vZGVsaHViL3YxO21v'' @
     ''ZGVsaHVidjFiBnByb3RvMw'')
     []"

definition HostInfo_type :: ts_message where
  "HostInfo_type = \<lparr>tm_typeName = ''modelhub.v1.HostInfo'', tm_fields =
      [TsField ''string hostname = 1'' ''hostname'' (Plain ''string''),
       TsField ''string platform = 2'' ''platform'' (Plain ''string''),
       TsField ''string arch = 3'' ''arch'' (Plain ''string''),
       TsField ''string os_version = 4'' ''osVersion'' (Plain ''string''),
       TsField ''string agent_version = 5'' ''agentVersion'' (Plain ''string''),
       TsField ''uint64 total_memory_bytes = 6'' ''totalMemoryBytes'' (Plain ''bigint''),
       TsField ''uint32 cpu_cores = 7'' ''cpuCores'' (Plain ''number'')],
     tm_oneofs = []\<rparr>"

definition HostInfoSchema :: gen_desc where "HostInfoSchema = messageDesc file_modelhub_v1_common 0"

definition Device_type :: ts_message where
  "Device_type = \<lparr>tm_typeName = ''modelhub.v1.Device'', tm_fields =
      [TsField ''string local_id = 1'' ''localId'' (Plain ''string''),
       TsField ''modelhub.v1.DeviceKind kind = 2'' ''kind'' (Plain ''DeviceKind''),
       TsField ''uint32 index = 3'' ''index'' (Plain ''number''),
       TsField ''string name = 4'' ''name'' (Plain ''string''),
       TsField ''uint64 total_bytes = 5'' ''totalBytes'' (Plain ''bigint''),
       TsField ''string driver_version = 6'' ''driverVersion'' (Plain ''string''),
       TsField ''string compute_capability = 7'' ''computeCapability'' (Plain ''string''),
       TsField ''uint64 wired_limit_bytes = 8'' ''wiredLimitBytes'' (Plain ''bigint'')],
     tm_oneofs = []\<rparr>"

definition DeviceSchema :: gen_desc where "DeviceSchema = messageDesc file_modelhub_v1_common 1"

definition DeviceSample_type :: ts_message where
  "DeviceSample_type = \<lparr>tm_typeName = ''modelhub.v1.DeviceSample'', tm_fields =
      [TsField ''string local_id = 1'' ''localId'' (Plain ''string''),
       TsField ''uint64 used_bytes = 2'' ''usedBytes'' (Plain ''bigint''),
       TsField ''uint64 managed_bytes = 3'' ''managedBytes'' (Plain ''bigint''),
       TsField ''double utilization = 4'' ''utilization'' (Plain ''number''),
       TsField ''double temperature_c = 5'' ''temperatureC'' (Plain ''number''),
       TsField ''double power_watts = 6'' ''powerWatts'' (Plain ''number''),
       TsField ''modelhub.v1.MemoryPressure pressure = 7'' ''pressure'' (Plain ''MemoryPressure''),
       TsField ''int64 sampled_at_unix_ms = 8'' ''sampledAtUnixMs'' (Plain ''bigint'')],
     tm_oneofs = []\<rparr>"

definition DeviceSampleSchema :: gen_desc where "DeviceSampleSchema = messageDesc file_modelhub_v1_common 2"

definition DeviceKind_enum :: ts_enum where
  "DeviceKind_enum = (''DeviceKind'',
     [(''UNSPECIFIED'', DEVICE_KIND_UNSPECIFIED),
      (''CPU'', DEVICE_KIND_CPU),
      (''CUDA'', DEVICE_KIND_CUDA),
      (''METAL'', DEVICE_KIND_METAL)])"

definition DeviceKindSchema :: gen_desc where "DeviceKindSchema = enumDesc file_modelhub_v1_common 0"

definition MemoryPressure_enum :: ts_enum where
  "MemoryPressure_enum = (''MemoryPressure'',
     [(''UNSPECIFIED'', MEMORY_PRESSURE_UNSPECIFIED),
      (''NORMAL'', MEMORY_PRESSURE_NORMAL),
      (''WARN'', MEMORY_PRESSURE_WARN),
      (''CRITICAL'', MEMORY_PRESSURE_CRITICAL)])"

definition MemoryPressureSchema :: gen_desc where "MemoryPressureSchema = enumDesc file_modelhub_v1_common 1"

section \<open>\<open>node_pb.ts\<close>\<close>

definition file_modelhub_v1_node :: gen_file where
  "file_modelhub_v1_node = fileDesc (
     ''ChZtb2RlbGh1Yi92MS9ub2RlLnByb3RvEgttb2RlbGh1Yi52MSJxCg1FbnJvbGxSZXF1ZXN0EhQKDHBhaXJpbmdfY29kZRgBIAEo'' @
     ''CRISCgpwdWJsaWNfa2V5GAIgASgMEhEKCW5vZGVfbmFtZRgDIAEoCRIjCgRob3N0GAQgASgLMhUubW9kZWxodWIudjEuSG9zdElu'' @
     ''Zm8iQwoORW5yb2xsUmVzcG9uc2USDwoHbm9kZV9pZBgBIAEoCRIOCgZvcmdfaWQYAiABKAkSEAoIb3JnX25hbWUYAyABKAkingEK'' @
     ''DEFnZW50TWVzc2FnZRIjCgVoZWxsbxgBIAEoCzISLm1vZGVsaHViLnYxLkhlbGxvSAASMQoJaW52ZW50b3J5GAIgASgLMhwubW9k'' @
     ''ZWxodWIudjEuSW52ZW50b3J5UmVwb3J0SAASKwoHc2FtcGxlcxgDIAEoCzIYLm1vZGVsaHViLnYxLlNhbXBsZUJhdGNoSABCCQoH'' @
     ''cGF5bG9hZCJDCgVIZWxsbxIVCg1hZ2VudF92ZXJzaW9uGAEgASgJEiMKBGhvc3QYAiABKAsyFS5tb2RlbGh1Yi52MS5Ib3N0SW5m'' @
     ''byI3Cg9JbnZlbnRvcnlSZXBvcnQSJAoHZGV2aWNlcxgBIAMoCzITLm1vZGVsaHViLnYxLkRldmljZSI5CgtTYW1wbGVCYXRjaBIq'' @
     ''CgdzYW1wbGVzGAEgAygLMhkubW9kZWxodWIudjEuRGV2aWNlU2FtcGxlInIKDVNlcnZlck1lc3NhZ2USKgoJaGVsbG9fYWNrGAEg'' @
     ''ASgLMhUubW9kZWxodWIudjEuSGVsbG9BY2tIABIqCgZjb25maWcYAiABKAsyGC5tb2RlbGh1Yi52MS5BZ2VudENvbmZpZ0gAQgkK'' @
     ''B3BheWxvYWQiNwoISGVsbG9BY2sSDwoHbm9kZV9pZBgBIAEoCRIaChJzYW1wbGVfaW50ZXJ2YWxfbXMYAiABKA0iKQoLQWdlbnRD'' @
     ''b25maWcSGgoSc2FtcGxlX2ludGVydmFsX21zGAEgASgNMpYBCgtOb2RlU2VydmljZRJBCgZFbnJvbGwSGi5tb2RlbGh1Yi52MS5F'' @
     ''bnJvbGxSZXF1ZXN0GhsubW9kZWxodWIudjEuRW5yb2xsUmVzcG9uc2USRAoHQ29ubmVjdBIZLm1vZGVsaHViLnYxLkFnZW50TWVz'' @
     ''c2FnZRoaLm1vZGVsaHViLnYxLlNlcnZlck1lc3NhZ2UoATABQjZaNGdpdGh1Yi5jb20vbW9kZWxodWIvYWdlbnQvZ2VuL21vZGVs'' @
     ''aHViL3YxO21vZGVsaHVidjFiBnByb3RvMw'')
     [file_modelhub_v1_common]"

definition EnrollRequest_type :: ts_message where
  "EnrollRequest_type = \<lparr>tm_typeName = ''modelhub.v1.EnrollRequest'', tm_fields =
      [TsField ''string pairing_code = 1'' ''pairingCode'' (Plain ''string''),
       TsField ''bytes public_key = 2'' ''publicKey'' (Plain ''Uint8Array''),
       TsField ''string node_name = 3'' ''nodeName'' (Plain ''string''),
       TsField ''modelhub.v1.HostInfo host = 4'' ''host'' (Optional ''HostInfo'')],
     tm_oneofs = []\<rparr>"

definition EnrollRequestSchema :: gen_desc where "EnrollRequestSchema = messageDesc file_modelhub_v1_node 0"

definition EnrollResponse_type :: ts_message where
  "EnrollResponse_type = \<lparr>tm_typeName = ''modelhub.v1.EnrollResponse'', tm_fields =
      [TsField ''string node_id = 1'' ''nodeId'' (Plain ''string''),
       TsField ''string org_id = 2'' ''orgId'' (Plain ''string''),
       TsField ''string org_name = 3'' ''orgName'' (Plain ''string'')],
     tm_oneofs = []\<rparr>"

definition EnrollResponseSchema :: gen_desc where "EnrollResponseSchema = messageDesc file_modelhub_v1_node 1"

definition AgentMessage_type :: ts_message where
  "AgentMessage_type = \<lparr>tm_typeName = ''modelhub.v1.AgentMessage'', tm_fields =
      [],
     tm_oneofs = [(''payload'',
       [TsField ''modelhub.v1.Hello hello = 1'' ''hello'' (Plain ''Hello''),
        TsField ''modelhub.v1.InventoryReport inventory = 2'' ''inventory'' (Plain ''InventoryReport''),
        TsField ''modelhub.v1.SampleBatch samples = 3'' ''samples'' (Plain ''SampleBatch'')])]\<rparr>"

definition AgentMessageSchema :: gen_desc where "AgentMessageSchema = messageDesc file_modelhub_v1_node 2"

definition Hello_type :: ts_message where
  "Hello_type = \<lparr>tm_typeName = ''modelhub.v1.Hello'', tm_fields =
      [TsField ''string agent_version = 1'' ''agentVersion'' (Plain ''string''),
       TsField ''modelhub.v1.HostInfo host = 2'' ''host'' (Optional ''HostInfo'')],
     tm_oneofs = []\<rparr>"

definition HelloSchema :: gen_desc where "HelloSchema = messageDesc file_modelhub_v1_node 3"

definition InventoryReport_type :: ts_message where
  "InventoryReport_type = \<lparr>tm_typeName = ''modelhub.v1.InventoryReport'', tm_fields =
      [TsField ''repeated modelhub.v1.Device devices = 1'' ''devices'' (ArrayOf ''Device'')],
     tm_oneofs = []\<rparr>"

definition InventoryReportSchema :: gen_desc where "InventoryReportSchema = messageDesc file_modelhub_v1_node 4"

definition SampleBatch_type :: ts_message where
  "SampleBatch_type = \<lparr>tm_typeName = ''modelhub.v1.SampleBatch'', tm_fields =
      [TsField ''repeated modelhub.v1.DeviceSample samples = 1'' ''samples'' (ArrayOf ''DeviceSample'')],
     tm_oneofs = []\<rparr>"

definition SampleBatchSchema :: gen_desc where "SampleBatchSchema = messageDesc file_modelhub_v1_node 5"

definition ServerMessage_type :: ts_message where
  "ServerMessage_type = \<lparr>tm_typeName = ''modelhub.v1.ServerMessage'', tm_fields =
      [],
     tm_oneofs = [(''payload'',
       [TsField ''modelhub.v1.HelloAck hello_ack = 1'' ''helloAck'' (Plain ''HelloAck''),
        TsField ''modelhub.v1.AgentConfig config = 2'' ''config'' (Plain ''AgentConfig'')])]\<rparr>"

definition ServerMessageSchema :: gen_desc where "ServerMessageSchema = messageDesc file_modelhub_v1_node 6"

definition HelloAck_type :: ts_message where
  "HelloAck_type = \<lparr>tm_typeName = ''modelhub.v1.HelloAck'', tm_fields =
      [TsField ''string node_id = 1'' ''nodeId'' (Plain ''string''),
       TsField ''uint32 sample_interval_ms = 2'' ''sampleIntervalMs'' (Plain ''number'')],
     tm_oneofs = []\<rparr>"

definition HelloAckSchema :: gen_desc where "HelloAckSchema = messageDesc file_modelhub_v1_node 7"

definition AgentConfig_type :: ts_message where
  "AgentConfig_type = \<lparr>tm_typeName = ''modelhub.v1.AgentConfig'', tm_fields =
      [TsField ''uint32 sample_interval_ms = 1'' ''sampleIntervalMs'' (Plain ''number'')],
     tm_oneofs = []\<rparr>"

definition AgentConfigSchema :: gen_desc where "AgentConfigSchema = messageDesc file_modelhub_v1_node 8"

text \<open>The methods of \<open>NodeService\<close> are in \<open>Routes\<close>.\<close>

definition NodeService_desc :: gen_desc where "NodeService_desc = serviceDesc file_modelhub_v1_node 0"

section \<open>\<open>fleet_pb.ts\<close>\<close>

definition file_modelhub_v1_fleet :: gen_file where
  "file_modelhub_v1_fleet = fileDesc (
     ''Chdtb2RlbGh1Yi92MS9mbGVldC5wcm90bxILbW9kZWxodWIudjEiEgoQTGlzdE5vZGVzUmVxdWVzdCI5ChFMaXN0Tm9kZXNSZXNw'' @
     ''b25zZRIkCgVub2RlcxgBIAMoCzIVLm1vZGVsaHViLnYxLk5vZGVWaWV3IiEKDkdldE5vZGVSZXF1ZXN0Eg8KB25vZGVfaWQYASAB'' @
     ''KAkiNgoPR2V0Tm9kZVJlc3BvbnNlEiMKBG5vZGUYASABKAsyFS5tb2RlbGh1Yi52MS5Ob2RlVmlldyItChhDcmVhdGVQYWlyaW5n'' @
     ''Q29kZVJlcXVlc3QSEQoJbm9kZV9uYW1lGAEgASgJIkUKGUNyZWF0ZVBhaXJpbmdDb2RlUmVzcG9uc2USDAoEY29kZRgBIAEoCRIa'' @
     ''ChJleHBpcmVzX2F0X3VuaXhfbXMYAiABKAMingEKCE5vZGVWaWV3EgoKAmlkGAEgASgJEgwKBG5hbWUYAiABKAkSDgoGc3RhdHVz'' @
     ''GAMgASgJEiMKBGhvc3QYBCABKAsyFS5tb2RlbGh1Yi52MS5Ib3N0SW5mbxIZChFsYXN0X3NlZW5fdW5peF9tcxgFIAEoAxIoCgdk'' @
     ''ZXZpY2VzGAYgAygLMhcubW9kZWxodWIudjEuRGV2aWNlVmlldyKsAgoKRGV2aWNlVmlldxIKCgJpZBgBIAEoCRIQCghsb2NhbF9p'' @
     ''ZBgCIAEoCRIlCgRraW5kGAMgASgOMhcubW9kZWxodWIudjEuRGV2aWNlS2luZBIMCgRuYW1lGAQgASgJEhMKC3RvdGFsX2J5dGVz'' @
     ''GAUgASgEEhUKDW1hbmFnZWRfYnl0ZXMYBiABKAQSFQoNZm9yZWlnbl9ieXRlcxgHIAEoBBIWCg5oZWFkcm9vbV9ieXRlcxgIIAEo'' @
     ''BBIXCg9hdmFpbGFibGVfYnl0ZXMYCSABKAQSEwoLdXRpbGl6YXRpb24YCiABKAESLQoIcHJlc3N1cmUYCyABKA4yGy5tb2RlbGh1'' @
     ''Yi52MS5NZW1vcnlQcmVzc3VyZRITCgtzY2hlZHVsYWJsZRgMIAEoCDKEAgoMRmxlZXRTZXJ2aWNlEkoKCUxpc3ROb2RlcxIdLm1v'' @
     ''ZGVsaHViLnYxLkxpc3ROb2Rlc1JlcXVlc3QaHi5tb2RlbGh1Yi52MS5MaXN0Tm9kZXNSZXNwb25zZRJECgdHZXROb2RlEhsubW9k'' @
     ''ZWxodWIudjEuR2V0Tm9kZVJlcXVlc3QaHC5tb2RlbGh1Yi52MS5HZXROb2RlUmVzcG9uc2USYgoRQ3JlYXRlUGFpcmluZ0NvZGUS'' @
     ''JS5tb2RlbGh1Yi52MS5DcmVhdGVQYWlyaW5nQ29kZVJlcXVlc3QaJi5tb2RlbGh1Yi52MS5DcmVhdGVQYWlyaW5nQ29kZVJlc3Bv'' @
     ''bnNlQjZaNGdpdGh1Yi5jb20vbW9kZWxodWIvYWdlbnQvZ2VuL21vZGVsaHViL3YxO21vZGVsaHVidjFiBnByb3RvMw'')
     [file_modelhub_v1_common]"

definition ListNodesRequest_type :: ts_message where
  "ListNodesRequest_type = \<lparr>tm_typeName = ''modelhub.v1.ListNodesRequest'', tm_fields =
      [],
     tm_oneofs = []\<rparr>"

definition ListNodesRequestSchema :: gen_desc where "ListNodesRequestSchema = messageDesc file_modelhub_v1_fleet 0"

definition ListNodesResponse_type :: ts_message where
  "ListNodesResponse_type = \<lparr>tm_typeName = ''modelhub.v1.ListNodesResponse'', tm_fields =
      [TsField ''repeated modelhub.v1.NodeView nodes = 1'' ''nodes'' (ArrayOf ''NodeView'')],
     tm_oneofs = []\<rparr>"

definition ListNodesResponseSchema :: gen_desc where "ListNodesResponseSchema = messageDesc file_modelhub_v1_fleet 1"

definition GetNodeRequest_type :: ts_message where
  "GetNodeRequest_type = \<lparr>tm_typeName = ''modelhub.v1.GetNodeRequest'', tm_fields =
      [TsField ''string node_id = 1'' ''nodeId'' (Plain ''string'')],
     tm_oneofs = []\<rparr>"

definition GetNodeRequestSchema :: gen_desc where "GetNodeRequestSchema = messageDesc file_modelhub_v1_fleet 2"

definition GetNodeResponse_type :: ts_message where
  "GetNodeResponse_type = \<lparr>tm_typeName = ''modelhub.v1.GetNodeResponse'', tm_fields =
      [TsField ''modelhub.v1.NodeView node = 1'' ''node'' (Optional ''NodeView'')],
     tm_oneofs = []\<rparr>"

definition GetNodeResponseSchema :: gen_desc where "GetNodeResponseSchema = messageDesc file_modelhub_v1_fleet 3"

definition CreatePairingCodeRequest_type :: ts_message where
  "CreatePairingCodeRequest_type = \<lparr>tm_typeName = ''modelhub.v1.CreatePairingCodeRequest'', tm_fields =
      [TsField ''string node_name = 1'' ''nodeName'' (Plain ''string'')],
     tm_oneofs = []\<rparr>"

definition CreatePairingCodeRequestSchema :: gen_desc where "CreatePairingCodeRequestSchema = messageDesc file_modelhub_v1_fleet 4"

definition CreatePairingCodeResponse_type :: ts_message where
  "CreatePairingCodeResponse_type = \<lparr>tm_typeName = ''modelhub.v1.CreatePairingCodeResponse'', tm_fields =
      [TsField ''string code = 1'' ''code'' (Plain ''string''),
       TsField ''int64 expires_at_unix_ms = 2'' ''expiresAtUnixMs'' (Plain ''bigint'')],
     tm_oneofs = []\<rparr>"

definition CreatePairingCodeResponseSchema :: gen_desc where "CreatePairingCodeResponseSchema = messageDesc file_modelhub_v1_fleet 5"

definition NodeView_type :: ts_message where
  "NodeView_type = \<lparr>tm_typeName = ''modelhub.v1.NodeView'', tm_fields =
      [TsField ''string id = 1'' ''id'' (Plain ''string''),
       TsField ''string name = 2'' ''name'' (Plain ''string''),
       TsField ''string status = 3'' ''status'' (Plain ''string''),
       TsField ''modelhub.v1.HostInfo host = 4'' ''host'' (Optional ''HostInfo''),
       TsField ''int64 last_seen_unix_ms = 5'' ''lastSeenUnixMs'' (Plain ''bigint''),
       TsField ''repeated modelhub.v1.DeviceView devices = 6'' ''devices'' (ArrayOf ''DeviceView'')],
     tm_oneofs = []\<rparr>"

definition NodeViewSchema :: gen_desc where "NodeViewSchema = messageDesc file_modelhub_v1_fleet 6"

definition DeviceView_type :: ts_message where
  "DeviceView_type = \<lparr>tm_typeName = ''modelhub.v1.DeviceView'', tm_fields =
      [TsField ''string id = 1'' ''id'' (Plain ''string''),
       TsField ''string local_id = 2'' ''localId'' (Plain ''string''),
       TsField ''modelhub.v1.DeviceKind kind = 3'' ''kind'' (Plain ''DeviceKind''),
       TsField ''string name = 4'' ''name'' (Plain ''string''),
       TsField ''uint64 total_bytes = 5'' ''totalBytes'' (Plain ''bigint''),
       TsField ''uint64 managed_bytes = 6'' ''managedBytes'' (Plain ''bigint''),
       TsField ''uint64 foreign_bytes = 7'' ''foreignBytes'' (Plain ''bigint''),
       TsField ''uint64 headroom_bytes = 8'' ''headroomBytes'' (Plain ''bigint''),
       TsField ''uint64 available_bytes = 9'' ''availableBytes'' (Plain ''bigint''),
       TsField ''double utilization = 10'' ''utilization'' (Plain ''number''),
       TsField ''modelhub.v1.MemoryPressure pressure = 11'' ''pressure'' (Plain ''MemoryPressure''),
       TsField ''bool schedulable = 12'' ''schedulable'' (Plain ''boolean'')],
     tm_oneofs = []\<rparr>"

definition DeviceViewSchema :: gen_desc where "DeviceViewSchema = messageDesc file_modelhub_v1_fleet 7"

text \<open>The methods of \<open>FleetService\<close> are in \<open>Routes\<close>.\<close>

definition FleetService_desc :: gen_desc where "FleetService_desc = serviceDesc file_modelhub_v1_fleet 0"

section \<open>The types a contract stands for\<close>

text \<open>Names in TypeScript are in camel case, methods start with a small letter, members of an enumeration
  drop its name.\<close>

definition upper_char :: "char \<Rightarrow> char" where
  "upper_char c = (let n = of_char c :: nat in if 97 \<le> n \<and> n \<le> 122 then char_of (n - 32) else c)"

definition lower_char :: "char \<Rightarrow> char" where
  "lower_char c = (let n = of_char c :: nat in if 65 \<le> n \<and> n \<le> 90 then char_of (n + 32) else c)"

fun camel :: "bool \<Rightarrow> string \<Rightarrow> string" where
  "camel up [] = []"
| "camel up (c # cs) =
     (if c = CHR ''_'' then camel True cs else (if up then upper_char c else c) # camel False cs)"

fun lower_first :: "string \<Rightarrow> string" where
  "lower_first [] = []"
| "lower_first (c # cs) = lower_char c # cs"

text \<open>\<open>DEVICE_KIND_\<close> for \<open>DeviceKind\<close>.\<close>

fun constant_prefix :: "string \<Rightarrow> string" where
  "constant_prefix [] = ''_''"
| "constant_prefix (c # cs) =
     (if lower_char c = c then [upper_char c] else [CHR ''_'', c]) @ constant_prefix cs"

text \<open>The TypeScript type of a scalar.\<close>

definition ts_scalar :: "string \<Rightarrow> string option" where
  "ts_scalar = map_of [(''double'', ''number''), (''int64'', ''bigint''), (''uint64'', ''bigint''), (''bool'', ''boolean''),
     (''string'', ''string''), (''bytes'', ''Uint8Array''), (''uint32'', ''number'')]"

fun ts_field_of :: "string \<Rightarrow> string list \<Rightarrow> bool \<Rightarrow> proto_field \<Rightarrow> ts_field" where
  "ts_field_of package enums in_oneof (ProtoField l ty name k) =
     TsField ((case l of Repeated \<Rightarrow> ''repeated '' | Singular \<Rightarrow> [])
         @ (case ts_scalar ty of Some _ \<Rightarrow> ty | None \<Rightarrow> dotted package ty) @ '' '' @ name @ '' = '' @ show_nat k)
       (camel False name)
       (case (l, ts_scalar ty) of
          (Repeated, Some t) \<Rightarrow> ArrayOf t
        | (Repeated, None) \<Rightarrow> ArrayOf ty
        | (Singular, Some t) \<Rightarrow> Plain t
        | (Singular, None) \<Rightarrow> if in_oneof \<or> ty \<in> set enums then Plain ty else Optional ty)"

fun ts_fields :: "string \<Rightarrow> string list \<Rightarrow> member list \<Rightarrow> ts_field list" where
  "ts_fields package enums [] = []"
| "ts_fields package enums (Field f # ms) = ts_field_of package enums False f # ts_fields package enums ms"
| "ts_fields package enums (Oneof name fs # ms) = ts_fields package enums ms"

fun ts_oneofs :: "string \<Rightarrow> string list \<Rightarrow> member list \<Rightarrow> (string \<times> ts_field list) list" where
  "ts_oneofs package enums [] = []"
| "ts_oneofs package enums (Field f # ms) = ts_oneofs package enums ms"
| "ts_oneofs package enums (Oneof name fs # ms) =
     (camel False name, map (ts_field_of package enums True) fs) # ts_oneofs package enums ms"

definition ts_message_of :: "string \<Rightarrow> string list \<Rightarrow> string \<times> member list \<Rightarrow> ts_message" where
  "ts_message_of package enums m = (case m of (name, ms) \<Rightarrow>
     \<lparr>tm_typeName = dotted package name, tm_fields = ts_fields package enums ms,
      tm_oneofs = ts_oneofs package enums ms\<rparr>)"

definition ts_enum_of :: "string \<times> (string \<times> nat) list \<Rightarrow> ts_enum" where
  "ts_enum_of e = (case e of (name, vs) \<Rightarrow>
     (name, map (\<lambda>(v, n). (drop (length (constant_prefix name) - 1) v, int n)) vs))"

fun method_of :: "proto_method \<Rightarrow> rpc_method" where
  "method_of (Rpc name cs input ss output) =
     \<lparr>rm_localName = lower_first name, rm_name = name, rm_kind = (if cs \<and> ss then BidiStreaming else Unary),
      rm_input = input, rm_output = output\<rparr>"

definition service_of :: "string \<Rightarrow> string \<times> proto_method list \<Rightarrow> service" where
  "service_of package s = (case s of (name, ms) \<Rightarrow> \<lparr>sv_typeName = dotted package name, sv_methods = map method_of ms\<rparr>)"

section \<open>Contract, descriptors and types agree\<close>

text \<open>A generated file belongs to a contract: its text is the contract's descriptor, its imports are the
  files of the contract's imports, and its exports are the messages, enumerations and services of the
  contract, all of them and in their order, each under its index and with its type.\<close>

definition generated ::
  "string list \<Rightarrow> proto_file \<Rightarrow> gen_file \<Rightarrow> (proto_file \<times> gen_file) list
   \<Rightarrow> (gen_desc \<times> ts_message) list \<Rightarrow> (gen_desc \<times> ts_enum) list \<Rightarrow> (gen_desc \<times> service) list \<Rightarrow> bool" where
  "generated enums p f imported messages enumerations services \<longleftrightarrow>
     read_fields (base64_decode (file_text f)) = Some (file_fields enums p)
     \<and> pr_imports p = map (pr_path \<circ> fst) imported \<and> file_imports f = map snd imported
     \<and> messages = map (\<lambda>(i, m). (messageDesc f i, ts_message_of (pr_package p) enums m)) (enumerate 0 (pr_messages p))
     \<and> enumerations = map (\<lambda>(i, e). (enumDesc f i, ts_enum_of e)) (enumerate 0 (pr_enums p))
     \<and> services = map (\<lambda>(i, s). (serviceDesc f i, service_of (pr_package p) s)) (enumerate 0 (pr_services p))"

definition contract_enums :: "string list" where
  "contract_enums = map fst (pr_enums common_proto @ pr_enums node_proto @ pr_enums fleet_proto)"

lemma contract_enums_eq: "contract_enums = [''DeviceKind'', ''MemoryPressure'']"
  by (simp add: contract_enums_def common_proto_def node_proto_def fleet_proto_def)

lemmas encode_defs = message_bytes_def file_fields_def text_bytes_def message_fields_def enum_fields_def
  service_fields_def scalar_number_def dotted_def contract_enums_eq write_varint.simps
  base64_decode_def base64_value_def

lemma common_text: "base64_decode (file_text file_modelhub_v1_common) = message_bytes (file_fields contract_enums common_proto)"
  by (simp add: file_modelhub_v1_common_def common_proto_def encode_defs)

lemma node_text: "base64_decode (file_text file_modelhub_v1_node) = message_bytes (file_fields contract_enums node_proto)"
  by (simp add: file_modelhub_v1_node_def node_proto_def encode_defs)

lemma fleet_text: "base64_decode (file_text file_modelhub_v1_fleet) = message_bytes (file_fields contract_enums fleet_proto)"
  by (simp add: file_modelhub_v1_fleet_def fleet_proto_def encode_defs)

text \<open>A computed character against a given one.\<close>

lemma char_of_eq: "char_of n = c \<longleftrightarrow> n mod 256 = of_char c" "c = char_of n \<longleftrightarrow> n mod 256 = of_char c" for n :: nat
  using char_of_eq_iff [of n c] by (auto simp: take_bit_eq_mod)

lemmas type_defs = char_of_eq ts_message_of_def ts_enum_of_def ts_scalar_def service_of_def dotted_def upper_char_def lower_char_def
  contract_enums_eq show_nat.simps enum_defs

lemma common_generated:
  "generated contract_enums common_proto file_modelhub_v1_common []
      [(HostInfoSchema, HostInfo_type),
       (DeviceSchema, Device_type),
       (DeviceSampleSchema, DeviceSample_type)]
      [(DeviceKindSchema, DeviceKind_enum),
       (MemoryPressureSchema, MemoryPressure_enum)]
      []"
proof -
  have "read_fields (base64_decode (file_text file_modelhub_v1_common)) = Some (file_fields contract_enums common_proto)"
    by (simp only: common_text read_message_bytes)
  moreover have "pr_imports common_proto = map (pr_path \<circ> fst) []"
    "file_imports file_modelhub_v1_common = map snd []"
    by (simp_all add: common_proto_def file_modelhub_v1_common_def)
  ultimately show ?thesis
    by (simp add: generated_def common_proto_def type_defs HostInfoSchema_def DeviceSchema_def
        DeviceSampleSchema_def DeviceKindSchema_def MemoryPressureSchema_def HostInfo_type_def Device_type_def
        DeviceSample_type_def DeviceKind_enum_def MemoryPressure_enum_def)
qed

lemma node_generated:
  "generated contract_enums node_proto file_modelhub_v1_node [(common_proto, file_modelhub_v1_common)]
      [(EnrollRequestSchema, EnrollRequest_type),
       (EnrollResponseSchema, EnrollResponse_type),
       (AgentMessageSchema, AgentMessage_type),
       (HelloSchema, Hello_type),
       (InventoryReportSchema, InventoryReport_type),
       (SampleBatchSchema, SampleBatch_type),
       (ServerMessageSchema, ServerMessage_type),
       (HelloAckSchema, HelloAck_type),
       (AgentConfigSchema, AgentConfig_type)]
      []
      [(NodeService_desc, NodeService)]"
proof -
  have "read_fields (base64_decode (file_text file_modelhub_v1_node)) = Some (file_fields contract_enums node_proto)"
    by (simp only: node_text read_message_bytes)
  moreover have "pr_imports node_proto = map (pr_path \<circ> fst) [(common_proto, file_modelhub_v1_common)]"
    "file_imports file_modelhub_v1_node = map snd [(common_proto, file_modelhub_v1_common)]"
    by (simp_all add: common_proto_def node_proto_def file_modelhub_v1_node_def)
  ultimately show ?thesis
    by (simp add: generated_def node_proto_def type_defs EnrollRequestSchema_def EnrollResponseSchema_def
        AgentMessageSchema_def HelloSchema_def InventoryReportSchema_def SampleBatchSchema_def
        ServerMessageSchema_def HelloAckSchema_def AgentConfigSchema_def EnrollRequest_type_def
        EnrollResponse_type_def AgentMessage_type_def Hello_type_def InventoryReport_type_def
        SampleBatch_type_def ServerMessage_type_def HelloAck_type_def AgentConfig_type_def NodeService_desc_def
        NodeService_def)
qed

lemma fleet_generated:
  "generated contract_enums fleet_proto file_modelhub_v1_fleet [(common_proto, file_modelhub_v1_common)]
      [(ListNodesRequestSchema, ListNodesRequest_type),
       (ListNodesResponseSchema, ListNodesResponse_type),
       (GetNodeRequestSchema, GetNodeRequest_type),
       (GetNodeResponseSchema, GetNodeResponse_type),
       (CreatePairingCodeRequestSchema, CreatePairingCodeRequest_type),
       (CreatePairingCodeResponseSchema, CreatePairingCodeResponse_type),
       (NodeViewSchema, NodeView_type),
       (DeviceViewSchema, DeviceView_type)]
      []
      [(FleetService_desc, FleetService)]"
proof -
  have "read_fields (base64_decode (file_text file_modelhub_v1_fleet)) = Some (file_fields contract_enums fleet_proto)"
    by (simp only: fleet_text read_message_bytes)
  moreover have "pr_imports fleet_proto = map (pr_path \<circ> fst) [(common_proto, file_modelhub_v1_common)]"
    "file_imports file_modelhub_v1_fleet = map snd [(common_proto, file_modelhub_v1_common)]"
    by (simp_all add: common_proto_def fleet_proto_def file_modelhub_v1_fleet_def)
  ultimately show ?thesis
    by (simp add: generated_def fleet_proto_def type_defs ListNodesRequestSchema_def
        ListNodesResponseSchema_def GetNodeRequestSchema_def GetNodeResponseSchema_def
        CreatePairingCodeRequestSchema_def CreatePairingCodeResponseSchema_def NodeViewSchema_def
        DeviceViewSchema_def ListNodesRequest_type_def ListNodesResponse_type_def GetNodeRequest_type_def
        GetNodeResponse_type_def CreatePairingCodeRequest_type_def CreatePairingCodeResponse_type_def
        NodeView_type_def DeviceView_type_def FleetService_desc_def FleetService_def)
qed

text \<open>(C12) The contract and the generated code are one: reading the base64 text embedded in each generated
  file gives the descriptor of its \<open>.proto\<close> file, field by field; each \<open>...Schema\<close> points to the message or
  enumeration of its name; and each declared type has the fields of the contract under their names in
  camel case, with a \<open>bigint\<close> for 64 bits, \<open>undefined\<close> allowed for a message and the numbers that the
  comments give. The services are those that the two listeners register.\<close>

theorem descriptors_agree:
  "generated contract_enums common_proto file_modelhub_v1_common []
      [(HostInfoSchema, HostInfo_type),
       (DeviceSchema, Device_type),
       (DeviceSampleSchema, DeviceSample_type)]
      [(DeviceKindSchema, DeviceKind_enum),
       (MemoryPressureSchema, MemoryPressure_enum)]
      []
   \<and> generated contract_enums node_proto file_modelhub_v1_node [(common_proto, file_modelhub_v1_common)]
      [(EnrollRequestSchema, EnrollRequest_type),
       (EnrollResponseSchema, EnrollResponse_type),
       (AgentMessageSchema, AgentMessage_type),
       (HelloSchema, Hello_type),
       (InventoryReportSchema, InventoryReport_type),
       (SampleBatchSchema, SampleBatch_type),
       (ServerMessageSchema, ServerMessage_type),
       (HelloAckSchema, HelloAck_type),
       (AgentConfigSchema, AgentConfig_type)]
      []
      [(NodeService_desc, NodeService)]
   \<and> generated contract_enums fleet_proto file_modelhub_v1_fleet [(common_proto, file_modelhub_v1_common)]
      [(ListNodesRequestSchema, ListNodesRequest_type),
       (ListNodesResponseSchema, ListNodesResponse_type),
       (GetNodeRequestSchema, GetNodeRequest_type),
       (GetNodeResponseSchema, GetNodeResponse_type),
       (CreatePairingCodeRequestSchema, CreatePairingCodeRequest_type),
       (CreatePairingCodeResponseSchema, CreatePairingCodeResponse_type),
       (NodeViewSchema, NodeView_type),
       (DeviceViewSchema, DeviceView_type)]
      []
      [(FleetService_desc, FleetService)]"
  by (intro conjI common_generated node_generated fleet_generated)

end
