(* ===== verification/Isolation.thy ===== *)
theory Isolation
  imports Inventory
begin

text \<open>
  Inventory reports that overlap. \<open>recordInventory\<close> in \<open>domain/nodes.ts\<close> is a transaction of several
  statements: an insert-or-update for each device, then one delete. \<open>Inventory\<close> runs it as a whole;
  here any number of such transactions interleave, statement by statement, as Postgres runs them at
  its default level, \<open>READ COMMITTED\<close>: a statement sees what was committed before it began and what its
  own transaction has written; a row written by an open transaction makes other writers of that row, or
  of its unique key, wait; a delete first takes the rows it will visit and then visits each, skipping
  one that is gone meanwhile. A transaction may be rolled back at any time (an error, a deadlock, a lost
  connection). Between reports the rows of the other tables do not matter and are left out.
\<close>

section \<open>Cells and transactions\<close>

text \<open>A transaction: one call of \<open>recordInventory\<close>. Transactions are numbered.\<close>

record report =
  rp_fresh :: "nat \<Rightarrow> uuid"
  rp_created :: millis
  rp_org :: string
  rp_node :: uuid
  rp_devices :: "device list"

definition keep :: "report \<Rightarrow> string list" where
  "keep j = map (\<lambda>(d, kind). dev_localId d) (known_devices (rp_devices j))"

definition report_new :: "report \<Rightarrow> nat \<Rightarrow> device_row" where
  "report_new j m = (case known_devices (rp_devices j) ! m of (d, kind) \<Rightarrow>
     new_device (rp_fresh j m) (rp_created j) (rp_org j) (rp_node j) d kind)"

definition report_facts :: "report \<Rightarrow> nat \<Rightarrow> device_row \<Rightarrow> device_row" where
  "report_facts j m = (case known_devices (rp_devices j) ! m of (d, kind) \<Rightarrow> set_facts d kind)"

text \<open>What is stored under a key: the committed row and, while a transaction holds it, what that
  transaction has written, \<open>None\<close> being a deletion.\<close>

record cell =
  ce_row :: "device_row option"
  ce_claim :: "(nat \<times> device_row option) option"

definition seen :: "nat \<Rightarrow> cell \<Rightarrow> device_row option" where
  "seen t c = (case ce_claim c of None \<Rightarrow> ce_row c | Some (u, v) \<Rightarrow> if u = t then v else ce_row c)"

definition taken :: "nat \<Rightarrow> cell \<Rightarrow> bool" where
  "taken t c = (case ce_claim c of None \<Rightarrow> False | Some (u, v) \<Rightarrow> u \<noteq> t)"

definition upsert_cell :: "nat \<Rightarrow> device_row \<Rightarrow> (device_row \<Rightarrow> device_row) \<Rightarrow> cell \<Rightarrow> cell" where
  "upsert_cell t row g c = c\<lparr>ce_claim := Some (t, Some (case seen t c of None \<Rightarrow> row | Some r \<Rightarrow> g r))\<rparr>"

definition delete_cell :: "nat \<Rightarrow> uuid \<Rightarrow> cell \<Rightarrow> cell" where
  "delete_cell t i c = (case seen t c of
     None \<Rightarrow> c | Some r \<Rightarrow> if d_id r = i then c\<lparr>ce_claim := Some (t, None)\<rparr> else c)"

definition settle :: "nat \<Rightarrow> cell \<Rightarrow> cell" where
  "settle t c = (case ce_claim c of None \<Rightarrow> c | Some (u, v) \<Rightarrow> if u = t then \<lparr>ce_row = v, ce_claim = None\<rparr> else c)"

definition forget :: "nat \<Rightarrow> cell \<Rightarrow> cell" where
  "forget t c = (case ce_claim c of None \<Rightarrow> c | Some (u, v) \<Rightarrow> if u = t then c\<lparr>ce_claim := None\<rparr> else c)"

text \<open>In the loop before its \<open>m\<close>-th device, deleting the rows of a set, or ended.\<close>

type_synonym slot_key = "uuid \<times> string"

datatype phase = Loop nat | Pruning "(slot_key \<times> uuid) set" | Committed | RolledBack

text \<open>The log lists the committed transactions, the last one first.\<close>

record iso =
  is_cells :: "slot_key \<Rightarrow> cell"
  is_phase :: "nat \<Rightarrow> phase"
  is_log :: "nat list"

definition hits :: "nat \<Rightarrow> report \<Rightarrow> (slot_key \<Rightarrow> cell) \<Rightarrow> (slot_key \<times> uuid) set" where
  "hits t j cells = {(k, d_id r) | k r. seen t (cells k) = Some r
     \<and> d_orgId r = rp_org j \<and> d_nodeId r = rp_node j \<and> d_localId r \<notin> set (keep j)}"

inductive iso_step :: "(nat \<Rightarrow> report) \<Rightarrow> nat \<Rightarrow> iso \<Rightarrow> iso \<Rightarrow> bool" for jobs :: "nat \<Rightarrow> report" where
  iso_upsert: "is_phase y t = Loop m \<Longrightarrow> m < length (known_devices (rp_devices (jobs t))) \<Longrightarrow>
      row = report_new (jobs t) m \<Longrightarrow> \<not> taken t (is_cells y (slot row)) \<Longrightarrow>
      iso_step jobs t y (y\<lparr>is_cells := (is_cells y)(slot row := upsert_cell t row (report_facts (jobs t) m) (is_cells y (slot row))),
        is_phase := (is_phase y)(t := Loop (Suc m))\<rparr>)"
| iso_delete: "is_phase y t = Loop m \<Longrightarrow> m = length (known_devices (rp_devices (jobs t))) \<Longrightarrow>
      iso_step jobs t y (y\<lparr>is_phase := (is_phase y)(t := Pruning (hits t (jobs t) (is_cells y)))\<rparr>)"
| iso_visit: "is_phase y t = Pruning K \<Longrightarrow> (k, i) \<in> K \<Longrightarrow> \<not> taken t (is_cells y k) \<Longrightarrow>
      iso_step jobs t y (y\<lparr>is_cells := (is_cells y)(k := delete_cell t i (is_cells y k)),
        is_phase := (is_phase y)(t := Pruning (K - {(k, i)}))\<rparr>)"
| iso_commit: "is_phase y t = Pruning {} \<Longrightarrow>
      iso_step jobs t y (y\<lparr>is_cells := settle t \<circ> is_cells y, is_phase := (is_phase y)(t := Committed),
        is_log := t # is_log y\<rparr>)"
| iso_rollback: "is_phase y t \<noteq> Committed \<Longrightarrow> is_phase y t \<noteq> RolledBack \<Longrightarrow>
      iso_step jobs t y (y\<lparr>is_cells := forget t \<circ> is_cells y, is_phase := (is_phase y)(t := RolledBack)\<rparr>)"

definition iso_start :: "device_row list \<Rightarrow> iso" where
  "iso_start rows = \<lparr>is_cells = (\<lambda>k. \<lparr>ce_row = row_at slot rows k, ce_claim = None\<rparr>),
     is_phase = (\<lambda>_. Loop 0), is_log = []\<rparr>"

section \<open>What is stored while reports overlap\<close>

text \<open>The devices reported so far, the last one under a local id counting.\<close>

definition sent_upto :: "nat \<Rightarrow> string \<Rightarrow> report \<Rightarrow> (device \<times> string) option" where
  "sent_upto m lid j = find (\<lambda>(d, kind). dev_localId d = lid) (rev (take m (known_devices (rp_devices j))))"

lemma sent_upto_0 [simp]: "sent_upto 0 lid j = None"
  by (simp add: sent_upto_def)

lemma sent_upto_Suc:
  "m < length (known_devices (rp_devices j)) \<Longrightarrow> sent_upto (Suc m) lid j =
     (if dev_localId (fst (known_devices (rp_devices j) ! m)) = lid then Some (known_devices (rp_devices j) ! m) else sent_upto m lid j)"
  by (simp add: sent_upto_def take_Suc_conv_app_nth split: prod.split)

lemma sent_upto_all: "length (known_devices (rp_devices j)) \<le> m \<Longrightarrow> sent_upto m lid j = last_report lid (rp_devices j)"
  by (simp add: sent_upto_def last_report_def)

lemma last_report_None: "last_report lid (rp_devices j) = None \<longleftrightarrow> lid \<notin> set (keep j)"
  unfolding last_report_def find_None_iff by (auto simp: keep_def)

lemma sent_upto_keep:
  assumes "sent_upto m lid j = Some x"
  shows "lid \<in> set (keep j)"
proof -
  have "find (\<lambda>(d, kind). dev_localId d = lid) (rev (take m (known_devices (rp_devices j)))) \<noteq> None"
    using assms by (simp add: sent_upto_def)
  then obtain d kind where "(d, kind) \<in> set (take m (known_devices (rp_devices j)))" "dev_localId d = lid"
    unfolding find_None_iff by auto
  then show ?thesis using in_set_takeD by (fastforce simp: keep_def)
qed

definition progress :: "report \<Rightarrow> phase \<Rightarrow> nat" where
  "progress j ph = (case ph of Loop m \<Rightarrow> m | Pruning K \<Rightarrow> length (known_devices (rp_devices j)) | _ \<Rightarrow> 0)"

definition ended :: "phase \<Rightarrow> bool" where
  "ended ph \<longleftrightarrow> ph = Committed \<or> ph = RolledBack"

text \<open>A row holds what a committed report of its node last said of its device.\<close>

definition logged :: "(nat \<Rightarrow> report) \<Rightarrow> nat list \<Rightarrow> slot_key \<Rightarrow> device_row \<Rightarrow> bool" where
  "logged jobs ts k r \<longleftrightarrow> (\<exists>t \<in> set ts. rp_node (jobs t) = fst k
     \<and> map_option reported_facts (last_report (snd k) (rp_devices (jobs t))) = Some (device_facts r))"

text \<open>What a transaction in progress may have written, and what its delete will still find.\<close>

definition claim_ok :: "(nat \<Rightarrow> report) \<Rightarrow> iso \<Rightarrow> bool" where
  "claim_ok jobs y \<longleftrightarrow> (\<forall>k t v. ce_claim (is_cells y k) = Some (t, v) \<longrightarrow>
     \<not> ended (is_phase y t) \<and> fst k = rp_node (jobs t)
     \<and> (case v of None \<Rightarrow> snd k \<notin> set (keep (jobs t))
        | Some r \<Rightarrow> slot r = k \<and> d_orgId r = rp_org (jobs t)
            \<and> map_option reported_facts (sent_upto (progress (jobs t) (is_phase y t)) (snd k) (jobs t)) = Some (device_facts r)))"

definition sent_ok :: "(nat \<Rightarrow> report) \<Rightarrow> iso \<Rightarrow> bool" where
  "sent_ok jobs y \<longleftrightarrow> (\<forall>t lid. \<not> ended (is_phase y t) \<longrightarrow> sent_upto (progress (jobs t) (is_phase y t)) lid (jobs t) \<noteq> None \<longrightarrow>
     (\<exists>r. ce_claim (is_cells y (rp_node (jobs t), lid)) = Some (t, Some r)))"

definition prune_ok :: "(nat \<Rightarrow> report) \<Rightarrow> iso \<Rightarrow> bool" where
  "prune_ok jobs y \<longleftrightarrow> (\<forall>t K. is_phase y t = Pruning K \<longrightarrow>
     (\<forall>(k, i) \<in> K. fst k = rp_node (jobs t) \<and> snd k \<notin> set (keep (jobs t)))
     \<and> (\<forall>k r. fst k = rp_node (jobs t) \<longrightarrow> snd k \<notin> set (keep (jobs t)) \<longrightarrow> ce_row (is_cells y k) = Some r \<longrightarrow>
          (k, d_id r) \<in> K \<or> ce_claim (is_cells y k) = Some (t, None) \<or> logged jobs (is_log y) k r))"

definition rows_ok :: "(nat \<Rightarrow> report) \<Rightarrow> device_row list \<Rightarrow> iso \<Rightarrow> bool" where
  "rows_ok jobs rows y \<longleftrightarrow> (\<forall>k r. ce_row (is_cells y k) = Some r \<longrightarrow>
     slot r = k \<and> (\<forall>t. rp_node (jobs t) = fst k \<longrightarrow> d_orgId r = rp_org (jobs t))
     \<and> (row_at slot rows k = Some r \<or> logged jobs (is_log y) k r))"

text \<open>The last committed report of a node, and what is stored of the node then.\<close>

definition last_committed :: "(nat \<Rightarrow> report) \<Rightarrow> uuid \<Rightarrow> nat list \<Rightarrow> nat option" where
  "last_committed jobs nid ts = find (\<lambda>t. rp_node (jobs t) = nid) ts"

definition shows_report :: "(nat \<Rightarrow> report) \<Rightarrow> nat list \<Rightarrow> (slot_key \<Rightarrow> cell) \<Rightarrow> nat \<Rightarrow> bool" where
  "shows_report jobs ts cells t \<longleftrightarrow> (\<forall>lid.
     case last_report lid (rp_devices (jobs t)) of
       Some x \<Rightarrow> \<exists>r. ce_row (cells (rp_node (jobs t), lid)) = Some r \<and> device_facts r = reported_facts x
     | None \<Rightarrow> \<forall>r. ce_row (cells (rp_node (jobs t), lid)) = Some r \<longrightarrow> logged jobs ts (rp_node (jobs t), lid) r)"

definition log_ok :: "(nat \<Rightarrow> report) \<Rightarrow> iso \<Rightarrow> bool" where
  "log_ok jobs y \<longleftrightarrow> (\<forall>nid t. last_committed jobs nid (is_log y) = Some t \<longrightarrow> shows_report jobs (is_log y) (is_cells y) t)"

definition iso_inv :: "(nat \<Rightarrow> report) \<Rightarrow> device_row list \<Rightarrow> iso \<Rightarrow> bool" where
  "iso_inv jobs rows y \<longleftrightarrow> claim_ok jobs y \<and> sent_ok jobs y \<and> prune_ok jobs y \<and> rows_ok jobs rows y \<and> log_ok jobs y"

text \<open>Each node belongs to one organization, in the table and in the reports.\<close>

definition reports_fit :: "(nat \<Rightarrow> report) \<Rightarrow> device_row list \<Rightarrow> bool" where
  "reports_fit jobs rows \<longleftrightarrow>
     (\<forall>t u. rp_node (jobs t) = rp_node (jobs u) \<longrightarrow> rp_org (jobs t) = rp_org (jobs u))
     \<and> (\<forall>t. \<forall>d \<in> set rows. d_nodeId d = rp_node (jobs t) \<longrightarrow> d_orgId d = rp_org (jobs t))"

lemma iso_start_inv:
  assumes "reports_fit jobs rows"
  shows "iso_inv jobs rows (iso_start rows)"
proof -
  have "rows_ok jobs rows (iso_start rows)"
    unfolding rows_ok_def
  proof (intro allI impI)
    fix k r assume "ce_row (is_cells (iso_start rows) k) = Some r"
    then have r: "row_at slot rows k = Some r" by (simp add: iso_start_def)
    from row_at_key [OF r] have k: "slot r = k" "r \<in> set rows" by simp_all
    have "d_nodeId r = fst k" by (simp flip: k(1))
    then have "rp_node (jobs t) = fst k \<longrightarrow> d_orgId r = rp_org (jobs t)" for t
      using assms k(2) unfolding reports_fit_def by metis
    with k(1) r show "slot r = k \<and> (\<forall>t. rp_node (jobs t) = fst k \<longrightarrow> d_orgId r = rp_org (jobs t))
      \<and> (row_at slot rows k = Some r \<or> logged jobs (is_log (iso_start rows)) k r)" by blast
  qed
  moreover have "claim_ok jobs (iso_start rows)" by (simp add: claim_ok_def iso_start_def)
  moreover have "sent_ok jobs (iso_start rows)" by (simp add: sent_ok_def iso_start_def progress_def)
  moreover have "prune_ok jobs (iso_start rows)" by (simp add: prune_ok_def iso_start_def)
  moreover have "log_ok jobs (iso_start rows)" by (simp add: log_ok_def iso_start_def last_committed_def)
  ultimately show ?thesis by (simp add: iso_inv_def)
qed

lemma logged_mono: "logged jobs ts k r \<Longrightarrow> set ts \<subseteq> set us \<Longrightarrow> logged jobs us k r"
  unfolding logged_def by blast

lemma report_new_slot [simp]:
  "d_nodeId (report_new j m) = rp_node j" "d_localId (report_new j m) = dev_localId (fst (known_devices (rp_devices j) ! m))"
  "d_orgId (report_new j m) = rp_org j" "device_facts (report_new j m) = reported_facts (known_devices (rp_devices j) ! m)"
  by (simp_all add: report_new_def split: prod.split)

lemma report_facts_slot [simp]:
  "d_nodeId (report_facts j m r) = d_nodeId r" "d_localId (report_facts j m r) = d_localId r"
  "d_orgId (report_facts j m r) = d_orgId r" "d_id (report_facts j m r) = d_id r"
  "device_facts (report_facts j m r) = reported_facts (known_devices (rp_devices j) ! m)"
  by (simp_all add: report_facts_def split: prod.split)

lemma claim_okD:
  assumes "claim_ok jobs y" and "ce_claim (is_cells y k) = Some (t, v)"
  shows "\<not> ended (is_phase y t)" "fst k = rp_node (jobs t)"
    "v = None \<Longrightarrow> snd k \<notin> set (keep (jobs t))"
    "v = Some r \<Longrightarrow> slot r = k \<and> d_orgId r = rp_org (jobs t)
       \<and> map_option reported_facts (sent_upto (progress (jobs t) (is_phase y t)) (snd k) (jobs t)) = Some (device_facts r)"
proof -
  have all: "\<not> ended (is_phase y t) \<and> fst k = rp_node (jobs t)
     \<and> (case v of None \<Rightarrow> snd k \<notin> set (keep (jobs t))
        | Some r \<Rightarrow> slot r = k \<and> d_orgId r = rp_org (jobs t)
            \<and> map_option reported_facts (sent_upto (progress (jobs t) (is_phase y t)) (snd k) (jobs t)) = Some (device_facts r))"
    using assms unfolding claim_ok_def by blast
  show "\<not> ended (is_phase y t)" "fst k = rp_node (jobs t)" using all by simp_all
  show "snd k \<notin> set (keep (jobs t))" if "v = None" using all that by simp
  show "slot r = k \<and> d_orgId r = rp_org (jobs t)
       \<and> map_option reported_facts (sent_upto (progress (jobs t) (is_phase y t)) (snd k) (jobs t)) = Some (device_facts r)"
    if "v = Some r" using all unfolding that by (simp only: option.case)
qed

lemma rows_okD:
  assumes "rows_ok jobs rows y" and "ce_row (is_cells y k) = Some r"
  shows "slot r = k" "rp_node (jobs t) = fst k \<Longrightarrow> d_orgId r = rp_org (jobs t)"
    "row_at slot rows k = Some r \<or> logged jobs (is_log y) k r"
  using assms unfolding rows_ok_def by blast+

text \<open>A transaction sees, under a key of its node, a row of that key and of its organization.\<close>

lemma seen_row:
  assumes "claim_ok jobs y" and "rows_ok jobs rows y" and "fst k = rp_node (jobs t)" and "seen t (is_cells y k) = Some r"
  shows "slot r = k \<and> d_orgId r = rp_org (jobs t)"
proof (cases "ce_claim (is_cells y k)")
  case None
  then have "ce_row (is_cells y k) = Some r" using assms(4) by (simp add: seen_def)
  from rows_okD [OF assms(2) this] show ?thesis using assms(3) by simp
next
  case (Some c)
  obtain u v where c: "c = (u, v)" by (cases c)
  show ?thesis
  proof (cases "u = t")
    case True
    then show ?thesis using assms(4) Some c claim_okD(4) [OF assms(1), of k t v r] by (simp add: seen_def)
  next
    case False
    then have "ce_row (is_cells y k) = Some r" using assms(4) Some c by (simp add: seen_def)
    from rows_okD [OF assms(2) this] show ?thesis using assms(3) by simp
  qed
qed

lemma written_row [simp]:
  "ce_row (upsert_cell t row g c) = ce_row c" "ce_row (delete_cell t i c) = ce_row c" "ce_row (forget t c) = ce_row c"
  by (simp_all add: upsert_cell_def delete_cell_def forget_def split: option.split)

text \<open>Steps that commit nothing leave rows and log as they are.\<close>

lemma rows_frame:
  assumes "\<And>k. ce_row (is_cells y' k) = ce_row (is_cells y k)" and "is_log y' = is_log y"
  shows "rows_ok jobs rows y' = rows_ok jobs rows y" "log_ok jobs y' = log_ok jobs y"
  unfolding rows_ok_def log_ok_def shows_report_def assms by (rule refl)+

lemma upsert_inv:
  assumes inv: "iso_inv jobs rows y"
    and m: "is_phase y t = Loop m" "m < length (known_devices (rp_devices (jobs t)))"
    and free: "\<not> taken t (is_cells y (slot (report_new (jobs t) m)))"
    and y': "y' = y\<lparr>is_cells := (is_cells y)(slot (report_new (jobs t) m) :=
          upsert_cell t (report_new (jobs t) m) (report_facts (jobs t) m) (is_cells y (slot (report_new (jobs t) m)))),
        is_phase := (is_phase y)(t := Loop (Suc m))\<rparr>"
  shows "iso_inv jobs rows y'"
proof -
  let ?j = "jobs t" and ?x = "known_devices (rp_devices (jobs t)) ! m"
  define k0 where "k0 = slot (report_new (jobs t) m)"
  have k0: "k0 = (rp_node ?j, dev_localId (fst ?x))" by (simp add: k0_def)
  note y' = y' [folded k0_def] and free = free [folded k0_def]
  have inv': "claim_ok jobs y" "sent_ok jobs y" "prune_ok jobs y" "rows_ok jobs rows y" "log_ok jobs y"
    using inv by (simp_all add: iso_inv_def)
  define r where "r = (case seen t (is_cells y k0) of None \<Rightarrow> report_new ?j m | Some r \<Rightarrow> report_facts ?j m r)"
  have r: "slot r = k0" "d_orgId r = rp_org ?j" "device_facts r = reported_facts ?x"
    using seen_row [OF inv'(1,4), of k0 t] by (auto simp: r_def k0 split: option.split)
  have cells: "is_cells y' k0 = (is_cells y k0)\<lparr>ce_claim := Some (t, Some r)\<rparr>" "\<And>k. k \<noteq> k0 \<Longrightarrow> is_cells y' k = is_cells y k"
    by (simp_all add: y' upsert_cell_def r_def)
  have rows: "ce_row (is_cells y' k) = ce_row (is_cells y k)" for k by (cases "k = k0") (simp_all add: cells)
  have ph: "is_phase y' t = Loop (Suc m)" "\<And>u. u \<noteq> t \<Longrightarrow> is_phase y' u = is_phase y u"
    and log: "is_log y' = is_log y" by (simp_all add: y')
  have pr: "progress ?j (is_phase y' t) = Suc m" "progress ?j (is_phase y t) = m"
    by (simp_all add: progress_def m(1) ph(1))
  note upto = sent_upto_Suc [OF m(2)]
  have other: "ce_claim (is_cells y k0) = Some (u, v) \<Longrightarrow> u = t" for u v using free by (simp add: taken_def)
  have "claim_ok jobs y'"
    unfolding claim_ok_def
  proof (intro allI impI)
    fix k u v assume c: "ce_claim (is_cells y' k) = Some (u, v)"
    show "\<not> ended (is_phase y' u) \<and> fst k = rp_node (jobs u)
     \<and> (case v of None \<Rightarrow> snd k \<notin> set (keep (jobs u))
        | Some r \<Rightarrow> slot r = k \<and> d_orgId r = rp_org (jobs u)
            \<and> map_option reported_facts (sent_upto (progress (jobs u) (is_phase y' u)) (snd k) (jobs u)) = Some (device_facts r))"
    proof (cases "k = k0")
      case True
      then have "u = t" "v = Some r" using c by (simp_all add: cells)
      then show ?thesis using True r by (simp add: pr(1) upto k0) (simp add: ended_def ph(1))
    next
      case False
      then have old: "ce_claim (is_cells y k) = Some (u, v)" using c by (simp add: cells)
      note o = claim_okD [OF inv'(1) old]
      show ?thesis
      proof (cases "u = t")
        case True
        have "snd k \<noteq> dev_localId (fst ?x)" using False o(2) True by (cases k) (auto simp: k0)
        then have "sent_upto (Suc m) (snd k) ?j = sent_upto m (snd k) ?j" by (simp add: upto)
        then show ?thesis using o True pr ph(1) by (simp add: ended_def split: option.split)
      next
        case False
        then show ?thesis using o by (simp add: ph(2) split: option.split)
      qed
    qed
  qed
  moreover have "sent_ok jobs y'"
    unfolding sent_ok_def
  proof (intro allI impI)
    fix u lid assume u: "\<not> ended (is_phase y' u)" "sent_upto (progress (jobs u) (is_phase y' u)) lid (jobs u) \<noteq> None"
    let ?c = "(rp_node (jobs u), lid)"
    show "\<exists>r. ce_claim (is_cells y' ?c) = Some (u, Some r)"
    proof (cases "u = t \<and> ?c = k0")
      case True
      have "ce_claim (is_cells y' k0) = Some (t, Some r)" by (simp add: cells(1))
      then show ?thesis using True by metis
    next
      case False
      have "sent_upto (progress (jobs u) (is_phase y u)) lid (jobs u) \<noteq> None"
      proof (cases "u = t")
        case True
        then have "lid \<noteq> dev_localId (fst ?x)" using False by (simp add: k0)
        then show ?thesis using u(2) True pr by (simp add: upto)
      qed (use u(2) ph(2) in simp)
      moreover have "\<not> ended (is_phase y u)" using u(1) m(1) by (cases "u = t") (simp_all add: ended_def ph(2))
      ultimately obtain r where r: "ce_claim (is_cells y ?c) = Some (u, Some r)" using inv'(2) unfolding sent_ok_def by blast
      then have "?c \<noteq> k0" using False other by metis
      then show ?thesis using r by (simp add: cells(2))
    qed
  qed
  moreover have "prune_ok jobs y'"
    unfolding prune_ok_def
  proof (intro allI impI)
    fix u K assume K: "is_phase y' u = Pruning K"
    then have ut: "u \<noteq> t" using ph(1) by auto
    with K have old: "is_phase y u = Pruning K" by (simp add: ph(2))
    have "ce_claim (is_cells y' k) = Some (u, None)" if "ce_claim (is_cells y k) = Some (u, None)" for k
    proof -
      have "k \<noteq> k0" using other [of u None] that ut by blast
      then show ?thesis using that by (simp add: cells(2))
    qed
    then show "(\<forall>(k, i) \<in> K. fst k = rp_node (jobs u) \<and> snd k \<notin> set (keep (jobs u)))
     \<and> (\<forall>k r. fst k = rp_node (jobs u) \<longrightarrow> snd k \<notin> set (keep (jobs u)) \<longrightarrow> ce_row (is_cells y' k) = Some r \<longrightarrow>
          (k, d_id r) \<in> K \<or> ce_claim (is_cells y' k) = Some (u, None) \<or> logged jobs (is_log y') k r)"
      using inv'(3) old unfolding prune_ok_def rows log by blast
  qed
  ultimately show ?thesis using inv'(4,5) rows_frame [of y' y, OF rows log] by (simp add: iso_inv_def)
qed

text \<open>A step that leaves the claims and what was sent as they are.\<close>

lemma quiet_frame:
  assumes "\<And>k. is_cells y' k = is_cells y k" and "is_log y' = is_log y"
    and "\<And>u. ended (is_phase y' u) = ended (is_phase y u)"
    and "\<And>u. progress (jobs u) (is_phase y' u) = progress (jobs u) (is_phase y u)"
  shows "claim_ok jobs y' = claim_ok jobs y" "sent_ok jobs y' = sent_ok jobs y"
    "rows_ok jobs rows y' = rows_ok jobs rows y" "log_ok jobs y' = log_ok jobs y"
  unfolding claim_ok_def sent_ok_def rows_ok_def log_ok_def shows_report_def assms by (rule refl)+

lemma delete_inv:
  assumes inv: "iso_inv jobs rows y"
    and m: "is_phase y t = Loop m" "m = length (known_devices (rp_devices (jobs t)))"
    and y': "y' = y\<lparr>is_phase := (is_phase y)(t := Pruning (hits t (jobs t) (is_cells y)))\<rparr>"
  shows "iso_inv jobs rows y'"
proof -
  have inv': "claim_ok jobs y" "sent_ok jobs y" "prune_ok jobs y" "rows_ok jobs rows y" "log_ok jobs y"
    using inv by (simp_all add: iso_inv_def)
  have ph: "is_phase y' t = Pruning (hits t (jobs t) (is_cells y))" "\<And>u. u \<noteq> t \<Longrightarrow> is_phase y' u = is_phase y u"
    by (simp_all add: y')
  have "ended (is_phase y' u) = ended (is_phase y u)" "progress (jobs u) (is_phase y' u) = progress (jobs u) (is_phase y u)" for u
    by (cases "u = t"; simp add: ph m ended_def progress_def)+
  note frame = quiet_frame [of y' y, OF _ _ this]
  have "prune_ok jobs y'"
    unfolding prune_ok_def
  proof (intro allI impI)
    fix u K assume K: "is_phase y' u = Pruning K"
    show "(\<forall>(k, i) \<in> K. fst k = rp_node (jobs u) \<and> snd k \<notin> set (keep (jobs u)))
     \<and> (\<forall>k r. fst k = rp_node (jobs u) \<longrightarrow> snd k \<notin> set (keep (jobs u)) \<longrightarrow> ce_row (is_cells y' k) = Some r \<longrightarrow>
          (k, d_id r) \<in> K \<or> ce_claim (is_cells y' k) = Some (u, None) \<or> logged jobs (is_log y') k r)"
    proof (cases "u = t")
      case False
      then have "is_phase y u = Pruning K" using K by (simp add: ph(2))
      then have "(\<forall>(k, i) \<in> K. fst k = rp_node (jobs u) \<and> snd k \<notin> set (keep (jobs u)))
     \<and> (\<forall>k r. fst k = rp_node (jobs u) \<longrightarrow> snd k \<notin> set (keep (jobs u)) \<longrightarrow> ce_row (is_cells y k) = Some r \<longrightarrow>
          (k, d_id r) \<in> K \<or> ce_claim (is_cells y k) = Some (u, None) \<or> logged jobs (is_log y) k r)"
        using inv'(3) unfolding prune_ok_def by blast
      then show ?thesis by (simp add: y')
    next
      case True
      then have K: "K = hits t (jobs t) (is_cells y)" using K ph(1) by simp
      have key: "slot r = k \<and> d_orgId r = rp_org (jobs t)"
        if "fst k = rp_node (jobs t)" "seen t (is_cells y k) = Some r" for k r
        using seen_row [OF inv'(1,4) that] .
      have own: "fst k = rp_node (jobs t) \<and> snd k \<notin> set (keep (jobs t))" if ki: "(k, i) \<in> K" for k i
      proof -
        obtain r where r: "seen t (is_cells y k) = Some r" "d_nodeId r = rp_node (jobs t)" "d_localId r \<notin> set (keep (jobs t))"
          using ki by (auto simp: K hits_def)
        have "slot r = k"
        proof (cases "ce_row (is_cells y k) = Some r")
          case True
          then show ?thesis using rows_okD(1) [OF inv'(4)] by blast
        next
          case False
          then have "ce_claim (is_cells y k) = Some (t, Some r)" using r(1)
            by (auto simp: seen_def split: option.splits prod.splits if_splits)
          from claim_okD(4) [OF inv'(1) this refl] show ?thesis by blast
        qed
        then show ?thesis using r by auto
      qed
      have found: "(k, d_id r) \<in> K \<or> ce_claim (is_cells y k) = Some (t, None)"
        if k: "fst k = rp_node (jobs t)" "snd k \<notin> set (keep (jobs t))" "ce_row (is_cells y k) = Some r" for k r
      proof (cases "\<exists>v. ce_claim (is_cells y k) = Some (t, v)")
        case True
        then obtain v where v: "ce_claim (is_cells y k) = Some (t, v)" by blast
        show ?thesis
        proof (cases v)
          case None
          then show ?thesis using v by simp
        next
          case (Some r)
          then obtain x where "sent_upto (progress (jobs t) (is_phase y t)) (snd k) (jobs t) = Some x"
            using claim_okD(4) [OF inv'(1) v Some] by auto
          then show ?thesis using sent_upto_keep k(2) by blast
        qed
      next
        case False
        then have s: "seen t (is_cells y k) = Some r" using k(3) by (auto simp: seen_def split: option.split)
        have "slot r = k" "d_orgId r = rp_org (jobs t)" using key [OF k(1) s] by simp_all
        then have "(k, d_id r) \<in> K" using s k(1,2) unfolding K hits_def by (auto simp flip: \<open>slot r = k\<close>)
        then show ?thesis ..
      qed
      have same: "is_cells y' = is_cells y" by (simp add: y')
      have "case p of (k, i) \<Rightarrow> fst k = rp_node (jobs t) \<and> snd k \<notin> set (keep (jobs t))" if "p \<in> K" for p
        using own [of "fst p" "snd p"] that by (simp add: case_prod_beta)
      then show ?thesis using found unfolding True same by blast
    qed
  qed
  then show ?thesis using inv' frame by (simp add: iso_inv_def y')
qed

lemma prune_okD:
  assumes "prune_ok jobs y" and "is_phase y t = Pruning K"
  shows "(k, i) \<in> K \<Longrightarrow> fst k = rp_node (jobs t) \<and> snd k \<notin> set (keep (jobs t))"
    "fst k = rp_node (jobs t) \<Longrightarrow> snd k \<notin> set (keep (jobs t)) \<Longrightarrow> ce_row (is_cells y k) = Some r \<Longrightarrow>
       (k, d_id r) \<in> K \<or> ce_claim (is_cells y k) = Some (t, None) \<or> logged jobs (is_log y) k r"
  using assms unfolding prune_ok_def by blast+

lemma sent_okD:
  assumes "sent_ok jobs y" and "\<not> ended (is_phase y t)" and "sent_upto (progress (jobs t) (is_phase y t)) lid (jobs t) \<noteq> None"
  obtains r where "ce_claim (is_cells y (rp_node (jobs t), lid)) = Some (t, Some r)"
  using assms unfolding sent_ok_def by blast

text \<open>A key outside a report is not one its transaction has written a row under.\<close>

lemma unsent:
  "claim_ok jobs y \<Longrightarrow> snd k \<notin> set (keep (jobs t)) \<Longrightarrow> ce_claim (is_cells y k) \<noteq> Some (t, Some r)"
  using claim_okD(4) [of jobs y k t "Some r" r] sent_upto_keep by fastforce

lemma visit_inv:
  assumes inv: "iso_inv jobs rows y"
    and K: "is_phase y t = Pruning K" "(k1, i) \<in> K"
    and free: "\<not> taken t (is_cells y k1)"
    and y': "y' = y\<lparr>is_cells := (is_cells y)(k1 := delete_cell t i (is_cells y k1)),
        is_phase := (is_phase y)(t := Pruning (K - {(k1, i)}))\<rparr>"
  shows "iso_inv jobs rows y'"
proof -
  have inv': "claim_ok jobs y" "sent_ok jobs y" "prune_ok jobs y" "rows_ok jobs rows y" "log_ok jobs y"
    using inv by (simp_all add: iso_inv_def)
  have ph: "is_phase y' t = Pruning (K - {(k1, i)})" "\<And>u. u \<noteq> t \<Longrightarrow> is_phase y' u = is_phase y u"
    and log: "is_log y' = is_log y" by (simp_all add: y')
  have ended: "ended (is_phase y' u) = ended (is_phase y u)"
    and progress: "progress (jobs u) (is_phase y' u) = progress (jobs u) (is_phase y u)" for u
    by (cases "u = t"; simp add: ph K ended_def progress_def)+
  have rows: "ce_row (is_cells y' k) = ce_row (is_cells y k)" for k by (simp add: y')
  have k1: "fst k1 = rp_node (jobs t)" "snd k1 \<notin> set (keep (jobs t))" using prune_okD(1) [OF inv'(3) K] by simp_all
  have other: "ce_claim (is_cells y k1) = Some (u, v) \<Longrightarrow> u = t" for u v using free by (simp add: taken_def)
  have claims: "ce_claim (is_cells y' k) = ce_claim (is_cells y k) \<or> k = k1 \<and> ce_claim (is_cells y' k) = Some (t, None)" for k
    by (auto simp: y' delete_cell_def split: option.split)
  have gone: "ce_claim (is_cells y' k1) = Some (t, None)" if "ce_row (is_cells y k1) = Some r" "d_id r = i" for r
  proof (cases "ce_claim (is_cells y k1)")
    case None
    then show ?thesis using that by (simp add: y' delete_cell_def seen_def)
  next
    case (Some c)
    then have "c = (t, None)" using other unsent [OF inv'(1) k1(2)] by (cases c; cases "snd c") auto
    then show ?thesis using Some by (simp add: y' delete_cell_def seen_def)
  qed
  have stays: "ce_claim (is_cells y' k) = Some (u, None)" if "ce_claim (is_cells y k) = Some (u, None)" for k u
    using claims [of k] that other by auto
  have "claim_ok jobs y'"
    unfolding claim_ok_def ended progress
  proof (intro allI impI)
    fix k u v assume c: "ce_claim (is_cells y' k) = Some (u, v)"
    show "\<not> ended (is_phase y u) \<and> fst k = rp_node (jobs u)
     \<and> (case v of None \<Rightarrow> snd k \<notin> set (keep (jobs u))
        | Some r \<Rightarrow> slot r = k \<and> d_orgId r = rp_org (jobs u)
            \<and> map_option reported_facts (sent_upto (progress (jobs u) (is_phase y u)) (snd k) (jobs u)) = Some (device_facts r))"
    proof (cases "ce_claim (is_cells y k) = Some (u, v)")
      case True
      then show ?thesis using inv'(1) unfolding claim_ok_def by blast
    next
      case False
      then have "k = k1" "u = t" "v = None" using claims [of k] c by auto
      then show ?thesis using k1 K(1) by (simp add: ended_def)
    qed
  qed
  moreover have "sent_ok jobs y'"
    unfolding sent_ok_def ended progress
  proof (intro allI impI)
    fix u lid assume u: "\<not> ended (is_phase y u)" "sent_upto (progress (jobs u) (is_phase y u)) lid (jobs u) \<noteq> None"
    obtain r where r: "ce_claim (is_cells y (rp_node (jobs u), lid)) = Some (u, Some r)" by (rule sent_okD [OF inv'(2) u])
    have "(rp_node (jobs u), lid) \<noteq> k1"
      using r other unsent [OF inv'(1) k1(2)] by metis
    then show "\<exists>r. ce_claim (is_cells y' (rp_node (jobs u), lid)) = Some (u, Some r)"
      using r claims [of "(rp_node (jobs u), lid)"] by metis
  qed
  moreover have "prune_ok jobs y'"
    unfolding prune_ok_def rows log
  proof (intro allI impI conjI)
    fix u K' assume K': "is_phase y' u = Pruning K'"
    have old: "\<exists>K0. is_phase y u = Pruning K0 \<and> K' \<subseteq> K0 \<and> (u \<noteq> t \<longrightarrow> K0 = K') \<and> (u = t \<longrightarrow> K0 = K \<and> K' = K - {(k1, i)})"
      using K' K(1) ph by (cases "u = t") auto
    then obtain K0 where K0: "is_phase y u = Pruning K0" "K' \<subseteq> K0" "u \<noteq> t \<longrightarrow> K0 = K'" "u = t \<longrightarrow> K0 = K \<and> K' = K - {(k1, i)}"
      by blast
    show "\<forall>(k, i) \<in> K'. fst k = rp_node (jobs u) \<and> snd k \<notin> set (keep (jobs u))"
      using inv'(3) K0(1,2) unfolding prune_ok_def by blast
    fix k r assume k: "fst k = rp_node (jobs u)" "snd k \<notin> set (keep (jobs u))" "ce_row (is_cells y k) = Some r"
    show "(k, d_id r) \<in> K' \<or> ce_claim (is_cells y' k) = Some (u, None) \<or> logged jobs (is_log y) k r"
    proof (cases "(k, d_id r) \<in> K0")
      case True
      then show ?thesis using K0(3,4) gone [of r] k(3) by (cases "u = t"; cases "(k, d_id r) = (k1, i)") blast+
    next
      case False
      then show ?thesis using prune_okD(2) [OF inv'(3) K0(1) k] stays [of k u] by blast
    qed
  qed
  ultimately show ?thesis using inv'(4,5) rows_frame [of y' y, OF rows log] by (simp add: iso_inv_def)
qed

lemma rollback_inv:
  assumes inv: "iso_inv jobs rows y" and t: "\<not> ended (is_phase y t)"
    and y': "y' = y\<lparr>is_cells := forget t \<circ> is_cells y, is_phase := (is_phase y)(t := RolledBack)\<rparr>"
  shows "iso_inv jobs rows y'"
proof -
  have inv': "claim_ok jobs y" "sent_ok jobs y" "prune_ok jobs y" "rows_ok jobs rows y" "log_ok jobs y"
    using inv by (simp_all add: iso_inv_def)
  have ph: "is_phase y' t = RolledBack" "\<And>u. u \<noteq> t \<Longrightarrow> is_phase y' u = is_phase y u"
    and log: "is_log y' = is_log y" by (simp_all add: y')
  have rows: "ce_row (is_cells y' k) = ce_row (is_cells y k)" for k by (simp add: y')
  have claims: "ce_claim (is_cells y' k) = Some (u, v) \<longleftrightarrow> ce_claim (is_cells y k) = Some (u, v) \<and> u \<noteq> t" for k u v
    by (auto simp: y' forget_def split: option.split)
  have "claim_ok jobs y'"
    unfolding claim_ok_def claims
  proof (intro allI impI)
    fix k u v assume c: "ce_claim (is_cells y k) = Some (u, v) \<and> u \<noteq> t"
    show "\<not> ended (is_phase y' u) \<and> fst k = rp_node (jobs u)
     \<and> (case v of None \<Rightarrow> snd k \<notin> set (keep (jobs u))
        | Some r \<Rightarrow> slot r = k \<and> d_orgId r = rp_org (jobs u)
            \<and> map_option reported_facts (sent_upto (progress (jobs u) (is_phase y' u)) (snd k) (jobs u)) = Some (device_facts r))"
      unfolding ph(2) [OF conjunct2 [OF c]] using inv'(1) c unfolding claim_ok_def by blast
  qed
  moreover have "sent_ok jobs y'"
    unfolding sent_ok_def claims
  proof (intro allI impI)
    fix u lid assume u: "\<not> ended (is_phase y' u)" "sent_upto (progress (jobs u) (is_phase y' u)) lid (jobs u) \<noteq> None"
    then have ut: "u \<noteq> t" using ph(1) by (auto simp: ended_def)
    obtain r where "ce_claim (is_cells y (rp_node (jobs u), lid)) = Some (u, Some r)"
      by (rule sent_okD [OF inv'(2) u [unfolded ph(2) [OF ut]]])
    with ut show "\<exists>r. ce_claim (is_cells y (rp_node (jobs u), lid)) = Some (u, Some r) \<and> u \<noteq> t" by blast
  qed
  moreover have "prune_ok jobs y'"
    unfolding prune_ok_def rows log claims
  proof (intro allI impI)
    fix u K assume K: "is_phase y' u = Pruning K"
    then have ut: "u \<noteq> t" using ph(1) by auto
    show "(\<forall>(k, i) \<in> K. fst k = rp_node (jobs u) \<and> snd k \<notin> set (keep (jobs u)))
     \<and> (\<forall>k r. fst k = rp_node (jobs u) \<longrightarrow> snd k \<notin> set (keep (jobs u)) \<longrightarrow> ce_row (is_cells y k) = Some r \<longrightarrow>
          (k, d_id r) \<in> K \<or> (ce_claim (is_cells y k) = Some (u, None) \<and> u \<noteq> t) \<or> logged jobs (is_log y) k r)"
      using K unfolding ph(2) [OF ut] using inv'(3) ut unfolding prune_ok_def by blast
  qed
  ultimately show ?thesis using inv'(4,5) rows_frame [of y' y, OF rows log] by (simp add: iso_inv_def)
qed

lemma settle_row: "ce_row (settle t c) = seen t c"
  by (simp add: settle_def seen_def split: option.split)

lemma settle_claim: "ce_claim (settle t c) = Some (u, v) \<longleftrightarrow> ce_claim c = Some (u, v) \<and> u \<noteq> t"
  by (auto simp: settle_def split: option.split)

lemma commit_inv:
  assumes fit: "reports_fit jobs rows" and inv: "iso_inv jobs rows y" and t: "is_phase y t = Pruning {}"
    and y': "y' = y\<lparr>is_cells := settle t \<circ> is_cells y, is_phase := (is_phase y)(t := Committed), is_log := t # is_log y\<rparr>"
  shows "iso_inv jobs rows y'"
proof -
  have inv': "claim_ok jobs y" "sent_ok jobs y" "prune_ok jobs y" "rows_ok jobs rows y" "log_ok jobs y"
    using inv by (simp_all add: iso_inv_def)
  have ph: "is_phase y' t = Committed" "\<And>u. u \<noteq> t \<Longrightarrow> is_phase y' u = is_phase y u"
    and log: "is_log y' = t # is_log y" by (simp_all add: y')
  have rows: "ce_row (is_cells y' k) = seen t (is_cells y k)" for k by (simp add: y' settle_row)
  have claims: "ce_claim (is_cells y' k) = Some (u, v) \<longleftrightarrow> ce_claim (is_cells y k) = Some (u, v) \<and> u \<noteq> t" for k u v
    by (simp add: y' settle_claim)
  have full: "sent_upto (progress (jobs t) (is_phase y t)) lid (jobs t) = last_report lid (rp_devices (jobs t))" for lid
    by (simp add: t progress_def sent_upto_all)
  have live: "\<not> ended (is_phase y t)" by (simp add: t ended_def)
  have older: "logged jobs (is_log y) k r \<Longrightarrow> logged jobs (is_log y') k r" for k r
    by (rule logged_mono) (auto simp: log)
  have new: "ce_row (is_cells y k) = Some r \<and> (\<forall>v. ce_claim (is_cells y k) \<noteq> Some (t, v))
      \<or> ce_claim (is_cells y k) = Some (t, Some r) \<and> logged jobs (is_log y') k r"
    if "ce_row (is_cells y' k) = Some r" for k r
  proof (cases "\<exists>v. ce_claim (is_cells y k) = Some (t, v)")
    case True
    then have c: "ce_claim (is_cells y k) = Some (t, Some r)" using that by (auto simp: rows seen_def)
    have "logged jobs (is_log y') k r"
      using claim_okD(2,4) [OF inv'(1) c] by (auto simp: logged_def log full)
    with c show ?thesis by blast
  next
    case False
    then show ?thesis using that by (auto simp: rows seen_def split: option.splits prod.splits if_splits)
  qed
  have "claim_ok jobs y'"
    unfolding claim_ok_def claims
  proof (intro allI impI)
    fix k u v assume c: "ce_claim (is_cells y k) = Some (u, v) \<and> u \<noteq> t"
    show "\<not> ended (is_phase y' u) \<and> fst k = rp_node (jobs u)
     \<and> (case v of None \<Rightarrow> snd k \<notin> set (keep (jobs u))
        | Some r \<Rightarrow> slot r = k \<and> d_orgId r = rp_org (jobs u)
            \<and> map_option reported_facts (sent_upto (progress (jobs u) (is_phase y' u)) (snd k) (jobs u)) = Some (device_facts r))"
      unfolding ph(2) [OF conjunct2 [OF c]] using inv'(1) c unfolding claim_ok_def by blast
  qed
  moreover have "sent_ok jobs y'"
    unfolding sent_ok_def claims
  proof (intro allI impI)
    fix u lid assume u: "\<not> ended (is_phase y' u)" "sent_upto (progress (jobs u) (is_phase y' u)) lid (jobs u) \<noteq> None"
    then have ut: "u \<noteq> t" using ph(1) by (auto simp: ended_def)
    obtain r where "ce_claim (is_cells y (rp_node (jobs u), lid)) = Some (u, Some r)"
      by (rule sent_okD [OF inv'(2) u [unfolded ph(2) [OF ut]]])
    with ut show "\<exists>r. ce_claim (is_cells y (rp_node (jobs u), lid)) = Some (u, Some r) \<and> u \<noteq> t" by blast
  qed
  moreover have "prune_ok jobs y'"
    unfolding prune_ok_def claims
  proof (intro allI impI conjI)
    fix u K assume K: "is_phase y' u = Pruning K"
    then have ut: "u \<noteq> t" using ph(1) by auto
    with K have old: "is_phase y u = Pruning K" by (simp add: ph(2))
    show "\<forall>(k, i) \<in> K. fst k = rp_node (jobs u) \<and> snd k \<notin> set (keep (jobs u))"
      using inv'(3) old unfolding prune_ok_def by blast
    fix k r assume k: "fst k = rp_node (jobs u)" "snd k \<notin> set (keep (jobs u))" "ce_row (is_cells y' k) = Some r"
    show "(k, d_id r) \<in> K \<or> (ce_claim (is_cells y k) = Some (u, None) \<and> u \<noteq> t) \<or> logged jobs (is_log y') k r"
      using new [OF k(3)] prune_okD(2) [OF inv'(3) old k(1,2)] older ut by blast
  qed
  moreover have "rows_ok jobs rows y'"
    unfolding rows_ok_def
  proof (intro allI impI)
    fix k r assume k: "ce_row (is_cells y' k) = Some r"
    show "slot r = k \<and> (\<forall>u. rp_node (jobs u) = fst k \<longrightarrow> d_orgId r = rp_org (jobs u))
     \<and> (row_at slot rows k = Some r \<or> logged jobs (is_log y') k r)"
      using new [OF k]
    proof (elim disjE conjE)
      assume "ce_row (is_cells y k) = Some r"
      then show ?thesis using inv'(4) older unfolding rows_ok_def by blast
    next
      assume c: "ce_claim (is_cells y k) = Some (t, Some r)" and l: "logged jobs (is_log y') k r"
      have "rp_org (jobs t) = rp_org (jobs u)" if "rp_node (jobs u) = fst k" for u
        using fit that claim_okD(2) [OF inv'(1) c] unfolding reports_fit_def by metis
      then show ?thesis using claim_okD(4) [OF inv'(1) c refl] l by metis
    qed
  qed
  moreover have "log_ok jobs y'"
    unfolding log_ok_def
  proof (intro allI impI)
    fix nid u assume u: "last_committed jobs nid (is_log y') = Some u"
    show "shows_report jobs (is_log y') (is_cells y') u"
    proof (cases "rp_node (jobs t) = nid")
      case True
      then have [simp]: "u = t" using u by (simp add: last_committed_def log)
      have "case last_report lid (rp_devices (jobs t)) of
       Some x \<Rightarrow> \<exists>r. ce_row (is_cells y' (rp_node (jobs t), lid)) = Some r \<and> device_facts r = reported_facts x
     | None \<Rightarrow> \<forall>r. ce_row (is_cells y' (rp_node (jobs t), lid)) = Some r \<longrightarrow> logged jobs (is_log y') (rp_node (jobs t), lid) r"
        (is "case _ of Some x \<Rightarrow> ?Some x | None \<Rightarrow> ?None") for lid
      proof (cases "last_report lid (rp_devices (jobs t))")
        case None
        then have "snd (rp_node (jobs t), lid) \<notin> set (keep (jobs t))" by (simp add: last_report_None)
        then have ?None
          using new [of "(rp_node (jobs t), lid)"] prune_okD(2) [OF inv'(3) t, of "(rp_node (jobs t), lid)"] older by force
        then show ?thesis by (simp only: None option.case)
      next
        case (Some x)
        then have "sent_upto (progress (jobs t) (is_phase y t)) lid (jobs t) \<noteq> None" by (simp add: full)
        from sent_okD [OF inv'(2) live this]
        obtain r where r: "ce_claim (is_cells y (rp_node (jobs t), lid)) = Some (t, Some r)" .
        have "device_facts r = reported_facts x" using claim_okD(4) [OF inv'(1) r refl] Some by (simp add: full)
        moreover have "ce_row (is_cells y' (rp_node (jobs t), lid)) = Some r" by (simp add: rows seen_def r)
        ultimately show ?thesis unfolding Some option.case by blast
      qed
      then show ?thesis by (simp add: shows_report_def)
    next
      case False
      then have old: "last_committed jobs nid (is_log y) = Some u" using u by (simp add: last_committed_def log)
      then have nid: "rp_node (jobs u) = nid" by (auto simp: last_committed_def find_Some_iff)
      have same: "ce_row (is_cells y' (nid, lid)) = ce_row (is_cells y (nid, lid))" for lid
      proof -
        have "ce_claim (is_cells y (nid, lid)) \<noteq> Some (t, v)" for v
          using claim_okD(2) [OF inv'(1), of "(nid, lid)" t v] False by auto
        then show ?thesis by (auto simp: rows seen_def split: option.split)
      qed
      have "shows_report jobs (is_log y) (is_cells y) u" using inv'(5) old unfolding log_ok_def by blast
      then show ?thesis
        unfolding shows_report_def nid same using older by (fastforce split: option.splits)
    qed
  qed
  ultimately show ?thesis by (simp add: iso_inv_def)
qed

lemma iso_step_inv:
  assumes "reports_fit jobs rows" and "iso_inv jobs rows y" and "iso_step jobs t y y'"
  shows "iso_inv jobs rows y'"
  using assms(3)
proof (cases rule: iso_step.cases)
  case (iso_upsert m row)
  then show ?thesis using upsert_inv [OF assms(2), of t m y'] by simp
next
  case (iso_delete m)
  then show ?thesis using delete_inv [OF assms(2), of t m y'] by simp
next
  case (iso_visit K k i)
  then show ?thesis using visit_inv [OF assms(2), of t K k i y'] by simp
next
  case iso_commit
  then show ?thesis using commit_inv [OF assms(1,2), of t y'] by simp
next
  case iso_rollback
  then show ?thesis using rollback_inv [OF assms(2), of t y'] by (simp add: ended_def)
qed

abbreviation iso_reach :: "(nat \<Rightarrow> report) \<Rightarrow> iso \<Rightarrow> iso \<Rightarrow> bool" where
  "iso_reach jobs \<equiv> (\<lambda>y y'. \<exists>t. iso_step jobs t y y')\<^sup>*\<^sup>*"

interpretation overlap: invariant_system "\<lambda>y. y = iso_start rows \<and> reports_fit jobs rows"
    "\<lambda>y y'. \<exists>t. iso_step jobs t y y'" "\<lambda>y. reports_fit jobs rows \<and> iso_inv jobs rows y" for jobs rows
  by unfold_locales (auto intro: iso_start_inv iso_step_inv)

section \<open>Alone, a transaction is the handler\<close>

text \<open>What a transaction sees after \<open>m\<close> devices.\<close>

definition entry_upto :: "report \<Rightarrow> device_row list \<Rightarrow> nat \<Rightarrow> slot_key \<Rightarrow> device_row option" where
  "entry_upto j rows m k = devices_by_slot.entry_after (report_row (rp_fresh j) (rp_created j) (rp_org j) (rp_node j)) report_set k
     (take m (enumerate 0 (known_devices (rp_devices j)))) (row_at slot rows k)"

lemma entry_upto_Suc:
  assumes "m < length (known_devices (rp_devices j))"
  shows "entry_upto j rows (Suc m) k =
    (if k = slot (report_new j m) then Some (case entry_upto j rows m k of None \<Rightarrow> report_new j m | Some r \<Rightarrow> report_facts j m r)
     else entry_upto j rows m k)"
proof -
  let ?xs = "enumerate 0 (known_devices (rp_devices j))"
  have x: "take (Suc m) ?xs = take m ?xs @ [(m, known_devices (rp_devices j) ! m)]"
    using assms by (simp add: take_Suc_conv_app_nth nth_enumerate_eq)
  have "report_row (rp_fresh j) (rp_created j) (rp_org j) (rp_node j) (m, known_devices (rp_devices j) ! m) = report_new j m"
    "report_set (m, known_devices (rp_devices j) ! m) = report_facts j m"
    by (simp_all add: report_new_def report_facts_def)
  then show ?thesis by (simp only: entry_upto_def x devices_by_slot.entry_after_snoc)
qed

lemma entry_upto_key:
  assumes "m \<le> length (known_devices (rp_devices j))" and "entry_upto j rows m k = Some r"
    and "\<forall>d \<in> set rows. d_nodeId d = rp_node j \<longrightarrow> d_orgId d = rp_org j"
  shows "slot r = k \<and> (fst k = rp_node j \<longrightarrow> d_orgId r = rp_org j)"
  using assms(1,2)
proof (induction m arbitrary: r)
  case 0
  then have "row_at slot rows k = Some r" by (simp add: entry_upto_def devices_by_slot.entry_after_def)
  from row_at_key [OF this] have "slot r = k" "r \<in> set rows" by simp_all
  then show ?case using assms(3) by (metis fst_conv)
next
  case (Suc m)
  then show ?case by (auto simp: entry_upto_Suc split: if_splits option.splits)
qed

lemma entry_upto_finite:
  "m \<le> length (known_devices (rp_devices j)) \<Longrightarrow> finite {k. entry_upto j rows m k \<noteq> None}"
proof (induction m)
  case 0
  have "{k. entry_upto j rows 0 k \<noteq> None} \<subseteq> slot ` set rows"
    unfolding entry_upto_def devices_by_slot.entry_after_def take_0 fold_Nil id_apply row_at_None by blast
  then show ?case using finite_surj by blast
next
  case (Suc m)
  have "{k. entry_upto j rows (Suc m) k \<noteq> None} \<subseteq> insert (slot (report_new j m)) {k. entry_upto j rows m k \<noteq> None}"
    using Suc.prems by (auto simp: entry_upto_Suc split: if_splits)
  then show ?case using Suc finite_subset by (metis Suc_leD finite_insert)
qed

text \<open>Nobody else holds a cell.\<close>

definition undisturbed :: "nat \<Rightarrow> iso \<Rightarrow> bool" where
  "undisturbed t y \<longleftrightarrow> (\<forall>k. \<not> taken t (is_cells y k))"

lemma undisturbedD: "undisturbed t y \<Longrightarrow> \<not> taken t (is_cells y k)"
  unfolding undisturbed_def by blast

lemma taken_written [simp]:
  "taken t (upsert_cell t row g c) = False" "\<not> taken t c \<Longrightarrow> \<not> taken t (delete_cell t i c)"
  by (auto simp: taken_def upsert_cell_def delete_cell_def split: option.split)

lemma undisturbed_write:
  assumes "undisturbed t y" and "\<not> taken t c"
  shows "undisturbed t (y\<lparr>is_cells := (is_cells y)(k := c), is_phase := p\<rparr>)"
  unfolding undisturbed_def
proof
  fix k'
  show "\<not> taken t (is_cells (y\<lparr>is_cells := (is_cells y)(k := c), is_phase := p\<rparr>) k')"
    using undisturbedD [OF assms(1), of k'] assms(2) by (cases "k' = k") simp_all
qed

lemma seen_upsert: "seen t (upsert_cell t row g c) = Some (case seen t c of None \<Rightarrow> row | Some r \<Rightarrow> g r)"
  by (simp add: upsert_cell_def seen_def)

lemma loop_alone:
  assumes "m \<le> length (known_devices (rp_devices (jobs t)))"
  shows "\<exists>y. (iso_step jobs t)\<^sup>*\<^sup>* (iso_start rows) y \<and> is_phase y t = Loop m \<and> undisturbed t y
     \<and> (\<forall>k. seen t (is_cells y k) = entry_upto (jobs t) rows m k)"
  using assms
proof (induction m)
  case 0
  have "seen t (is_cells (iso_start rows) k) = entry_upto (jobs t) rows 0 k" for k
    by (simp add: iso_start_def seen_def entry_upto_def devices_by_slot.entry_after_def)
  then show ?case
    by (intro exI [of _ "iso_start rows"]) (simp add: undisturbed_def iso_start_def taken_def)
next
  case (Suc m)
  then obtain y where y: "(iso_step jobs t)\<^sup>*\<^sup>* (iso_start rows) y" "is_phase y t = Loop m" "undisturbed t y"
    "\<And>k. seen t (is_cells y k) = entry_upto (jobs t) rows m k" by auto
  let ?row = "report_new (jobs t) m"
  let ?y = "y\<lparr>is_cells := (is_cells y)(slot ?row := upsert_cell t ?row (report_facts (jobs t) m) (is_cells y (slot ?row))),
        is_phase := (is_phase y)(t := Loop (Suc m))\<rparr>"
  have m: "m < length (known_devices (rp_devices (jobs t)))" using Suc.prems by simp
  have "iso_step jobs t y ?y"
    using iso_upsert [where jobs = jobs and y = y and t = t and m = m and row = ?row, OF y(2) m refl undisturbedD [OF y(3)]] .
  moreover have "undisturbed t ?y" using y(3) by (simp add: undisturbed_def)
  moreover have "seen t (is_cells ?y k) = entry_upto (jobs t) rows (Suc m) k" for k
    by (simp add: entry_upto_Suc [OF m] y(4) seen_upsert)
  ultimately show ?case using y(1) by (intro exI [of _ ?y]) (auto intro: rtranclp.rtrancl_into_rtrancl)
qed

lemma visits_alone:
  assumes "finite K" and "is_phase y t = Pruning K" and "undisturbed t y"
    and "\<And>k i. (k, i) \<in> K \<Longrightarrow> \<exists>r. seen t (is_cells y k) = Some r \<and> d_id r = i"
  shows "\<exists>y'. (iso_step jobs t)\<^sup>*\<^sup>* y y' \<and> is_phase y' t = Pruning {} \<and> undisturbed t y'
     \<and> (\<forall>k. seen t (is_cells y' k) = (if k \<in> fst ` K then None else seen t (is_cells y k)))"
  using assms
proof (induction K arbitrary: y)
  case empty
  then show ?case by (intro exI [of _ y]) simp
next
  case (insert p F)
  obtain k i where p: "p = (k, i)" by (cases p)
  obtain r where r: "seen t (is_cells y k) = Some r" "d_id r = i" using insert.prems(3) p by blast
  have F: "insert p F - {(k, i)} = F" using insert.hyps p by blast
  let ?y = "y\<lparr>is_cells := (is_cells y)(k := delete_cell t i (is_cells y k)), is_phase := (is_phase y)(t := Pruning F)\<rparr>"
  have "iso_step jobs t y ?y"
    using iso_visit [OF insert.prems(1) _ undisturbedD [OF insert.prems(2)], of k i jobs] F by (simp add: p)
  have kF: "k \<notin> fst ` F" using insert.prems(3) r insert.hyps(2) p by force
  have seen: "seen t (is_cells ?y k') = (if k' = k then None else seen t (is_cells y k'))" for k'
    using r by (simp add: delete_cell_def) (simp add: seen_def)
  have "undisturbed t ?y"
    using insert.prems(2) undisturbedD [OF insert.prems(2), of k] by (intro undisturbed_write) simp_all
  moreover have "\<exists>r. seen t (is_cells ?y k') = Some r \<and> d_id r = i'" if "(k', i') \<in> F" for k' i'
    using insert.prems(3) [of k' i'] that kF unfolding seen by force
  ultimately obtain y' where y': "(iso_step jobs t)\<^sup>*\<^sup>* ?y y'" "is_phase y' t = Pruning {}" "undisturbed t y'"
    "\<And>k. seen t (is_cells y' k) = (if k \<in> fst ` F then None else seen t (is_cells ?y k))"
    using insert.IH [of ?y] by auto
  have "seen t (is_cells y' k') = (if k' \<in> fst ` insert p F then None else seen t (is_cells y k'))" for k'
    using y'(4) [of k'] unfolding seen by (simp add: p)
  then show ?case
    using y' \<open>iso_step jobs t y ?y\<close> by (intro exI [of _ y']) (auto intro: converse_rtranclp_into_rtranclp)
qed

lemma delete_alone:
  assumes "reports_fit jobs rows" and "y = iso_start rows"
    and "n = length (known_devices (rp_devices (jobs t)))"
  shows "\<exists>y'. (iso_step jobs t)\<^sup>*\<^sup>* y y' \<and> is_phase y' t = Committed
     \<and> (\<forall>k. ce_row (is_cells y' k) = (if fst k = rp_node (jobs t) \<and> snd k \<notin> set (keep (jobs t)) then None
          else entry_upto (jobs t) rows n k))"
proof -
  let ?j = "jobs t"
  obtain y1 where y1: "(iso_step jobs t)\<^sup>*\<^sup>* y y1" "is_phase y1 t = Loop n" "undisturbed t y1"
    "\<And>k. seen t (is_cells y1 k) = entry_upto ?j rows n k"
    using loop_alone [of n jobs t rows] assms(2,3) by blast
  define K where "K = hits t ?j (is_cells y1)"
  let ?y2 = "y1\<lparr>is_phase := (is_phase y1)(t := Pruning K)\<rparr>"
  have s2: "iso_step jobs t y1 ?y2" unfolding K_def
    using iso_delete [where jobs = jobs and y = y1 and t = t and m = n, OF y1(2) assms(3)] .
  have org: "\<forall>d \<in> set rows. d_nodeId d = rp_node ?j \<longrightarrow> d_orgId d = rp_org ?j"
    using assms(1) unfolding reports_fit_def by blast
  have key: "d_nodeId r = fst k \<and> d_localId r = snd k \<and> (fst k = rp_node ?j \<longrightarrow> d_orgId r = rp_org ?j)"
    if e: "entry_upto ?j rows n k = Some r" for k r
  proof -
    have "n \<le> length (known_devices (rp_devices ?j))" using assms(3) by simp
    from entry_upto_key [OF this e org] show ?thesis by (cases k) simp
  qed
  have K: "(k, i) \<in> K \<longleftrightarrow> (\<exists>r. entry_upto ?j rows n k = Some r \<and> i = d_id r
      \<and> fst k = rp_node ?j \<and> snd k \<notin> set (keep ?j))" for k i
  proof -
    have "(k, i) \<in> K \<longleftrightarrow> (\<exists>r. entry_upto ?j rows n k = Some r \<and> i = d_id r
        \<and> d_orgId r = rp_org ?j \<and> d_nodeId r = rp_node ?j \<and> d_localId r \<notin> set (keep ?j))"
      unfolding K_def hits_def y1(4) mem_Collect_eq prod.inject by blast
    then show ?thesis using key [of k] by metis
  qed
  have "K \<subseteq> (\<lambda>k. (k, d_id (the (entry_upto ?j rows n k)))) ` {k. entry_upto ?j rows n k \<noteq> None}"
    using K by force
  then have "finite K" using entry_upto_finite [of n ?j rows] assms(3) finite_surj by blast
  moreover have "undisturbed t ?y2" using y1(3) by (simp add: undisturbed_def)
  moreover have "\<exists>r. seen t (is_cells ?y2 k) = Some r \<and> d_id r = i" if "(k, i) \<in> K" for k i
    using that K y1(4) by auto
  ultimately obtain y3 where y3: "(iso_step jobs t)\<^sup>*\<^sup>* ?y2 y3" "is_phase y3 t = Pruning {}"
    "\<And>k. seen t (is_cells y3 k) = (if k \<in> fst ` K then None else seen t (is_cells ?y2 k))"
    using visits_alone [of K ?y2 t jobs] by auto
  let ?y4 = "y3\<lparr>is_cells := settle t \<circ> is_cells y3, is_phase := (is_phase y3)(t := Committed), is_log := t # is_log y3\<rparr>"
  have "iso_step jobs t y3 ?y4" by (rule iso_commit [OF y3(2)])
  then have "(iso_step jobs t)\<^sup>*\<^sup>* y ?y4"
    using y1(1) s2 y3(1) by (meson converse_rtranclp_into_rtranclp rtranclp.rtrancl_into_rtrancl rtranclp_trans)
  moreover have "ce_row (is_cells ?y4 k) = (if fst k = rp_node ?j \<and> snd k \<notin> set (keep ?j) then None
          else entry_upto ?j rows n k)" for k
  proof -
    have "k \<in> fst ` K \<longleftrightarrow> entry_upto ?j rows n k \<noteq> None \<and> fst k = rp_node ?j \<and> snd k \<notin> set (keep ?j)"
    proof -
      have "k \<in> fst ` K \<longleftrightarrow> (\<exists>i. (k, i) \<in> K)" by force
      then show ?thesis unfolding K by blast
    qed
    then show ?thesis using y3(3) [of k] y1(4) [of k] by (auto simp: settle_row)
  qed
  ultimately show ?thesis by (intro exI [of _ ?y4]) simp
qed

text \<open>Cut into its statements and run alone, the transaction ends and stores what the handler
  stores: whenever \<open>recordInventory\<close> succeeds on a well-formed database in which the node is the
  organization's, the statements of the report, starting from the same devices, commit, and leave under
  every key the row that the handler leaves there.\<close>

theorem inventory_alone:
  assumes "wf_db s" and "owns orgId (toLowerCase nodeId) s"
    and "recordInventory fresh created orgId nodeId reported s = (Inr u, s')"
    and "reports_fit jobs (t_devices s)"
    and "jobs t = \<lparr>rp_fresh = fresh, rp_created = created, rp_org = orgId, rp_node = toLowerCase nodeId, rp_devices = reported\<rparr>"
  shows "\<exists>y. (iso_step jobs t)\<^sup>*\<^sup>* (iso_start (t_devices s)) y \<and> is_phase y t = Committed
     \<and> (\<forall>k. ce_row (is_cells y k) = row_at slot (t_devices s') k)"
proof -
  obtain y where y: "(iso_step jobs t)\<^sup>*\<^sup>* (iso_start (t_devices s)) y" "is_phase y t = Committed"
    "\<And>k. ce_row (is_cells y k) = (if fst k = rp_node (jobs t) \<and> snd k \<notin> set (keep (jobs t)) then None
          else entry_upto (jobs t) (t_devices s) (length (known_devices (rp_devices (jobs t)))) k)"
    using delete_alone [OF assms(4) refl refl, of t] by blast
  have "ce_row (is_cells y (nid, lid)) = row_at slot (t_devices s') (nid, lid)" for nid lid
  proof -
    have "lid \<notin> set (keep (jobs t)) \<longleftrightarrow> last_report lid reported = None"
      using last_report_None [of lid "jobs t"] by (simp add: assms(5))
    then show ?thesis
      unfolding inventory_entries [OF assms(1-3)] y(3) entry_upto_def by (simp add: assms(5))
  qed
  then show ?thesis using y(1,2) by (intro exI [of _ y]) simp
qed

section \<open>Reports that overlap\<close>

text \<open>(C8) However any number of inventory reports of any nodes overlap, statement by statement, some of
  them rolled back: every stored device was there from the start or holds what a committed report of
  its node last said of it; and once a report of a node has committed after all others of that node,
  every device it names is stored with the facts it gave, and any other stored device of the node is
  one that another committed report named.\<close>

theorem overlapping_reports:
  assumes "reports_fit jobs rows" and "(\<lambda>y y'. \<exists>t. iso_step jobs t y y')\<^sup>*\<^sup>* (iso_start rows) y"
  shows "(\<forall>k r. ce_row (is_cells y k) = Some r \<longrightarrow> slot r = k \<and> (row_at slot rows k = Some r \<or> logged jobs (is_log y) k r))
     \<and> (\<forall>nid t. last_committed jobs nid (is_log y) = Some t \<longrightarrow> (\<forall>lid.
          case last_report lid (rp_devices (jobs t)) of
            Some x \<Rightarrow> \<exists>r. ce_row (is_cells y (rp_node (jobs t), lid)) = Some r \<and> device_facts r = reported_facts x
          | None \<Rightarrow> \<forall>r. ce_row (is_cells y (rp_node (jobs t), lid)) = Some r \<longrightarrow> logged jobs (is_log y) (rp_node (jobs t), lid) r))"
proof -
  have "iso_inv jobs rows y" using overlap.reachable_inv [OF assms(2), of rows] assms(1) by blast
  then have "rows_ok jobs rows y" "log_ok jobs y" by (simp_all add: iso_inv_def)
  then show ?thesis unfolding rows_ok_def log_ok_def shows_report_def by blast
qed

section \<open>Two reports at once\<close>

text \<open>Two reports of one node, each of one device, the first as \<open>cuda:0\<close>, the second as \<open>cuda:1\<close>.\<close>

definition moved_device :: "string \<Rightarrow> device" where
  "moved_device lid = (demo_report ! 0)\<lparr>dev_localId := lid\<rparr>"

definition overlap_jobs :: "nat \<Rightarrow> report" where
  "overlap_jobs t = \<lparr>rp_fresh = (\<lambda>_. if t = 2 then ''d2'' else ''d3''), rp_created = 0, rp_org = ''org_a'',
     rp_node = demo_id, rp_devices = [moved_device (if t = 2 then ''cuda:0'' else ''cuda:1'')]\<rparr>"

lemma moved_known: "known_devices [moved_device lid] = [(moved_device lid, ''cuda'')]" "dev_localId (moved_device lid) = lid"
  by (simp_all add: known_devices_def moved_device_def demo_report_def kindName_eq)

lemma overlap_keep: "keep (overlap_jobs t) = [if t = 2 then ''cuda:0'' else ''cuda:1'']"
  by (simp add: keep_def overlap_jobs_def moved_known)

definition overlap_row :: "nat \<Rightarrow> device_row" where
  "overlap_row t = report_new (overlap_jobs t) 0"

lemma overlap_slot [simp]: "d_nodeId (overlap_row t) = demo_id" "d_localId (overlap_row t) = (if t = 2 then ''cuda:0'' else ''cuda:1'')"
  by (simp_all add: overlap_row_def) (simp_all add: overlap_jobs_def moved_known)

lemma overlap_fit: "reports_fit overlap_jobs []"
  by (simp add: reports_fit_def overlap_jobs_def)

text \<open>Both have inserted their row, neither has committed.\<close>

definition overlap_cells :: "slot_key \<Rightarrow> cell" where
  "overlap_cells = (\<lambda>k. \<lparr>ce_row = None, ce_claim =
     (if k = slot (overlap_row 3) then Some (3, Some (overlap_row 3))
      else if k = slot (overlap_row 2) then Some (2, Some (overlap_row 2)) else None)\<rparr>)"

lemma overlap_hits: "hits 2 (overlap_jobs 2) overlap_cells = {}" "hits 3 (overlap_jobs 3) overlap_cells = {}"
  by (auto simp: hits_def overlap_cells_def seen_def overlap_keep split: if_splits)

lemma overlap_path:
  "\<exists>y. iso_reach overlap_jobs (iso_start []) y \<and> is_log y = [3, 2]
     \<and> (\<forall>t \<in> {2, 3}. ce_row (is_cells y (demo_id, if t = 2 then ''cuda:0'' else ''cuda:1'')) = Some (overlap_row t))"
proof -
  have one: "length (known_devices (rp_devices (overlap_jobs t))) = Suc 0" for t
    by (simp add: overlap_jobs_def moved_known)
  let ?up = "\<lambda>t y. y\<lparr>is_cells := (is_cells y)(slot (overlap_row t) :=
        upsert_cell t (overlap_row t) (report_facts (overlap_jobs t) 0) (is_cells y (slot (overlap_row t)))),
      is_phase := (is_phase y)(t := Loop (Suc 0))\<rparr>"
  have up: "iso_step overlap_jobs t y (?up t y)" if "is_phase y t = Loop 0" "\<not> taken t (is_cells y (slot (overlap_row t)))" for t y
    using iso_upsert [where jobs = overlap_jobs and y = y and t = t and m = 0 and row = "overlap_row t", OF that(1) _ _ that(2)] one
    by (simp add: overlap_row_def)
  have del: "iso_step overlap_jobs t y (y\<lparr>is_phase := (is_phase y)(t := Pruning (hits t (overlap_jobs t) (is_cells y)))\<rparr>)"
    if "is_phase y t = Loop (Suc 0)" for t y
    using iso_delete [where jobs = overlap_jobs and y = y and t = t, OF that] one by simp
  define y0 y1 y2 where "y0 = iso_start []" and "y1 = ?up 2 y0" and "y2 = ?up 3 y1"
  define y3 where "y3 = y2\<lparr>is_phase := (is_phase y2)(2 := Pruning {})\<rparr>"
  define y4 where "y4 = y3\<lparr>is_phase := (is_phase y3)(3 := Pruning {})\<rparr>"
  define y5 where "y5 = y4\<lparr>is_cells := settle 2 \<circ> is_cells y4, is_phase := (is_phase y4)(2 := Committed), is_log := 2 # is_log y4\<rparr>"
  define y6 where "y6 = y5\<lparr>is_cells := settle 3 \<circ> is_cells y5, is_phase := (is_phase y5)(3 := Committed), is_log := 3 # is_log y5\<rparr>"
  have c2: "is_cells y2 = overlap_cells"
    by (auto simp: fun_eq_iff y2_def y1_def y0_def iso_start_def overlap_cells_def upsert_cell_def seen_def row_at_def)
  have "iso_step overlap_jobs 2 y0 y1"
    unfolding y1_def by (rule up) (simp_all add: y0_def iso_start_def taken_def)
  moreover have "iso_step overlap_jobs 3 y1 y2"
    unfolding y2_def by (rule up) (simp_all add: y1_def y0_def iso_start_def taken_def)
  moreover have "iso_step overlap_jobs 2 y2 y3"
    using del [of y2 2] by (simp add: y3_def c2 overlap_hits) (simp add: y2_def y1_def)
  moreover have "iso_step overlap_jobs 3 y3 y4"
    using del [of y3 3] by (simp add: y4_def y3_def c2 overlap_hits) (simp add: y2_def)
  moreover have "iso_step overlap_jobs 2 y4 y5"
    unfolding y5_def by (rule iso_commit) (simp add: y4_def y3_def)
  moreover have "iso_step overlap_jobs 3 y5 y6"
    unfolding y6_def by (rule iso_commit) (simp add: y5_def y4_def)
  ultimately have "iso_reach overlap_jobs (iso_start []) y6"
    unfolding y0_def by (blast intro: converse_rtranclp_into_rtranclp)
  moreover have "is_log y6 = [3, 2]"
    by (simp add: y6_def y5_def y4_def y3_def y2_def y1_def y0_def iso_start_def)
  moreover have "is_cells y6 = settle 3 \<circ> (settle 2 \<circ> overlap_cells)"
    by (simp add: y6_def y5_def y4_def y3_def c2)
  then have "\<forall>t \<in> {2, 3}. ce_row (is_cells y6 (demo_id, if t = 2 then ''cuda:0'' else ''cuda:1'')) = Some (overlap_row t)"
    by (simp add: overlap_cells_def settle_def)
  ultimately show ?thesis by blast
qed

text \<open>What \<open>overlapping_reports\<close> leaves open does occur: when two reports of one node overlap,
  each inserting its device before the other commits, neither delete sees the other's row, and a device
  that the last committed report does not name stays stored.\<close>

theorem overlap_keeps_both:
  "\<exists>y r. iso_reach overlap_jobs (iso_start []) y \<and> is_log y = [3, 2]
     \<and> last_committed overlap_jobs demo_id (is_log y) = Some 3
     \<and> last_report ''cuda:0'' (rp_devices (overlap_jobs 3)) = None
     \<and> ce_row (is_cells y (demo_id, ''cuda:0'')) = Some r"
proof -
  obtain y where "iso_reach overlap_jobs (iso_start []) y" "is_log y = [3, 2]"
    "ce_row (is_cells y (demo_id, ''cuda:0'')) = Some (overlap_row 2)"
    using overlap_path by auto
  moreover have "last_committed overlap_jobs demo_id [3, 2] = Some 3"
    by (simp add: last_committed_def overlap_jobs_def)
  moreover have "last_report ''cuda:0'' (rp_devices (overlap_jobs 3)) = None"
    using last_report_None [of "''cuda:0''" "overlap_jobs 3"] by (simp add: overlap_keep)
  ultimately show ?thesis by metis
qed

theorem overlapping_reports_witness:
  "\<exists>y r. iso_reach overlap_jobs (iso_start []) y \<and> is_log y = [3, 2] \<and> ce_row (is_cells y (demo_id, ''cuda:1'')) = Some r
     \<and> device_facts r = reported_facts (moved_device ''cuda:1'', ''cuda'')"
proof -
  obtain y where y: "iso_reach overlap_jobs (iso_start []) y" "is_log y = [3, 2]" using overlap_path by blast
  have "last_committed overlap_jobs demo_id [3, 2] = Some 3" "rp_node (overlap_jobs 3) = demo_id"
    by (simp_all add: last_committed_def overlap_jobs_def)
  moreover have "last_report ''cuda:1'' (rp_devices (overlap_jobs 3)) = Some (moved_device ''cuda:1'', ''cuda'')"
    by (simp add: last_report_def overlap_jobs_def moved_known)
  ultimately have "\<exists>r. ce_row (is_cells y (demo_id, ''cuda:1'')) = Some r
      \<and> device_facts r = reported_facts (moved_device ''cuda:1'', ''cuda'')"
    using overlapping_reports [OF overlap_fit y(1)] y(2) by (fastforce split: option.splits)
  with y show ?thesis by blast
qed

theorem inventory_alone_witness:
  "\<exists>s' (y :: iso). recordInventory demo_fresh 7 ''org_a'' demo_id demo_report demo_fleet = (Inr (), s')
     \<and> is_phase y 0 = Committed \<and> (\<forall>k. ce_row (is_cells y k) = row_at slot (t_devices s') k)"
proof -
  let ?jobs = "\<lambda>_ :: nat. \<lparr>rp_fresh = demo_fresh, rp_created = 7, rp_org = ''org_a'', rp_node = toLowerCase demo_id, rp_devices = demo_report\<rparr>"
  obtain s' where s': "recordInventory demo_fresh 7 ''org_a'' demo_id demo_report demo_fleet = (Inr (), s')"
    using inventory_returns [OF demo_ready demo_id_uuid(1) demo_checks] by blast
  have "reports_fit ?jobs (t_devices demo_fleet)"
    by (simp add: reports_fit_def demo_fleet_def demo_device_def)
  then show ?thesis using inventory_alone [OF demo_fleet_wf demo_owns s' _ refl, of 0] s' by blast
qed

end
