(* ===== verification/Separate_Reports.thy ===== *)
theory Separate_Reports
  imports Isolation
begin

text \<open>
  Inventory reports that do not overlap. \<open>Isolation\<close> shows what overlapping transactions of
  \<open>recordInventory\<close> (\<open>domain/nodes.ts\<close>) can leave; here, that overlap of reports of the same node is
  the only reason: a report that runs while no other report of its node does, however it interleaves
  with those of other nodes, leaves exactly its devices.
\<close>

section \<open>A report that has its node to itself\<close>

text \<open>No other transaction holds a row of the report's node.\<close>

definition unheld :: "(nat \<Rightarrow> report) \<Rightarrow> nat \<Rightarrow> iso \<Rightarrow> bool" where
  "unheld jobs t y \<longleftrightarrow> (\<forall>k u v. fst k = rp_node (jobs t) \<longrightarrow> ce_claim (is_cells y k) = Some (u, v) \<longrightarrow> u = t)"

text \<open>A step of the report itself, or of a report of another node.\<close>

definition apart_step :: "(nat \<Rightarrow> report) \<Rightarrow> nat \<Rightarrow> iso \<Rightarrow> iso \<Rightarrow> bool" where
  "apart_step jobs t y y' \<longleftrightarrow> (\<exists>u. (u = t \<or> rp_node (jobs u) \<noteq> rp_node (jobs t)) \<and> iso_step jobs u y y')"

text \<open>What its delete has yet to find, and what it has found in the end.\<close>

definition apart_inv :: "(nat \<Rightarrow> report) \<Rightarrow> nat \<Rightarrow> iso \<Rightarrow> bool" where
  "apart_inv jobs t y \<longleftrightarrow> unheld jobs t y
     \<and> (\<forall>K k r. is_phase y t = Pruning K \<longrightarrow> fst k = rp_node (jobs t) \<longrightarrow> snd k \<notin> set (keep (jobs t)) \<longrightarrow>
          ce_row (is_cells y k) = Some r \<longrightarrow> (k, d_id r) \<in> K \<or> ce_claim (is_cells y k) = Some (t, None))
     \<and> (is_phase y t = Committed \<longrightarrow> last_committed jobs (rp_node (jobs t)) (is_log y) = Some t
          \<and> (\<forall>k. fst k = rp_node (jobs t) \<longrightarrow> snd k \<notin> set (keep (jobs t)) \<longrightarrow> ce_row (is_cells y k) = None))"

lemma settle_other: "(\<And>v. ce_claim c \<noteq> Some (u, v)) \<Longrightarrow> settle u c = c \<and> forget u c = c"
  by (auto simp: settle_def forget_def split: option.split)

text \<open>A report of another node changes no cell of this one.\<close>

lemma other_node_step:
  assumes inv: "iso_inv jobs rows y" and st: "iso_step jobs u y y'" and k: "fst k \<noteq> rp_node (jobs u)"
  shows "is_cells y' k = is_cells y k"
proof -
  have claims: "claim_ok jobs y" and prune: "prune_ok jobs y" using inv by (simp_all add: iso_inv_def)
  have free: "ce_claim (is_cells y k) \<noteq> Some (u, v)" for v using claim_okD(2) [OF claims, of k u v] k by blast
  from st show ?thesis
  proof (cases rule: iso_step.cases)
    case (iso_upsert m row)
    then have "slot row \<noteq> k" using k by auto
    then show ?thesis using iso_upsert by simp
  next
    case (iso_visit K k1 i)
    then have "k1 \<noteq> k" using prune_okD(1) [OF prune iso_visit(2,3)] k by auto
    then show ?thesis using iso_visit by simp
  qed (use settle_other [OF free] in simp_all)
qed

lemma other_step_rest:
  assumes "iso_step jobs u y y'" and "u \<noteq> t"
  shows "is_phase y' t = is_phase y t" and "is_log y' = is_log y \<or> is_log y' = u # is_log y"
  using assms by (cases rule: iso_step.cases; simp)+

lemma apart_other:
  assumes inv: "iso_inv jobs rows y" and A: "apart_inv jobs t y"
    and st: "iso_step jobs u y y'" and u: "rp_node (jobs u) \<noteq> rp_node (jobs t)"
  shows "apart_inv jobs t y'"
proof -
  have cells: "is_cells y' k = is_cells y k" if "fst k = rp_node (jobs t)" for k
    using other_node_step [OF inv st] that u by simp
  have "u \<noteq> t" using u by auto
  then have ph: "is_phase y' t = is_phase y t" and log: "is_log y' = is_log y \<or> is_log y' = u # is_log y"
    using other_step_rest [OF st] by simp_all
  have "last_committed jobs (rp_node (jobs t)) (is_log y') = last_committed jobs (rp_node (jobs t)) (is_log y)"
    using log u by (auto simp: last_committed_def)
  then show ?thesis using A unfolding apart_inv_def unheld_def ph by (auto simp: cells)
qed

text \<open>A row of the node that the report does not name is committed or deleted by the report itself.\<close>

lemma unnamed_cell:
  assumes "claim_ok jobs y" and "unheld jobs t y" and "fst k = rp_node (jobs t)" and "snd k \<notin> set (keep (jobs t))"
  shows "ce_claim (is_cells y k) = None \<or> ce_claim (is_cells y k) = Some (t, None)"
proof (cases "ce_claim (is_cells y k)")
  case (Some c)
  obtain u v where c: "c = (u, v)" by (cases c)
  then have "u = t" using assms(2,3) Some unfolding unheld_def by blast
  then show ?thesis using unsent [OF assms(1,4)] Some c by (cases v) auto
qed simp

lemma apart_own:
  assumes inv: "iso_inv jobs rows y" and A: "apart_inv jobs t y" and st: "iso_step jobs t y y'"
  shows "apart_inv jobs t y'"
proof -
  have claims: "claim_ok jobs y" and rows: "rows_ok jobs rows y" using inv by (simp_all add: iso_inv_def)
  have un: "unheld jobs t y" using A by (simp add: apart_inv_def)
  note cell = unnamed_cell [OF claims un]
  from st show ?thesis
  proof (cases rule: iso_step.cases)
    case (iso_upsert m row)
    have "unheld jobs t y'" using un unfolding unheld_def iso_upsert(1) by (simp add: upsert_cell_def)
    then show ?thesis by (simp add: apart_inv_def iso_upsert(1))
  next
    case (iso_delete m)
    have "(k, d_id r) \<in> hits t (jobs t) (is_cells y) \<or> ce_claim (is_cells y k) = Some (t, None)"
      if k: "fst k = rp_node (jobs t)" "snd k \<notin> set (keep (jobs t))" "ce_row (is_cells y k) = Some r" for k r
      using cell [OF k(1,2)] rows_okD(1,2) [OF rows k(3)] k by (auto simp: hits_def seen_def)
    moreover have "unheld jobs t y'" using un by (simp add: unheld_def iso_delete(1))
    ultimately show ?thesis by (auto simp: apart_inv_def iso_delete(1))
  next
    case (iso_visit K k1 i)
    have pr: "(k, d_id r) \<in> K \<or> ce_claim (is_cells y k) = Some (t, None)"
      if "fst k = rp_node (jobs t)" "snd k \<notin> set (keep (jobs t))" "ce_row (is_cells y k) = Some r" for k r
      using A iso_visit(2) that unfolding apart_inv_def by blast
    have "(k, d_id r) \<in> K - {(k1, i)} \<or> ce_claim (is_cells y' k) = Some (t, None)"
      if k: "fst k = rp_node (jobs t)" "snd k \<notin> set (keep (jobs t))" "ce_row (is_cells y' k) = Some r" for k r
    proof -
      have r: "ce_row (is_cells y k) = Some r" using k(3) by (auto simp: iso_visit(1) split: if_splits)
      show ?thesis using pr [OF k(1,2) r] cell [OF k(1,2)] r
        by (auto simp: iso_visit(1) delete_cell_def seen_def)
    qed
    moreover have "unheld jobs t y'"
      using un unfolding unheld_def iso_visit(1) by (auto simp: delete_cell_def split: option.splits)
    ultimately show ?thesis by (simp add: apart_inv_def iso_visit(1))
  next
    case iso_commit
    have "ce_row (is_cells y' k) = None" if k: "fst k = rp_node (jobs t)" "snd k \<notin> set (keep (jobs t))" for k
    proof (cases "ce_row (is_cells y k)")
      case (Some r)
      then have "ce_claim (is_cells y k) = Some (t, None)" using A iso_commit(2) k unfolding apart_inv_def by blast
      then show ?thesis by (simp add: iso_commit(1) settle_def)
    qed (use cell [OF k] in \<open>auto simp: iso_commit(1) settle_def\<close>)
    moreover have "unheld jobs t y'"
      using un unfolding unheld_def iso_commit(1) by (auto simp: settle_def split: option.splits prod.splits if_splits)
    ultimately show ?thesis by (simp add: apart_inv_def iso_commit(1) last_committed_def)
  next
    case iso_rollback
    have "unheld jobs t y'"
      using un unfolding unheld_def iso_rollback(1) by (auto simp: forget_def split: option.splits prod.splits if_splits)
    then show ?thesis by (simp add: apart_inv_def iso_rollback(1))
  qed
qed

interpretation apart: invariant_system "\<lambda>y. reports_fit jobs rows \<and> iso_inv jobs rows y \<and> apart_inv jobs t y"
    "apart_step jobs t" "\<lambda>y. reports_fit jobs rows \<and> iso_inv jobs rows y \<and> apart_inv jobs t y" for jobs rows t
proof unfold_locales
  fix y y'
  assume y: "reports_fit jobs rows \<and> iso_inv jobs rows y \<and> apart_inv jobs t y" and st: "apart_step jobs t y y'"
  then obtain u where u: "u = t \<or> rp_node (jobs u) \<noteq> rp_node (jobs t)" "iso_step jobs u y y'"
    by (auto simp: apart_step_def)
  moreover have "iso_inv jobs rows y'" using iso_step_inv y u(2) by blast
  ultimately show "reports_fit jobs rows \<and> iso_inv jobs rows y' \<and> apart_inv jobs t y'"
    using y apart_own apart_other by blast
qed

text \<open>(C23) Reports of one node that do not overlap are exact. Whatever happened before, and however reports of
  other nodes interleave: a report that begins when no other transaction holds a row of its node,
  and during which no other report of that node moves, leaves under each local id it names a row
  with the facts it gave last, and under no other local id of its node any row at all, when it
  commits.\<close>

theorem separate_reports_exact:
  assumes "reports_fit jobs rows" and "iso_reach jobs (iso_start rows) y"
    and "is_phase y t = Loop 0" and "unheld jobs t y"
    and "(apart_step jobs t)\<^sup>*\<^sup>* y y'" and "is_phase y' t = Committed"
  shows "case last_report lid (rp_devices (jobs t)) of
       Some x \<Rightarrow> \<exists>r. ce_row (is_cells y' (rp_node (jobs t), lid)) = Some r \<and> device_facts r = reported_facts x
     | None \<Rightarrow> ce_row (is_cells y' (rp_node (jobs t), lid)) = None"
proof -
  have "iso_inv jobs rows y" using overlap.reachable_inv [OF assms(2), of rows] assms(1) by blast
  moreover have "apart_inv jobs t y" using assms(3,4) by (simp add: apart_inv_def)
  ultimately have "iso_inv jobs rows y'" and A: "apart_inv jobs t y'"
    using apart.reachable_inv [OF assms(5), of rows] assms(1) by blast+
  then have "shows_report jobs (is_log y') (is_cells y') t"
    using assms(6) by (auto simp: iso_inv_def log_ok_def apart_inv_def)
  moreover have "ce_row (is_cells y' (rp_node (jobs t), lid)) = None" if "last_report lid (rp_devices (jobs t)) = None"
    using A assms(6) that by (simp add: apart_inv_def last_report_None)
  ultimately show ?thesis unfolding shows_report_def by (force split: option.splits)
qed

text \<open>The node had \<open>cuda:0\<close>, the report names \<open>cuda:1\<close>.\<close>

theorem separate_reports_exact_witness:
  "\<exists>y. (iso_step overlap_jobs 3)\<^sup>*\<^sup>* (iso_start [overlap_row 2]) y \<and> is_phase y 3 = Committed
     \<and> ce_row (is_cells (iso_start [overlap_row 2]) (demo_id, ''cuda:0'')) \<noteq> None
     \<and> ce_row (is_cells y (demo_id, ''cuda:0'')) = None \<and> ce_row (is_cells y (demo_id, ''cuda:1'')) \<noteq> None"
proof -
  let ?start = "iso_start [overlap_row 2]"
  have fit: "reports_fit overlap_jobs [overlap_row 2]"
    by (simp add: reports_fit_def overlap_row_def) (simp add: overlap_jobs_def)
  obtain y where y: "(iso_step overlap_jobs 3)\<^sup>*\<^sup>* ?start y" "is_phase y 3 = Committed"
    using delete_alone [OF fit refl refl, of 3] by blast
  have run: "(apart_step overlap_jobs 3)\<^sup>*\<^sup>* ?start y"
    using y(1) by (rule rtranclp_mono [THEN predicate2D, rotated]) (auto simp: apart_step_def)
  have "is_phase ?start 3 = Loop 0" "unheld overlap_jobs 3 ?start" by (simp_all add: iso_start_def unheld_def)
  note exact = separate_reports_exact [OF fit rtranclp.rtrancl_refl this run y(2)]
  have "last_report ''cuda:0'' (rp_devices (overlap_jobs 3)) = None"
    "last_report ''cuda:1'' (rp_devices (overlap_jobs 3)) \<noteq> None" "rp_node (overlap_jobs 3) = demo_id"
    using last_report_None [of "''cuda:0''" "overlap_jobs 3"] last_report_None [of "''cuda:1''" "overlap_jobs 3"]
    by (simp_all add: overlap_keep) (simp add: overlap_jobs_def)
  then have "ce_row (is_cells y (demo_id, ''cuda:0'')) = None" "ce_row (is_cells y (demo_id, ''cuda:1'')) \<noteq> None"
    using exact [of "''cuda:0''"] exact [of "''cuda:1''"] by auto
  moreover have "ce_row (is_cells ?start (demo_id, ''cuda:0'')) \<noteq> None"
    by (simp add: iso_start_def row_at_def)
  ultimately show ?thesis using y by blast
qed

end
