(* ===== verification/Memory_Exact.thy ===== *)
theory Memory_Exact
  imports Memory
begin

text \<open>
  The documented budget in integers. The code takes percentages of the memory in floating point, by
  multiplying with the double nearest to a decimal fraction and rounding the product; for devices
  of up to \<open>2\<^sup>5\<^sup>0\<close> bytes (a pebibyte) both errors vanish in the floor, and the whole of
  \<open>computeBudget\<close> computes what integer arithmetic with exact percentages does. Beyond, a share may
  be one byte off (\<open>share_accuracy\<close>).
\<close>

section \<open>Rounding next to an integer\<close>

lemma rhe_near: "\<bar>y - of_int n\<bar> < 1 / 2 \<Longrightarrow> rhe y = n"
proof -
  assume "\<bar>y - of_int n\<bar> < 1 / 2"
  then have "of_int (rhe y) < (of_int (n + 1) :: rat)" "(of_int (n - 1) :: rat) < of_int (rhe y)"
    using rhe_bounds [of y] unfolding of_int_add of_int_diff of_int_1 by linarith+
  then have "rhe y < n + 1" "n - 1 < rhe y" by (simp_all only: of_int_less_iff)
  then show ?thesis by simp
qed

text \<open>The binade of a number: the power of two that brings it to 53 bits.\<close>

lemma binade:
  fixes x :: rat
  assumes "1 / 2 \<le> x" and "x < 2 ^ 53"
  obtains k where "k \<le> 54" "2 ^ 52 \<le> x * 2 ^ k" "x * 2 ^ k < 2 ^ 53"
proof -
  let ?n = "nat \<lfloor>2 * x\<rfloor>"
  define l where "l = floorlog 2 ?n"
  have f: "1 \<le> \<lfloor>2 * x\<rfloor>" using assms(1) by (simp add: le_floor_iff)
  then have n: "0 < ?n" by simp
  have lo: "2 ^ (l - 1) \<le> ?n" and hi: "?n < 2 ^ l" and pos: "0 < l"
    using floorlog_bounds [OF n, of 2] floorlog_eq_zero_iff [of 2 ?n] n by (auto simp: l_def)
  have "(2 :: int) ^ (l - 1) \<le> \<lfloor>2 * x\<rfloor>" using lo f by (simp add: le_nat_iff)
  then have lo: "(2 :: rat) ^ (l - 1) \<le> 2 * x" by (simp add: le_floor_iff)
  have "\<lfloor>2 * x\<rfloor> < (2 :: int) ^ l" using hi by (metis f nat_less_iff of_nat_numeral of_nat_power order_trans zero_le_one)
  then have hi: "2 * x < 2 ^ l" by (simp add: floor_less_iff)
  have "(2 :: rat) ^ (l - 1) < 2 ^ 54" using lo assms(2) by simp
  then have "l - 1 < 54" by (metis one_less_numeral_iff power_less_imp_less_exp semiring_norm(76))
  then have l: "l \<le> 54" by simp
  have e: "x * 2 ^ (54 - l) = 2 * x * 2 ^ (53 - (l - 1)) / 2"
    using l pos by (simp add: Suc_diff_le flip: power_Suc)
  show ?thesis
  proof (rule that [of "54 - l"])
    have "(2 :: rat) ^ 53 = 2 ^ (l - 1) * 2 ^ (53 - (l - 1))" using l by (simp flip: power_add)
    also have "\<dots> \<le> 2 * x * 2 ^ (53 - (l - 1))" using lo by (intro mult_right_mono) simp_all
    finally show "2 ^ 52 \<le> x * 2 ^ (54 - l)" by (simp add: e)
    have "2 * x * 2 ^ (53 - (l - 1)) < 2 ^ l * 2 ^ (53 - (l - 1))" using hi by (intro mult_strict_right_mono) simp_all
    also have "\<dots> = 2 ^ 54" using l pos by (simp flip: power_add)
    finally show "x * 2 ^ (54 - l) < 2 ^ 53" by (simp add: e)
  qed simp
qed

lemma near_bound: "m \<le> x + m * (2 / 5) / 2 ^ 53 \<Longrightarrow> x < 2 ^ 53 \<Longrightarrow> m < 2 ^ 53 * (10 / 9)" for m x :: rat
  by simp

lemma fl_near_int:
  assumes "1 \<le> m" and "m \<le> 2 ^ 52" and "\<bar>x - of_int m\<bar> \<le> of_int m * (2 / 5) / 2 ^ 53"
  shows "fl x = of_int m"
proof -
  have m: "1 \<le> (of_int m :: rat)" "(of_int m :: rat) \<le> 2 ^ 52"
    using assms(1,2) by (simp, metis of_int_le_iff of_int_numeral of_int_power)
  have "of_int m * (2 / 5) / 2 ^ 53 \<le> (1 / 2 :: rat)" using m(2) by simp
  then have d: "\<bar>x - of_int m\<bar> \<le> 1 / 2" using assms(3) by linarith
  then have "1 / 2 \<le> x" "x \<le> 2 ^ 52 + 1 / 2" using m by linarith+
  then have x: "1 / 2 \<le> x" "x < 2 ^ 53" by simp_all
  obtain k where k: "k \<le> 54" "2 ^ 52 \<le> x * 2 ^ k" "x * 2 ^ k < 2 ^ 53" by (rule binade [OF x])
  have "of_int m * 2 ^ k \<le> (x + of_int m * (2 / 5) / 2 ^ 53) * 2 ^ k"
    using assms(3) by (intro mult_right_mono) (linarith, simp)
  also have "\<dots> = x * 2 ^ k + of_int m * 2 ^ k * (2 / 5) / 2 ^ 53" by (simp add: distrib_right)
  finally have mk: "of_int m * 2 ^ k < (2 :: rat) ^ 53 * (10 / 9)" using k(3) by (rule near_bound)
  have "\<bar>x * 2 ^ k - of_int (m * 2 ^ k)\<bar> = \<bar>x - of_int m\<bar> * 2 ^ k"
    by (simp add: abs_mult flip: left_diff_distrib)
  also have "\<dots> \<le> of_int m * (2 / 5) / 2 ^ 53 * 2 ^ k" using assms(3) by (rule mult_right_mono) simp
  also have "\<dots> < 1 / 2" using mk by simp
  finally have "rhe (x * 2 ^ k) = m * 2 ^ k" by (rule rhe_near)
  then show ?thesis using fl_eval [OF k(2,3)] k(1) by simp
qed

section \<open>Exact shares\<close>

text \<open>A number close to one that is not quite the next integer is not rounded up to it.\<close>

lemma fl_below:
  fixes x y d :: rat and q :: int
  assumes d: "0 < d" and q: "0 \<le> q" and y: "y * d + 1 \<le> of_int q * d + d" "y * d \<le> 2 ^ 52"
    and xy: "x \<le> y + y * (2 / 5) / 2 ^ 53"
  shows "fl x < of_int q + 1"
proof (cases "x \<le> 1 / 2")
  case True
  have "fl x \<le> 1 / 2" using fl_mono [OF True] fl_dyadic [of 1 1] by simp
  then show ?thesis using q by (simp add: order_le_less_trans add.commute add_strict_increasing)
next
  case False
  have "x * d \<le> (y + y * (2 / 5) / 2 ^ 53) * d" using xy d by (intro mult_right_mono) linarith+
  moreover have "y * (2 / 5) / 2 ^ 53 * d \<le> 1 / 5" using y(2) by (simp add: mult.commute)
  ultimately have xd: "x * d \<le> y * d + 1 / 5" by (simp only: distrib_right)
  have "(1 :: rat) / 2 ^ 1022 \<le> 1 / 2" by simp
  then have "\<bar>fl x - x\<bar> \<le> x / 2 ^ 53" using False by (intro fl_error) linarith
  then have "fl x * d \<le> (x + x / 2 ^ 53) * d" using d by (intro mult_right_mono) linarith+
  also have "\<dots> = x * d + x * d / 2 ^ 53" by (simp only: distrib_right times_divide_eq_left)
  also have "\<dots> \<le> y * d + 1 / 5 + (2 ^ 52 + 1 / 5) / 2 ^ 53"
  proof (intro add_mono divide_right_mono)
    show "x * d \<le> 2 ^ 52 + 1 / 5" using xd y(2) by linarith
  qed (use xd in simp_all)
  also have "\<dots> < y * d + 1" by simp
  also have "\<dots> \<le> (of_int q + 1) * d" using y(1) by (simp add: distrib_right)
  finally show ?thesis using d by (simp only: mult_less_cancel_right_pos)
qed

text \<open>The floor of a quotient survives an error of the factor and the rounding of the product.\<close>

lemma floor_quotient:
  fixes n d :: int and x :: rat
  assumes d: "0 < d" and n: "0 \<le> n" "n \<le> 2 ^ 52"
    and xy: "\<bar>x - of_int n / of_int d\<bar> \<le> of_int n / of_int d * (2 / 5) / 2 ^ 53"
  shows "\<lfloor>fl x\<rfloor> = n div d"
proof -
  define q r where "q = n div d" and "r = n mod d"
  define y :: rat where "y = of_int n / of_int d"
  have qr: "n = d * q + r" "0 \<le> r" "r < d" "0 \<le> q" using d n(1) by (simp_all add: q_def r_def pos_imp_zdiv_nonneg_iff)
  have "1 * q \<le> d * q" using d qr(4) by (intro mult_right_mono) simp_all
  then have q: "q \<le> 2 ^ 52" using qr(1,2) n(2) by simp
  have d0: "0 < (of_int d :: rat)" using d by simp
  have yd: "y * of_int d = of_int n" using d by (simp add: y_def)
  have "(of_int n :: rat) \<le> of_int (2 ^ 52)" using n(2) by (simp only: of_int_le_iff)
  then have y52: "y * of_int d \<le> 2 ^ 52" by (simp add: yd)
  have nq: "(of_int n :: rat) = of_int d * of_int q + of_int r" unfolding qr(1) by simp
  note xy = xy [folded y_def]
  show ?thesis
  proof (cases "r = 0")
    case True
    then have yq: "y = of_int q" using nq d0 by (simp add: y_def)
    have "fl x = of_int q" if "1 \<le> q" using that xy q unfolding yq by (intro fl_near_int)
    moreover have "fl x = 0" if "q = 0" using xy that unfolding yq by simp
    ultimately show ?thesis using qr(4) by (cases "q = 0") (simp_all add: q_def)
  next
    case False
    then have "(of_int 1 :: rat) \<le> of_int r" "(of_int (r + 1) :: rat) \<le> of_int d"
      using qr(2,3) by (simp_all only: of_int_le_iff)
    then have r: "1 \<le> (of_int r :: rat)" "of_int r + 1 \<le> (of_int d :: rat)" by simp_all
    have "(of_int q + y * (2 / 5) / 2 ^ 53) * of_int d = of_int d * of_int q + y * (2 / 5) / 2 ^ 53 * of_int d"
      unfolding distrib_right by (simp only: mult.commute [of "of_int q"])
    moreover have "y * (2 / 5) / 2 ^ 53 * of_int d \<le> 1 / 5" using y52 by simp
    ultimately have "(of_int q + y * (2 / 5) / 2 ^ 53) * of_int d \<le> y * of_int d" using r(1) yd nq by linarith
    then have "of_int q + y * (2 / 5) / 2 ^ 53 \<le> y" using d0 by (rule mult_right_le_imp_le)
    then have "of_int q \<le> x" using xy by linarith
    then have "of_int q \<le> fl x" using fl_mono [of "of_int q" x] fl_of_int [of q] q qr(4) by simp
    moreover have "fl x < of_int q + 1"
    proof (rule fl_below [OF d0 qr(4) _ y52])
      show "y * of_int d + 1 \<le> of_int q * of_int d + of_int d" using yd nq r(2) by (simp add: mult.commute)
    qed (use xy in linarith)
    ultimately show ?thesis by (simp add: floor_eq_iff q_def)
  qed
qed

lemma share_exact_of:
  fixes t p d :: int and c :: number
  assumes t: "0 \<le> t" "t \<le> 2 ^ 50" and p: "0 < p" "p \<le> 3" and d: "0 < d"
    and c: "\<bar>c - of_int p / of_int d\<bar> \<le> of_int p / of_int d * (2 / 5) / 2 ^ 53"
  shows "share (of_int t) c = of_int (t * p div d)"
proof -
  have "t * p \<le> 2 ^ 50 * 3" using t p by (intro mult_mono) simp_all
  then have n: "0 \<le> t * p" "t * p \<le> 2 ^ 52" using t p by simp_all
  have "\<bar>of_int t * c - of_int (t * p) / of_int d\<bar> = of_int t * \<bar>c - of_int p / of_int d\<bar>"
    using t(1) by (simp add: abs_mult flip: right_diff_distrib times_divide_eq_right)
  also have "\<dots> \<le> of_int t * (of_int p / of_int d * (2 / 5) / 2 ^ 53)" using c t(1) by (intro mult_left_mono) simp_all
  also have "\<dots> = of_int (t * p) / of_int d * (2 / 5) / 2 ^ 53" by simp
  finally have "\<lfloor>fl (of_int t * c)\<rfloor> = t * p div d" by (rule floor_quotient [OF d n])
  then show ?thesis by (simp add: share_def js_mul_def math_floor_def)
qed

text \<open>The percentages of the code, as the doubles they are and as fractions in lowest terms.\<close>

lemma fraction_values:
  "OS_RESERVE_FRAC = 5404319552844595 / 2 ^ 55" "INTERACTIVE_RESERVE_FRAC = 5404319552844595 / 2 ^ 54"
  "METAL_DEFAULT_CEILING_FRAC = 3 / 4"
proof -
  show "OS_RESERVE_FRAC = 5404319552844595 / 2 ^ 55"
    unfolding OS_RESERVE_FRAC_def by (subst fl_eval [of _ 55]) (simp_all add: rhe_def floor_frac_numeral)
  show "INTERACTIVE_RESERVE_FRAC = 5404319552844595 / 2 ^ 54"
    unfolding INTERACTIVE_RESERVE_FRAC_def by (subst fl_eval [of _ 54]) (simp_all add: rhe_def floor_frac_numeral)
  show "METAL_DEFAULT_CEILING_FRAC = 3 / 4"
    using fl_dyadic [of 3 2] by (simp add: METAL_DEFAULT_CEILING_FRAC_def)
qed

lemma share_exact:
  assumes "0 \<le> t" and "t \<le> 2 ^ 50"
  shows "share (of_int t) HEADROOM_FRAC = of_int (t * 8 div 100)"
    and "share (of_int t) OS_RESERVE_FRAC = of_int (t * 15 div 100)"
    and "share (of_int t) INTERACTIVE_RESERVE_FRAC = of_int (t * 30 div 100)"
    and "share (of_int t) METAL_DEFAULT_CEILING_FRAC = of_int (t * 75 div 100)"
proof -
  have lowest: "t * (p * k) div (d * k) = t * p div d" if "k \<noteq> 0" for p k d
    using that by (metis div_mult_mult2 mult.assoc)
  note s = share_exact_of [OF assms]
  show "share (of_int t) HEADROOM_FRAC = of_int (t * 8 div 100)"
    using s [of 2 25 HEADROOM_FRAC] lowest [of 4 2 25] by (simp add: HEADROOM_FRAC_eval)
  show "share (of_int t) OS_RESERVE_FRAC = of_int (t * 15 div 100)"
    using s [of 3 20 OS_RESERVE_FRAC] lowest [of 5 3 20] by (simp add: fraction_values)
  show "share (of_int t) INTERACTIVE_RESERVE_FRAC = of_int (t * 30 div 100)"
    using s [of 3 10 INTERACTIVE_RESERVE_FRAC] lowest [of 10 3 10] by (simp add: fraction_values)
  show "share (of_int t) METAL_DEFAULT_CEILING_FRAC = of_int (t * 75 div 100)"
    using s [of 3 4 METAL_DEFAULT_CEILING_FRAC] lowest [of 25 3 4] by (simp add: fraction_values)
qed

section \<open>The budget in integers\<close>

text \<open>An input of whole byte counts.\<close>

definition int_input ::
  "string \<Rightarrow> int \<Rightarrow> int \<Rightarrow> int \<Rightarrow> int option \<Rightarrow> string option \<Rightarrow> bool option \<Rightarrow> memory_input" where
  "int_input kind tot used managed wired pressure interactive =
     \<lparr>mi_kind = kind, mi_totalBytes = of_int tot, mi_usedBytes = of_int used, mi_managedBytes = of_int managed,
      mi_wiredLimitBytes = map_option of_int wired, mi_pressure = pressure, mi_interactive = interactive\<rparr>"

definition exact_reserve :: "int \<Rightarrow> bool option \<Rightarrow> int" where
  "exact_reserve tot interactive = max (8 * 2 ^ 30) (tot * (if interactive = Some True then 30 else 15) div 100)"

definition exact_headroom :: "string \<Rightarrow> int \<Rightarrow> bool option \<Rightarrow> int" where
  "exact_headroom kind tot interactive =
     (if kind = ''cuda'' then max (512 * 2 ^ 20) (tot * 8 div 100)
      else if kind = ''metal'' then 0 else exact_reserve tot interactive)"

definition exact_ceiling :: "string \<Rightarrow> int \<Rightarrow> int option \<Rightarrow> bool option \<Rightarrow> int" where
  "exact_ceiling kind tot wired interactive =
     (if kind = ''metal''
      then min (case wired of Some w \<Rightarrow> if w > 0 then w else tot * 75 div 100 | None \<Rightarrow> tot * 75 div 100)
             (tot - exact_reserve tot interactive)
      else tot)"

lemma max_of_int: "max (of_int a) (of_int b) = (of_int (max a b) :: rat)"
  by (simp add: max_def)

lemma min_of_int: "min (of_int a) (of_int b) = (of_int (min a b) :: rat)"
  by (simp add: min_def)

lemma exact_reserve_of:
  assumes "0 \<le> tot" and "tot \<le> 2 ^ 50" and "mi_totalBytes i = of_int tot" and "mi_interactive i = interactive"
  shows "os_reserve i = of_int (exact_reserve tot interactive)"
  using share_exact(2,3) [OF assms(1,2)]
  by (simp add: os_reserve_def assms(3,4) exact_reserve_def OS_RESERVE_MIN_BYTES_def flip: max_of_int)

lemma exact_reserve_bounds: "0 \<le> tot \<Longrightarrow> tot \<le> 2 ^ 50 \<Longrightarrow> 0 \<le> exact_reserve tot x \<and> exact_reserve tot x \<le> 2 ^ 52"
  by (auto simp: exact_reserve_def max_def)

lemma exact_limits:
  assumes "0 \<le> tot" and "tot \<le> 2 ^ 50" and "kind \<in> {''cuda'', ''metal'', ''cpu''}"
  shows "kind_limits (int_input kind tot used managed wired pressure interactive)
    = Inr (of_int (exact_headroom kind tot interactive), of_int (exact_ceiling kind tot wired interactive))"
proof -
  let ?i = "int_input kind tot used managed wired pressure interactive"
  have i: "mi_kind ?i = kind" "mi_totalBytes ?i = of_int tot" "mi_wiredLimitBytes ?i = map_option of_int wired"
    "mi_interactive ?i = interactive" by (simp_all add: int_input_def)
  note r = exact_reserve_of [OF assms(1,2) i(2,4)]
  have w: "wired_limit ?i = of_int (case wired of Some w \<Rightarrow> if w > 0 then w else tot * 75 div 100 | None \<Rightarrow> tot * 75 div 100)"
    using share_exact(4) [OF assms(1,2)] unfolding wired_limit_def i by (auto split: option.split)
  have s: "js_sub (of_int tot) (of_int (exact_reserve tot interactive)) = of_int (tot - exact_reserve tot interactive)"
    using exact_reserve_bounds [OF assms(1,2), of interactive] assms(1,2) by (intro js_sub_exact) (simp add: abs_le_iff)
  have h: "max HEADROOM_MIN_BYTES (share (of_int tot) HEADROOM_FRAC) = of_int (max (512 * 2 ^ 20) (tot * 8 div 100))"
    using share_exact(1) [OF assms(1,2)] by (simp add: HEADROOM_MIN_BYTES_def flip: max_of_int)
  show ?thesis
    unfolding kind_limits_def i r w s h exact_headroom_def exact_ceiling_def
    using assms(3) by (auto simp flip: min_of_int)
qed

text \<open>(C40) For devices of up to \<open>2\<^sup>5\<^sup>0\<close> bytes the floating-point arithmetic of the program is exact: with
  all other counts up to \<open>2\<^sup>5\<^sup>3\<close> the budget is the one of integer arithmetic. The headroom of a cuda device
  is the floor of 8 percent, at least 512 MiB; the reserve of the operating system the floor of 15
  percent, of 30 on an interactive machine, at least 8 GiB; metal is limited by the wired limit, or the
  floor of 75 percent, and by the reserve; foreign memory is what is used beyond the managed, within the
  device; and what is available is the ceiling less foreign, managed and headroom, never negative, and
  nothing unless the pressure is normal.\<close>

theorem budget_exact:
  assumes "0 < tot" and "tot \<le> 2 ^ 50" and "0 \<le> used" and "used \<le> 2 ^ 53" and "0 \<le> managed" and "managed \<le> 2 ^ 53"
    and "\<And>w. wired = Some w \<Longrightarrow> 0 \<le> w \<and> w \<le> 2 ^ 53" and "kind \<in> {''cuda'', ''metal'', ''cpu''}"
    and "foreign = max 0 (min (used - managed) tot)"
  shows "computeBudget (int_input kind tot used managed wired pressure interactive) = Inr
    \<lparr>mb_totalBytes = of_int tot, mb_managedBytes = of_int managed, mb_foreignBytes = of_int foreign,
     mb_headroomBytes = of_int (exact_headroom kind tot interactive),
     mb_availableBytes = of_int (if pressure = None \<or> pressure = Some ''normal''
        then max 0 (exact_ceiling kind tot wired interactive - foreign - managed - exact_headroom kind tot interactive)
        else 0),
     mb_schedulable = (pressure = None \<or> pressure = Some ''normal'')\<rparr>"
proof -
  let ?i = "int_input kind tot used managed wired pressure interactive"
  have i: "mi_totalBytes ?i = of_int tot" "mi_managedBytes ?i = of_int managed" "mi_usedBytes ?i = of_int used"
    "mi_pressure ?i = pressure" by (simp_all add: int_input_def)
  have cnt: "byte_count (of_int n)" if "0 \<le> n" "n \<le> 2 ^ 53" for n
  proof -
    have "(of_int n :: rat) \<le> of_int (2 ^ 53)" using that(2) by (simp only: of_int_le_iff)
    then show ?thesis using that(1) by (simp add: byte_count_def)
  qed
  have plain: "plain_input ?i"
    using assms cnt by (auto simp: plain_input_def int_input_def)
  have f: "foreign_of ?i = of_int foreign"
    using foreign_exact [OF plain] unfolding i assms(9) by (simp flip: max_of_int min_of_int)
  note lim = exact_limits [of tot kind used managed wired pressure interactive, OF _ assms(2,8)]
  have "(0 :: rat) < of_int tot" using assms(1) by simp
  then show ?thesis
    using computeBudget_positive [of ?i, OF _ lim] raw_clamped_exact [OF plain lim] assms(1) f
    by (auto simp: i simp flip: max_of_int split: option.split)
qed

text \<open>The device of the first unit test.\<close>

theorem budget_exact_witness:
  "computeBudget (int_input ''cuda'' (24 * 2 ^ 30) (10 * 2 ^ 30) (6 * 2 ^ 30) None None None) = Inr
     \<lparr>mb_totalBytes = 24 * 2 ^ 30, mb_managedBytes = 6 * 2 ^ 30, mb_foreignBytes = 4 * 2 ^ 30,
      mb_headroomBytes = 2061584302, mb_availableBytes = 14 * 2 ^ 30 - 2061584302, mb_schedulable = True\<rparr>"
  using budget_exact [of "24 * 2 ^ 30" "10 * 2 ^ 30" "6 * 2 ^ 30" None "''cuda''" "4 * 2 ^ 30" None None]
  by (simp add: exact_headroom_def exact_ceiling_def)

end
