(* ===== verification/Tenants.thy ===== *)
theory Tenants
  imports Node_Service Fleet_Service
begin

text \<open>
  What the requests of other organizations can do to what a user sees. A request of an organization is
  a pairing code it creates, a message on a connection of one of its nodes, or an enrollment with one
  of its codes; \<open>serve_all\<close> runs any number of them on the database and says for whom each was.
  The reads of \<open>rpc/fleet-service.ts\<close> answer the same before and after them all.
\<close>

section \<open>Requests of an organization\<close>

datatype tenant_request =
    Creates string string string "nat \<Rightarrow> nat" uuid millis millis
  | Sends string string received
  | Enrolls enroll_request uuid millis millis millis

text \<open>The organization a request is served for, none for a refused enrollment, and its effect.\<close>

definition serve_one ::
  "(string \<Rightarrow> string \<Rightarrow> string) \<Rightarrow> string \<Rightarrow> number \<Rightarrow> tenant_request \<Rightarrow> db \<Rightarrow> string option \<times> db" where
  "serve_one hmac pepper ttl q s =
     (case q of
        Creates orgId userId nodeName ri fresh created now \<Rightarrow>
          (Some orgId, snd (mintPairingCode hmac pepper ttl ri fresh created now orgId userId nodeName s))
      | Sends orgId nodeId m \<Rightarrow> (Some orgId, snd (handle_message orgId nodeId m s))
      | Enrolls req fresh created claimed checked \<Rightarrow>
          (case enroll OwnerConn hmac pepper claimed checked fresh created req s of
             (Inl e, s') \<Rightarrow> (None, s') | (Inr resp, s') \<Rightarrow> (Some (ers_orgId resp), s')))"

fun serve_all ::
  "(string \<Rightarrow> string \<Rightarrow> string) \<Rightarrow> string \<Rightarrow> number \<Rightarrow> tenant_request list \<Rightarrow> db \<Rightarrow> string option list \<times> db" where
  "serve_all hmac pepper ttl [] s = ([], s)"
| "serve_all hmac pepper ttl (q # qs) s =
     (case serve_one hmac pepper ttl q s of (org, s1) \<Rightarrow>
        (case serve_all hmac pepper ttl qs s1 of (orgs, s2) \<Rightarrow> (org # orgs, s2)))"

section \<open>What they leave alone\<close>

text \<open>The nodes and devices of an organization.\<close>

definition fleet_rows :: "string \<Rightarrow> db \<Rightarrow> node_row list \<times> device_row list" where
  "fleet_rows org s = (filter (\<lambda>n. n_orgId n = org) (t_nodes s), filter (\<lambda>d. d_orgId d = org) (t_devices s))"

lemma rows_of_inside: "inside org s = inside org s' \<Longrightarrow> fleet_rows org s = fleet_rows org s'"
  by (simp add: inside_eq_iff fleet_rows_def)

lemma rows_framed: "preserves (outside org') m \<Longrightarrow> org \<noteq> org' \<Longrightarrow> fleet_rows org (snd (m s)) = fleet_rows org s"
  using preserves_outside_inside [of org' m org] by (intro rows_of_inside) (auto simp: preserves_def)

lemma redeem_rows: "preserves (fleet_rows org) (redeemPairingCode owner hmac pepper claimed checked code)"
proof -
  have "preserves (fleet_rows org) (on_pairing st)" for st :: "pairing_row list \<Rightarrow> pg_error + pairing_row list \<times> pairing_row list"
    by (auto simp: preserves_def on_table_def fleet_rows_def split: sum.split)
  then show ?thesis
    unfolding redeemPairingCode_def Let_def by (auto intro!: preserves_bind split: option.split)
qed

lemma insert_rows:
  assumes "withOrg org' (\<lambda>tx. op_bind (pg_check c) (\<lambda>_. insert_node tx n)) s = (x, s')" and "n_orgId n = org'"
  shows "org \<noteq> org' \<or> isl x \<Longrightarrow> fleet_rows org s' = fleet_rows org s"
  using assms by (cases x) (auto simp: withOrg_def transaction_throw transaction_success insert_node_def bind_check
      fleet_rows_def split: sum.splits if_splits)

lemma new_node_org [simp]: "n_orgId (new_node fresh created orgId nodeName input) = orgId"
  by (simp add: new_node_def Let_def)

lemma enroll_rows:
  assumes "enrollNode OwnerConn hmac pepper claimed checked fresh created input s = (x, s')"
    and "\<And>resp. x = Inr resp \<Longrightarrow> ers_orgId resp \<noteq> org"
  shows "fleet_rows org s' = fleet_rows org s"
proof -
  let ?n = "\<lambda>o1 nm. new_node fresh created o1 nm input"
  let ?ins = "\<lambda>o1 nm. withOrg o1 (\<lambda>tx. op_bind (pg_check (node_columns (?n o1 nm))) (\<lambda>_. insert_node tx (?n o1 nm)))"
  have after: "fleet_rows org t = fleet_rows org s1"
    if st: "op_bind (op_catch (op_bind (?ins o1 nm) (\<lambda>row. op_return (n_id row)))
          (\<lambda>err. if isPublicKeyUniqueViolation err then op_throw (EnrollmentError ALREADY_ENROLLED) else op_throw err))
        (\<lambda>nodeId. op_bind (op_get (\<lambda>s. first_row (filter (\<lambda>o2. o_id o2 = o1) (t_organization s))))
           (\<lambda>o2. op_return \<lparr>ers_nodeId = nodeId, ers_orgId = o1, ers_orgName = (case o2 of Some o3 \<Rightarrow> o_name o3 | None \<Rightarrow> [])\<rparr>)) s1
      = (x, t)" for o1 nm s1 t
  proof -
    obtain y s2 where ins: "?ins o1 nm s1 = (y, s2)" by (cases "?ins o1 nm s1")
    have "t = s2 \<and> (org \<noteq> o1 \<or> isl y)"
    proof (cases y)
      case (Inr row)
      then have "x = Inr \<lparr>ers_nodeId = n_id row, ers_orgId = o1, ers_orgName = (case first_row (filter (\<lambda>o2. o_id o2 = o1)
          (t_organization s2)) of Some o3 \<Rightarrow> o_name o3 | None \<Rightarrow> [])\<rparr> \<and> t = s2"
        using st ins by (auto simp: op_catch_def op_bind_def)
      then show ?thesis using assms(2) by fastforce
    qed (use st ins in \<open>auto simp: op_catch_def op_bind_def split: if_splits\<close>)
    then show ?thesis using insert_rows [OF ins] by simp
  qed
  have red: "fleet_rows org s1 = fleet_rows org s"
    if "redeemPairingCode OwnerConn hmac pepper claimed checked (ei_pairingCode input) s = (y, s1)" for y s1
    using preservesD [OF redeem_rows that] .
  show ?thesis
    using assms(1) unfolding enrollNode_def
    by (auto elim!: op_bind_cases simp: red dest!: after split: if_splits)
qed

lemma serve_one_rows:
  assumes "serve_one hmac pepper ttl q s = (served, s')" and "served \<noteq> Some org"
  shows "fleet_rows org s' = fleet_rows org s"
proof (cases q)
  case (Creates orgId userId nodeName ri fresh created now)
  then have "s' = snd (mintPairingCode hmac pepper ttl ri fresh created now orgId userId nodeName s)" "org \<noteq> orgId"
    using assms by (auto simp: serve_one_def)
  moreover have "preserves (outside orgId) (mintPairingCode hmac pepper ttl ri fresh created now orgId userId nodeName)"
    by (rule mint_scoped.frame)
  ultimately show ?thesis using rows_framed by blast
next
  case (Sends orgId nodeId m)
  then show ?thesis using assms rows_framed [where org = org and org' = orgId, OF frame_message] by (auto simp: serve_one_def)
next
  case (Enrolls req fresh created claimed checked)
  obtain x t where en: "enrollNode OwnerConn hmac pepper claimed checked fresh created (enroll_input_of req) s = (x, t)"
    by (cases "enrollNode OwnerConn hmac pepper claimed checked fresh created (enroll_input_of req) s")
  have "enroll OwnerConn hmac pepper claimed checked fresh created req s = (case x of Inr resp \<Rightarrow> Inr resp
      | Inl e \<Rightarrow> Inl (case e of PairingCodeError m \<Rightarrow> ConnectError m InvalidArgument
           | EnrollmentError m \<Rightarrow> ConnectError m InvalidArgument | _ \<Rightarrow> e), t)"
    using en by (auto simp: enroll_def op_catch_def split: sum.split error.split)
  then show ?thesis using assms enroll_rows [OF en, of org] Enrolls by (auto simp: serve_one_def split: sum.splits)
qed

lemma serve_all_rows:
  "serve_all hmac pepper ttl qs s = (served, s') \<Longrightarrow> Some org \<notin> set served \<Longrightarrow> fleet_rows org s' = fleet_rows org s"
proof (induction qs arbitrary: s served)
  case (Cons q qs)
  then show ?case by (auto split: prod.splits dest: serve_one_rows [where org = org])
qed simp

section \<open>What a user sees\<close>

text \<open>The reads depend on the nodes and devices of the caller's organization only.\<close>

lemma reads_of_rows:
  assumes "fleet_rows org s = fleet_rows org s'"
  shows "fst (list_in collate org s) = fst (list_in collate org s')"
    and "fst (get_in collate nodeId org s) = fst (get_in collate nodeId org s')"
proof -
  let ?bare = "\<lambda>s. s\<lparr>t_pairing := []\<rparr>"
  have eq: "inside org (?bare s) = inside org (?bare s')" using assms by (simp add: inside_eq_iff fleet_rows_def)
  have l: "fst (list_in collate org (?bare s)) = fst (list_in collate org s)" for s
    by (simp add: list_in_def withOrg_def select_nodes_def select_devices_def)
  have g: "fst (get_in collate nodeId org (?bare s)) = fst (get_in collate nodeId org s)" for s
    by (simp add: get_in_def withOrg_def select_devices_def split: option.split)
  show "fst (list_in collate org s) = fst (list_in collate org s')"
    using list_scoped.blind [where collate = collate, OF eq] by (simp only: l)
  show "fst (get_in collate nodeId org s) = fst (get_in collate nodeId org s')"
    using get_scoped.blind [where collate = collate and nodeId = nodeId, OF eq] by (simp only: g)
qed

text \<open>(C17) A user cannot see another organization: what listing or looking up a node answers is the same on
  any two databases that agree on the caller's own nodes and devices; and no sequence of requests
  that are not of the caller's organization, be they new pairing codes, messages of connected nodes or
  enrollments, accepted or refused, changes either answer.\<close>

theorem reads_are_tenant_blind:
  assumes "fleet_rows org s = fleet_rows org s'"
    and "serve_all hmac pepper ttl requests s = (served, t)" and "Some org \<notin> set served"
  shows "fst (list_in collate org s) = fst (list_in collate org s')
     \<and> fst (get_in collate nodeId org s) = fst (get_in collate nodeId org s')
     \<and> fst (list_in collate org t) = fst (list_in collate org s)
     \<and> fst (get_in collate nodeId org t) = fst (get_in collate nodeId org s)"
  using reads_of_rows [OF assms(1)] reads_of_rows [OF serve_all_rows [OF assms(2,3)]] by blast

text \<open>Another organization creates a code and one of its nodes sends a heartbeat.\<close>

definition other_org :: "tenant_request list" where
  "other_org = [Creates ''org_b'' ''bob'' ''mac'' Suc ''c2'' 0 0,
     Sends ''org_b'' demo_id \<lparr>rc_now = 5, rc_fresh = demo_fresh, rc_payload = Samples \<lparr>sb_samples = []\<rparr>\<rparr>]"

theorem reads_are_tenant_blind_witness:
  "fst (list_in by_length ''org_a'' (snd (serve_all demo_hmac [] 900000 other_org demo_fleet)))
     = fst (list_in by_length ''org_a'' demo_fleet)"
proof -
  obtain served t where st: "serve_all demo_hmac [] 900000 other_org demo_fleet = (served, t)"
    by (cases "serve_all demo_hmac [] 900000 other_org demo_fleet")
  then have "Some ''org_a'' \<notin> set served" by (auto simp: other_org_def serve_one_def)
  from reads_are_tenant_blind [where collate = by_length, OF refl st this] st show ?thesis by simp
qed

end
