(* ===== verification/Spec2Isabelle.thy ===== *)
theory Spec2Isabelle
  imports Race End_To_End Fixtures Clients Descriptors Separate_Reports Memory_Exact Tenants
begin

text \<open>
  Model Hub: a verification development of the control plane and its pages.

  \<^bold>\<open>The program.\<close> Agents on an organization's machines report devices and memory to the control
  plane (\<open>apps/control-plane\<close>), which keeps them in Postgres (\<open>packages/db\<close>) and shows them, with
  the memory that work may use (\<open>packages/core\<close>), on the pages of \<open>apps/web\<close>. A machine joins with
  a one-time pairing code minted in the browser; from then on its agent signs every connection with
  its own key. Row-level security keeps organizations apart; a sweeper marks silent machines.

  \<^bold>\<open>Theories and sources.\<close>
  \<^item> \<open>Prelude\<close>: errors as a datatype, \<open>async\<close> functions as state-and-exception operations
    (\<open>('s, 'e, 'a) op\<close>), transactions, invariants of operations (\<open>keeps\<close>, \<open>preserves\<close>), and the locale
    \<open>invariant_system\<close> of a transition system with an invariant.
  \<^item> \<open>Js_Number\<close>, \<open>Js_String\<close>, \<open>Js_Print\<close>: the language. A number is a rational that every operation
    rounds to the nearest double (\<open>fl\<close>); texts are lists of code units up to \<open>U+00FF\<close>; \<open>Number(text)\<close>,
    \<open>toString\<close> with shortest digits, \<open>toFixed\<close>.
  \<^item> \<open>Memory\<close>: \<open>packages/core/src/memory.ts\<close>; \<open>Memory_Exact\<close>: where its rounding arithmetic is exact.
  \<^item> \<open>Database\<close>: the tables of \<open>packages/db/src/schema\<close>, \<open>withOrg\<close> and \<open>isUuid\<close> of \<open>client.ts\<close>, and the
    policies of the migration \<open>0001_roles_and_rls.sql\<close>. \<open>Integrity\<close>: the invariant \<open>wf_db\<close>. \<open>Tenancy\<close>:
    what it means that a request is framed by and confined to an organization; \<open>Tenants\<close>: sequences of
    requests of several organizations.
  \<^item> \<open>Proto\<close>: the messages of \<open>packages/proto-ts\<close>, as the handlers use them. \<open>Wire\<close>: \<open>domain/wire.ts\<close>.
    \<open>Descriptors\<close>: the contract in \<open>proto/modelhub/v1\<close> and everything that \<open>packages/proto-ts\<close> generates
    from it (embedded descriptors, schema constants, declared types), as data; \<open>Wire_Format\<close>: base64 and
    the binary format that the embedded descriptors are written in.
  \<^item> \<open>Pairing\<close>: \<open>domain/pairing.ts\<close>. \<open>Nodes\<close>, \<open>Enrollment\<close>, \<open>Inventory\<close>: \<open>domain/nodes.ts\<close>, its
    definitions, what enrollment guarantees, and what reports do.
  \<^item> \<open>Node_Auth\<close>, \<open>Node_Service\<close>, \<open>Session\<close>, \<open>Fleet_Service\<close>, \<open>Sweeper\<close>, \<open>Server\<close>: \<open>rpc/node-auth.ts\<close>,
    \<open>rpc/node-service.ts\<close>, \<open>auth/session.ts\<close> with the hooks of \<open>auth/auth.ts\<close>, \<open>rpc/fleet-service.ts\<close>,
    \<open>jobs/offline-sweeper.ts\<close>, and \<open>server.ts\<close> with the connections of \<open>client.ts\<close>.
  \<^item> \<open>Auth_Schema\<close>: Better Auth's tables in \<open>schema/auth.ts\<close> and the \<open>onDelete\<close> actions of both schema files.
  \<^item> \<open>Env\<close>, \<open>Process\<close>: \<open>env.ts\<close>; \<open>main.ts\<close> with the timer of the sweeper, as a machine driven by the events of
    the runtime. \<open>Routes\<close>: the two applications of \<open>server.ts\<close>, the service descriptors and registrations.
    \<open>Clients\<close>: what \<open>auth.ts\<close>, \<open>redis.ts\<close>, the browser's clients and the development server are set up with.
  \<^item> \<open>History\<close>: messages and sweeps over time, finite and infinite histories. \<open>End_To_End\<close>: the calls of \<open>e2e/smoke.test.ts\<close> in a row.
    \<open>Fixtures\<close>: \<open>test-helpers.ts\<close>, the agent's side of the authentication header.
  \<^item> \<open>Concurrency\<close>: enrollment cut into its statements, and the whole control plane as a step relation;
    \<open>Race\<close>: the traces of that relation and what becomes of every code.
    \<open>Isolation\<close>: the inventory transaction of \<open>domain/nodes.ts\<close> cut into its statements, any number of
    them overlapping at the isolation level \<open>READ COMMITTED\<close>; \<open>Separate_Reports\<close>: one of them without
    another of its node.
  \<^item> \<open>Web_Format\<close>, \<open>Web_View\<close>, \<open>Web_State\<close>: \<open>format.ts\<close>; the components \<open>DeviceMemoryBar\<close> and \<open>NodeCard\<close>;
    \<open>AddNodeDialog\<close>, the forms of \<open>routes/auth.tsx\<close>, \<open>routes/fleet.tsx\<close> and \<open>routes/root.tsx\<close>.
    \<open>Web_Routes\<close>: the route tree of \<open>router.tsx\<close>.

  Definitions carry the names of the source. A record's fields have a short prefix (\<open>n_\<close> for nodes,
  \<open>d_\<close> for devices, \<open>p_\<close> for pairing codes, \<open>mi_\<close> and \<open>mb_\<close> for the budget, \<open>dv_\<close> and \<open>nv_\<close> for the
  views). The state \<open>db\<close> holds one list per table; a handler that also uses Redis works on the pair of
  \<open>db\<close> and the nonce store.

  \<^bold>\<open>What the lemmas show.\<close>
  \<^item> Budget: an offer always leaves the reserve and what is in use (\<open>budget_leaves_reserve\<close>), stays in
    bounds, is the result of integer arithmetic for devices up to \<open>2\<^sup>5\<^sup>0\<close> bytes (\<open>budget_exact\<close>; above
    that a percentage can come out one byte off), and never grows with foreign use.
  \<^item> Pairing: the statements of a redemption implement an abstract registry of codes
    (\<open>redeem_refines\<close>); a code has at most one winner in any sequence of attempts, in any spelling.
  \<^item> Nodes: the outcomes of an enrollment, inventory and sample reports as functions of the rows,
    each all or nothing; the sweep as a function of silence.
  \<^item> Authentication: accepted headers are dated, signed with the stored key and not replayed within
    the window of the nonce; \<open>second_use_exact\<close> says when a second use
    is refused and when it is accepted.
  \<^item> Both ends: a header the fixtures build is accepted (\<open>genuine_header_accepted\<close>), with the printing of
    numbers, base64url and UTF-8 spelled out; a node's status is a function of its last heartbeat and
    the sweeps since (\<open>status_follows_heartbeats\<close>), and in every infinite history a node that stays
    silent while sweeps go on is in the end offline for good (\<open>silent_node_goes_offline\<close>); and the whole way from creating a code in the browser,
    over enrollment, connection and the first reports, to the fleet page (\<open>code_to_fleet_page\<close>).
  \<^item> Process: the sweeper runs exactly while the listeners are up, a clean exit means both are closed
    (\<open>process_lifecycle\<close>); a sweep that fails ends the process; a blank interval is zero.
  \<^item> Schema: deleting an organization removes exactly its rows (\<open>delete_organization_exact\<close>), but not from
    the sessions that name it (\<open>deleted_organization_lingers\<close>).
  \<^item> Listeners: neither can do what the other is for (\<open>listener_powers\<close>), except that Better Auth, on the
    browsers' one, may delete an organization, whose nodes go by the cascades of the schema; and every
    call of the browser's clients has its route.
  \<^item> Tenancy: connections change, and reads depend on, rows of one organization only; no sequence of
    requests of other organizations changes what one sees (\<open>reads_are_tenant_blind\<close>).
  \<^item> Concurrency: over every interleaving of statements of any number of enrollments with minted
    codes, connections, messages and sweeps, the database stays well-formed and a code has one
    winner (\<open>concurrent_integrity\<close>, \<open>concurrent_single_use\<close>). Every enrollment is answered after five
    statements of its own, and then every code used on the way has exactly one taker (\<open>race_settles\<close>);
    left alone, an enrollment computes what the sequential definition does (\<open>enroll_process_alone\<close>).
    Inventory reports that overlap store nothing that no committed report said, and what the last
    one says is stored (\<open>overlapping_reports\<close>). Without another report of its node at the same time, a
    report leaves exactly its devices (\<open>separate_reports_exact\<close>), as the handler does
    (\<open>inventory_alone\<close>); two at once can leave a device that the last does not name
    (\<open>overlap_keeps_both\<close>).
  \<^item> Contract: the embedded descriptors, the schema constants and the declared types are those of the
    \<open>.proto\<close> files, field by field (\<open>descriptors_agree\<close>); a message written in the binary format is read
    back (\<open>read_write_fields\<close>).
  \<^item> Pages: what a figure says, read back from its text, is the value to a stated accuracy; the
    memory bar fits; the dialog is never stuck; and two behaviours a user can meet: a sign-in whose
    promise rejects locks its form, a code that arrives after closing is kept. No page shows anything
    of a fleet without a session (\<open>pages_guarded\<close>).
  \<^item> Server: internal errors are never described to a client; without the owner connection no agent
    can be served.

  \<^bold>\<open>Interfaces.\<close> \<open>org_table\<close> (a table with a policy; three tables), \<open>org_scoped\<close> and its extension
  \<open>org_confined\<close> (a request under \<open>withOrg\<close>; the handlers), \<open>single_use\<close> (redeeming codes),
  \<open>keyed_table\<close> (devices by node and local id), \<open>nonce_store\<close> and its extension \<open>expiring_store\<close> (Redis), \<open>zod_laws\<close> (the validators of
  the environment), \<open>heartbeat_trace\<close> (what a node's row goes through in an infinite history),
  \<open>invariant_system\<close> (the control plane, overlapping and separate reports, the process, the dialog,
  the forms).

  \<^bold>\<open>Parameters.\<close> The keyed hash of codes, \<open>createPublicKey\<close>, \<open>verify\<close>, \<open>sign\<close>, key generation and
  export, base64url decoding on the server, the validators of zod, the Redis
  command (with the laws of \<open>nonce_store\<close>), the API of Better Auth, the collation that orders names,
  the role of a connection string, clock readings, random numbers and generated uuids. Each stands as
  an argument of the definitions that use it.

  \<^bold>\<open>Bounds.\<close> Loops over lists are structural. The unit loop of \<open>formatBytes\<close> ends because the units do.
  Printing a number tries at most 17 digits, enough for every double; the search for its exponent
  looks at most 324 places behind the point, the last a double can have. Statements about exact
  doubles assume byte counts up to \<open>2\<^sup>5\<^sup>3\<close>, exact percentages devices up to \<open>2\<^sup>5\<^sup>0\<close>, those about ages differences below \<open>2\<^sup>5\<^sup>1\<close> milliseconds.
  A statement is atomic, and so is a transaction, except those of an inventory report, whose statements
  \<open>Isolation\<close> interleaves at the level the database runs them; anomalies of weaker isolation between
  other transactions are outside the model.

  \<^bold>\<open>Not modelled.\<close> The encoding of messages at run time (the protobuf runtime, which does it by the
  descriptors); how Fastify, Connect and the page router match a request with a route; the statements Better Auth
  runs on its tables; how zod, Redis, Postgres pools and React are built inside; logging; styling
  beyond the class names; the tests themselves; build configuration beyond the development proxy; the
  agent, which is written in Go.
\<close>

end
